(* ===== verification/Prelude.thy ===== *)
theory Prelude
  imports Main "HOL-Library.AList"
begin

text \<open>
  The vocabulary every component shares.

  \<^item> Faults: what a C++ call can do other than return. A null dereference, an integer
    division by zero, a signed overflow and an out-of-range access are undefined behaviour
    or an exception in the source; in the model each is a value of \<open>fault\<close>.
    \<open>StackOverflow\<close> is the call depth running out, \<open>Diverges\<close> a loop that has not ended within
    the rounds it is given, \<open>ProcessExit\<close> a call of \<open>exit\<close>. A fallible operation returns
    \<open>fault + 'a\<close>; \<open>bind_res\<close> sequences two of them.
  \<^item> Machine integers: the source computes with \<open>int\<close> (32 bit) and \<open>long\<close>/\<open>long long\<close>
    (64 bit, LP64). Values are \<open>int\<close>; an addition that could leave the range is
    \<open>add_i32\<close>/\<open>add_i64\<close>, which faults where the C++ addition is undefined.
  \<^item> Randomness: \<open>rand()\<close> and \<open>std::random_device\<close> are an explicit list of draws that is
    passed along; a list that has run out draws 0, so every function is total and every
    finite sequence of outcomes is some list.
  \<^item> \<open>std::set<int>\<close> is an ascending list without duplicates (\<open>set_insert\<close>,
    \<open>set_erase\<close>); its contract is the locale \<open>ordered_set\<close>.
\<close>

named_theorems res_simps \<open>evaluation and inversion of fallible computations\<close>

section \<open>Faults and fallible results\<close>

datatype fault =
    StackOverflow
  | NullDeref
  | OutOfRange
  | DivByZero
  | SignedOverflow
  | LogicError
  | Diverges
  | ProcessExit

text \<open>The faults that are exceptions.\<close>

definition thrown :: "fault \<Rightarrow> bool" where
  "thrown e \<longleftrightarrow> e = OutOfRange \<or> e = LogicError"

type_synonym 'a res = "fault + 'a"

definition bind_res :: "'a res \<Rightarrow> ('a \<Rightarrow> 'b res) \<Rightarrow> 'b res" where
  "bind_res m f = (case m of Inl e \<Rightarrow> Inl e | Inr x \<Rightarrow> f x)"

lemma bind_res_Inl [simp]: "bind_res (Inl e) f = Inl e"
  by (simp add: bind_res_def)

lemma bind_res_Inr [simp]: "bind_res (Inr x) f = f x"
  by (simp add: bind_res_def)

lemma bind_res_eq_Inr [res_simps]:
  "bind_res m f = Inr y \<longleftrightarrow> (\<exists>x. m = Inr x \<and> f x = Inr y)"
  by (cases m) auto

lemma bind_res_eq_Inl [res_simps]:
  "bind_res m f = Inl e \<longleftrightarrow> m = Inl e \<or> (\<exists>x. m = Inr x \<and> f x = Inl e)"
  by (cases m) auto

lemma bind_res_cong [fundef_cong]:
  "m = m' \<Longrightarrow> (\<And>x. m' = Inr x \<Longrightarrow> f x = g x) \<Longrightarrow> bind_res m f = bind_res m' g"
  by (cases m') auto

text \<open>
  A call with effects on a world it shares with other calls; an exception keeps the effects
  made before it.
\<close>

type_synonym ('w, 'a) act = "'w \<Rightarrow> 'a res \<times> 'w"

definition act_return :: "'a \<Rightarrow> ('w, 'a) act" where
  "act_return x w = (Inr x, w)"

definition act_raise :: "fault \<Rightarrow> ('w, 'a) act" where
  "act_raise e w = (Inl e, w)"

definition act_bind :: "('w, 'a) act \<Rightarrow> ('a \<Rightarrow> ('w, 'b) act) \<Rightarrow> ('w, 'b) act" where
  "act_bind m f w = (case m w of (Inl e, w') \<Rightarrow> (Inl e, w') | (Inr x, w') \<Rightarrow> f x w')"

text \<open>The same for a result that is already known.\<close>

definition act_lift :: "'a res \<Rightarrow> ('w, 'a) act" where
  "act_lift m w = (m, w)"

lemma act_return_eq [res_simps]: "act_return x w = (r, w') \<longleftrightarrow> r = Inr x \<and> w' = w"
  by (auto simp: act_return_def)

lemma act_raise_eq [res_simps]: "act_raise e w = (r, w') \<longleftrightarrow> r = Inl e \<and> w' = w"
  by (auto simp: act_raise_def)

lemma act_lift_eq [res_simps]: "act_lift m w = (r, w') \<longleftrightarrow> r = m \<and> w' = w"
  by (auto simp: act_lift_def)

lemma act_bind_eq_Inr [res_simps]:
  "act_bind m f w = (Inr y, w') \<longleftrightarrow> (\<exists>x v. m w = (Inr x, v) \<and> f x v = (Inr y, w'))"
  by (auto simp: act_bind_def split: prod.splits sum.splits)

lemma act_bind_eq_Inl [res_simps]:
  "act_bind m f w = (Inl e, w') \<longleftrightarrow>
     m w = (Inl e, w') \<or> (\<exists>x v. m w = (Inr x, v) \<and> f x v = (Inl e, w'))"
  by (auto simp: act_bind_def split: prod.splits sum.splits)

text \<open>
  Pre- and postconditions of calls: \<open>Q\<close> after a return, \<open>R\<close> after an exception.
\<close>

definition act_spec ::
  "('w \<Rightarrow> bool) \<Rightarrow> ('w, 'a) act \<Rightarrow> ('a \<Rightarrow> 'w \<Rightarrow> bool) \<Rightarrow> ('w \<Rightarrow> bool) \<Rightarrow> bool" where
  "act_spec P m Q R \<longleftrightarrow>
     (\<forall>w. P w \<longrightarrow> (case m w of (Inl e, w') \<Rightarrow> R w' | (Inr x, w') \<Rightarrow> Q x w'))"

lemma act_spec_return: "(\<And>w. P w \<Longrightarrow> Q x w) \<Longrightarrow> act_spec P (act_return x) Q R"
  by (simp add: act_spec_def act_return_def)

lemma act_spec_raise: "(\<And>w. P w \<Longrightarrow> R w) \<Longrightarrow> act_spec P (act_raise e) Q R"
  by (simp add: act_spec_def act_raise_def)

lemma act_spec_bind:
  assumes "act_spec P m I R" and "\<And>x. act_spec (I x) (f x) Q R"
  shows "act_spec P (act_bind m f) Q R"
  using assms unfolding act_spec_def act_bind_def
  by (fastforce split: prod.splits sum.splits)

lemma act_spec_pre:
  "act_spec P m Q R \<Longrightarrow> (\<And>w. P' w \<Longrightarrow> P w) \<Longrightarrow> act_spec P' m Q R"
  by (simp add: act_spec_def)

lemma act_spec_pure: "act_spec (\<lambda>w. P w \<and> C) m Q R \<longleftrightarrow> (C \<longrightarrow> act_spec P m Q R)"
  by (auto simp: act_spec_def)

lemma act_specD:
  "act_spec P m Q R \<Longrightarrow> P w \<Longrightarrow> m w = (Inr x, w') \<Longrightarrow> Q x w'"
  "act_spec P m Q R \<Longrightarrow> P w \<Longrightarrow> m w = (Inl e, w') \<Longrightarrow> R w'"
  by (auto simp: act_spec_def)

section \<open>Machine integers\<close>

definition in_i32 :: "int \<Rightarrow> bool" where
  "in_i32 x \<longleftrightarrow> - (2 ^ 31) \<le> x \<and> x < 2 ^ 31"

definition in_i64 :: "int \<Rightarrow> bool" where
  "in_i64 x \<longleftrightarrow> - (2 ^ 63) \<le> x \<and> x < 2 ^ 63"

text \<open>For evaluation, with the bounds as numerals.\<close>

lemma in_i32_code [code]: "in_i32 x \<longleftrightarrow> - 2147483648 \<le> x \<and> x \<le> 2147483647"
  by (auto simp: in_i32_def)

lemma in_i64_code [code]: "in_i64 x \<longleftrightarrow> - 9223372036854775808 \<le> x \<and> x \<le> 9223372036854775807"
  by (auto simp: in_i64_def)

definition add_i32 :: "int \<Rightarrow> int \<Rightarrow> int res" where
  "add_i32 a b = (if in_i32 (a + b) then Inr (a + b) else Inl SignedOverflow)"

definition add_i64 :: "int \<Rightarrow> int \<Rightarrow> int res" where
  "add_i64 a b = (if in_i64 (a + b) then Inr (a + b) else Inl SignedOverflow)"

lemma add_i32_eq_Inr [res_simps]: "add_i32 a b = Inr c \<longleftrightarrow> c = a + b \<and> in_i32 (a + b)"
  by (auto simp: add_i32_def)

lemma add_i64_eq_Inr [res_simps]: "add_i64 a b = Inr c \<longleftrightarrow> c = a + b \<and> in_i64 (a + b)"
  by (auto simp: add_i64_def)

lemma add_i32_eq_Inl [res_simps]: "add_i32 a b = Inl e \<longleftrightarrow> e = SignedOverflow \<and> \<not> in_i32 (a + b)"
  by (auto simp: add_i32_def)

lemma add_i64_eq_Inl [res_simps]: "add_i64 a b = Inl e \<longleftrightarrow> e = SignedOverflow \<and> \<not> in_i64 (a + b)"
  by (auto simp: add_i64_def)

section \<open>Random draws\<close>

type_synonym rng = "nat list"

fun draw :: "rng \<Rightarrow> nat \<times> rng" where
  "draw [] = (0, [])"
| "draw (x # xs) = (x, xs)"

definition RAND_MAX :: nat where
  "RAND_MAX = 2147483647"

text \<open>\<open>rand()\<close>: a value in \<open>0..RAND_MAX\<close>.\<close>

definition rand :: "rng \<Rightarrow> nat \<times> rng" where
  "rand r = (fst (draw r) mod Suc RAND_MAX, snd (draw r))"

text \<open>For evaluation, with the modulus as an integer.\<close>

lemma rand_code [code]: "rand r = (nat (int (fst (draw r)) mod 2147483648), snd (draw r))"
proof -
  have "Suc RAND_MAX = 2147483648" by (simp add: RAND_MAX_def)
  moreover have "k mod 2147483648 = nat (int k mod 2147483648)" for k :: nat
    by (metis nat_int of_nat_numeral zmod_int)
  ultimately show ?thesis unfolding rand_def by metis
qed

text \<open>\<open>rand() % n\<close>; the operand 0 traps.\<close>

definition rand_mod :: "nat \<Rightarrow> rng \<Rightarrow> (nat \<times> rng) res" where
  "rand_mod n r = (if n = 0 then Inl DivByZero else Inr (fst (rand r) mod n, snd (rand r)))"

lemma rand_mod_less: "rand_mod n r = Inr (k, r') \<Longrightarrow> k < n"
  by (auto simp: rand_mod_def split: if_splits)

lemma rand_mod_eq_Inl [res_simps]: "rand_mod n r = Inl e \<longleftrightarrow> n = 0 \<and> e = DivByZero"
  by (auto simp: rand_mod_def)

lemma rand_bound: "fst (rand r) \<le> RAND_MAX"
  by (simp add: rand_def less_Suc_eq_le [symmetric])

text \<open>
  \<open>std::uniform_int_distribution<>(0, n - 1)\<close> on a fresh generator: any value below
  \<open>n\<close> can come out.
\<close>

definition uniform :: "nat \<Rightarrow> rng \<Rightarrow> nat \<times> rng" where
  "uniform n r = (fst (draw r) mod n, snd (draw r))"

lemma uniform_less: "0 < n \<Longrightarrow> fst (uniform n r) < n"
  by (simp add: uniform_def)

lemma uniform_onto: "k < n \<Longrightarrow> \<exists>r. fst (uniform n r) = k"
  by (rule exI [of _ "[k]"]) (simp add: uniform_def)

section \<open>Characters\<close>

text \<open>\<open>std::isspace\<close> in the C locale.\<close>

definition isspace :: "char \<Rightarrow> bool" where
  "isspace c \<longleftrightarrow> c = CHR '' '' \<or> 9 \<le> (of_char c :: nat) \<and> (of_char c :: nat) \<le> 13"

section \<open>Ordered sets of integers\<close>

fun set_insert :: "int \<Rightarrow> int list \<Rightarrow> int list" where
  "set_insert x [] = [x]"
| "set_insert x (y # ys) =
     (if x < y then x # y # ys else if x = y then y # ys else y # set_insert x ys)"

definition set_erase :: "int \<Rightarrow> int list \<Rightarrow> int list" where
  "set_erase x ys = filter (\<lambda>y. y \<noteq> x) ys"

definition ascending :: "int list \<Rightarrow> bool" where
  "ascending xs \<longleftrightarrow> sorted_wrt (<) xs"

text \<open>
  The contract of \<open>std::set\<close> the code relies on, against the mathematical set of its
  elements. The scheduler's accounting of free threads is proved inside it.
\<close>

locale ordered_set =
  fixes ins :: "int \<Rightarrow> 's \<Rightarrow> 's"
    and era :: "int \<Rightarrow> 's \<Rightarrow> 's"
    and elems :: "'s \<Rightarrow> int set"
    and siz :: "'s \<Rightarrow> nat"
    and ok :: "'s \<Rightarrow> bool"
  assumes elems_ins: "ok s \<Longrightarrow> elems (ins x s) = insert x (elems s)"
    and elems_era: "ok s \<Longrightarrow> elems (era x s) = elems s - {x}"
    and ok_ins: "ok s \<Longrightarrow> ok (ins x s)"
    and ok_era: "ok s \<Longrightarrow> ok (era x s)"
    and fin: "ok s \<Longrightarrow> finite (elems s)"
    and siz_card: "ok s \<Longrightarrow> siz s = card (elems s)"
begin

lemma siz_era_member: "ok s \<Longrightarrow> x \<in> elems s \<Longrightarrow> Suc (siz (era x s)) = siz s"
  by (metis card_Suc_Diff1 elems_era fin ok_era siz_card)

lemma siz_ins_fresh: "ok s \<Longrightarrow> x \<notin> elems s \<Longrightarrow> siz (ins x s) = Suc (siz s)"
  by (simp add: siz_card ok_ins elems_ins fin)

lemma elems_ins_era: "ok s \<Longrightarrow> x \<in> elems s \<Longrightarrow> elems (ins x (era x s)) = elems s"
  by (auto simp: elems_ins elems_era ok_era)

end

lemma set_set_insert [simp]: "set (set_insert x ys) = insert x (set ys)"
  by (induction ys) auto

lemma set_set_erase [simp]: "set (set_erase x ys) = set ys - {x}"
  by (auto simp: set_erase_def)

lemma ascending_set_insert: "ascending ys \<Longrightarrow> ascending (set_insert x ys)"
  by (induction ys) (auto simp: ascending_def)

lemma ascending_filter: "ascending ys \<Longrightarrow> ascending (filter P ys)"
  by (simp add: ascending_def sorted_wrt_filter)

lemma ascending_set_erase: "ascending ys \<Longrightarrow> ascending (set_erase x ys)"
  by (simp add: set_erase_def ascending_filter)

lemma ascending_distinct: "ascending ys \<Longrightarrow> distinct ys"
  by (simp add: ascending_def strict_sorted_iff)

interpretation std_set: ordered_set set_insert set_erase set length ascending
  by unfold_locales
    (auto simp: ascending_set_insert ascending_set_erase dest: ascending_distinct
      intro: distinct_card [symmetric])

section \<open>Lists and association lists\<close>

lemma map_of_filter_keys:
  "map_of (filter (\<lambda>(k, v). P k) m) k = (if P k then map_of m k else None)"
  by (induction m) auto

lemma dom_map_of_keys: "dom (map_of m) = set (map fst m)"
  by (simp add: dom_map_of_conv_image_fst)

lemma map_of_distinct_memI:
  "distinct (map fst m) \<Longrightarrow> (k, v) \<in> set m \<Longrightarrow> map_of m k = Some v"
  by (simp add: map_of_is_SomeI)

end
