(* ===== verification/Operations.thy ===== *)
theory Operations
  imports Prelude
begin

text \<open>
  Operations, the values that travel between the generator, the runner and the workers
  (\<open>src/jepsen/Operation.h\<close>, \<open>Operation.cpp\<close>, \<open>include/constant.h\<close>): the class
  \<open>Operation\<close> with its constructors and assignments, \<open>OperationFactory\<close>, and the
  rendering \<open>toString\<close>.

  The payload \<open>OPInfo\<close> is \<open>Json::Value\<close> of jsoncpp, a third-party type. Its eight kinds
  of value are the cases \<open>Operation::toString\<close> switches on; the accessors the code
  calls are fields of the parameter record \<open>json_lib\<close>, and \<open>boost::format\<close> is a
  function parameter.
\<close>

section \<open>Constants\<close>

definition kNemesisProcess :: int where [simp]: "kNemesisProcess = - 1"
definition kInvalidProcess :: int where [simp]: "kInvalidProcess = - 2"
definition kInvalidTime :: int where [simp]: "kInvalidTime = - 3"

section \<open>Payload\<close>

text \<open>A double is kept as its bit pattern (here: an integer code); only printing reads it.\<close>

datatype json =
    nullValue
  | intValue int
  | uintValue int
  | realValue int
  | stringValue string
  | booleanValue bool
  | arrayValue "json list"
  | objectValue "(string \<times> json) list"

record json_lib =
  asInt :: "json \<Rightarrow> int res"
  asUInt :: "json \<Rightarrow> int res"
  double_to_string :: "int \<Rightarrow> string"
  append_to :: "json \<Rightarrow> json \<Rightarrow> json"
  index_ref :: "json \<Rightarrow> string \<Rightarrow> json \<times> json"
  set_member :: "json \<Rightarrow> string \<Rightarrow> json \<Rightarrow> json"

section \<open>The class Operation\<close>

datatype op_kind =
    kInit | kInvoke | kSuccess | kFailed | kInfo | kExit | kNil | kPending

fun TypeStr :: "op_kind \<Rightarrow> string" where
  "TypeStr kInit = '':init''"
| "TypeStr kInvoke = '':invoke''"
| "TypeStr kSuccess = '':ok''"
| "TypeStr kFailed = '':fail''"
| "TypeStr kInfo = '':info''"
| "TypeStr kExit = '':exit''"
| "TypeStr kNil = '':nil''"
| "TypeStr kPending = '':pending''"

record operation =
  op_type :: op_kind
  op_func :: string
  op_info :: json
  op_helper :: json
  op_time :: int
  op_process :: int

text \<open>The default, one-argument and three-argument constructors.\<close>

definition Operation_default :: operation where
  "Operation_default =
     \<lparr>op_type = kInit, op_func = [], op_info = nullValue, op_helper = nullValue,
      op_time = 0, op_process = kInvalidProcess\<rparr>"

definition Operation_of_type :: "op_kind \<Rightarrow> operation" where
  "Operation_of_type t =
     \<lparr>op_type = t, op_func = [], op_info = nullValue, op_helper = nullValue,
      op_time = 0, op_process = kInvalidProcess\<rparr>"

definition Operation_of :: "string \<Rightarrow> json \<Rightarrow> op_kind \<Rightarrow> operation" where
  "Operation_of f i t =
     \<lparr>op_type = t, op_func = f, op_info = i, op_helper = nullValue,
      op_time = 0, op_process = kInvalidProcess\<rparr>"

text \<open>
  The assignments write the fields one by one. The copy assignment returns early on
  self-assignment; the move assignment leaves the payload of the source in a moved-from
  state, which the arguments \<open>m\<close> and \<open>m'\<close> stand for.
\<close>

definition Operation_copy_assign :: "bool \<Rightarrow> operation \<Rightarrow> operation \<Rightarrow> operation" where
  "Operation_copy_assign same_object this rhs =
     (if same_object then this
      else this\<lparr>op_type := op_type rhs, op_func := op_func rhs, op_info := op_info rhs,
                op_helper := op_helper rhs, op_process := op_process rhs,
                op_time := op_time rhs\<rparr>)"

definition Operation_move_assign ::
  "json \<Rightarrow> json \<Rightarrow> operation \<Rightarrow> operation \<Rightarrow> operation \<times> operation" where
  "Operation_move_assign m m' this rhs =
     (this\<lparr>op_type := op_type rhs, op_func := op_func rhs, op_info := op_info rhs,
           op_helper := op_helper rhs, op_process := op_process rhs,
           op_time := op_time rhs\<rparr>,
      rhs\<lparr>op_info := m, op_helper := m'\<rparr>)"

text \<open>\<open>getOp\<close> hands out a reference to a member; the index may insert it.\<close>

definition getOp :: "json_lib \<Rightarrow> operation \<Rightarrow> string \<Rightarrow> json \<times> operation" where
  "getOp J op key =
     (case index_ref J (op_info op) key of (v, i) \<Rightarrow> (v, op\<lparr>op_info := i\<rparr>))"

section \<open>OperationFactory\<close>

definition factory_write :: "json_lib \<Rightarrow> json \<Rightarrow> json \<Rightarrow> operation" where
  "factory_write J key value =
     Operation_of ''write'' (append_to J (append_to J nullValue key) value) kInvoke"

definition factory_read :: "json_lib \<Rightarrow> json \<Rightarrow> operation" where
  "factory_read J key =
     Operation_of ''read'' (append_to J (append_to J nullValue key) nullValue) kInvoke"

definition factory_cas :: "json_lib \<Rightarrow> json \<Rightarrow> json \<Rightarrow> json \<Rightarrow> operation" where
  "factory_cas J key value old =
     Operation_of ''cas''
       (append_to J (append_to J (append_to J nullValue key) value) old) kInvoke"

definition factory_exit :: operation where
  "factory_exit = Operation_of ''exit'' nullValue kExit"

definition factory_pending :: operation where
  "factory_pending = Operation_of ''pending'' nullValue kPending"

definition factory_fakePartition :: "json_lib \<Rightarrow> operation" where
  "factory_fakePartition J =
     (Operation_of ''partition''
        (set_member J nullValue ''class'' (stringValue ''partition'')) kInvoke)
       \<lparr>op_process := kNemesisProcess\<rparr>"

section \<open>Rendering\<close>

text \<open>\<open>std::to_string\<close> on integers.\<close>

definition digit :: "nat \<Rightarrow> char" where
  "digit d = char_of (48 + d)"

lemma digits:
  "digit 0 = CHR ''0''" "digit 1 = CHR ''1''" "digit (Suc 0) = CHR ''1''" "digit 2 = CHR ''2''"
  "digit 3 = CHR ''3''" "digit 4 = CHR ''4''" "digit 5 = CHR ''5''" "digit 6 = CHR ''6''"
  "digit 7 = CHR ''7''" "digit 8 = CHR ''8''" "digit 9 = CHR ''9''"
  by code_simp+

fun nat_to_string :: "nat \<Rightarrow> string" where
  "nat_to_string n =
     (if n < 10 then [digit n] else nat_to_string (n div 10) @ [digit (n mod 10)])"

declare nat_to_string.simps [simp del]

definition int_to_string :: "int \<Rightarrow> string" where
  "int_to_string i =
     (if i < 0 then CHR ''-'' # nat_to_string (nat (- i)) else nat_to_string (nat i))"

fun json_to_string :: "json_lib \<Rightarrow> json \<Rightarrow> string res"
  and join_members :: "json_lib \<Rightarrow> (string \<times> json) list \<Rightarrow> string res"
  and join_elements :: "json_lib \<Rightarrow> json list \<Rightarrow> string res"
where
  "json_to_string J nullValue = Inr ''nil''"
| "json_to_string J (intValue i) =
     bind_res (asInt J (intValue i)) (\<lambda>n. Inr (int_to_string n))"
| "json_to_string J (uintValue i) =
     bind_res (asUInt J (uintValue i)) (\<lambda>n. Inr (int_to_string n))"
| "json_to_string J (realValue d) = Inr (double_to_string J d)"
| "json_to_string J (stringValue s) = Inr s"
| "json_to_string J (booleanValue b) = Inr (if b then ''true'' else ''false'')"
| "json_to_string J (objectValue ms) =
     bind_res (join_members J ms) (\<lambda>res. Inr (''{'' @ res @ ''}''))"
| "json_to_string J (arrayValue js) =
     bind_res (join_elements J js) (\<lambda>res. Inr (''['' @ res @ '']''))"
| "join_members J [] = Inr []"
| "join_members J ((k, v) # ms) =
     bind_res (json_to_string J v) (\<lambda>s.
       bind_res (join_members J ms) (\<lambda>rest.
         Inr (k @ '':'' @ s @ (if ms = [] then '''' else '', '') @ rest)))"
| "join_elements J [] = Inr []"
| "join_elements J (j # js) =
     bind_res (json_to_string J j) (\<lambda>s.
       bind_res (join_elements J js) (\<lambda>rest.
         Inr (s @ (if js = [] then '''' else '' '') @ rest)))"

text \<open>
  \<open>Operation::toString\<close>; \<open>format\<close> is \<open>boost::format\<close>: a template and the streamed
  arguments.
\<close>

definition operation_to_string ::
  "json_lib \<Rightarrow> (string \<Rightarrow> string list \<Rightarrow> string) \<Rightarrow> operation \<Rightarrow> string res" where
  "operation_to_string J format op =
     bind_res (json_to_string J (op_info op)) (\<lambda>v.
       if op_process op = kNemesisProcess
       then Inr (format ''{:type %s, :f %s, :value %s, :process Nemesis, :time %lld}''
              [TypeStr (op_type op), op_func op, v, int_to_string (op_time op)])
       else Inr (format ''{:type %s, :f %s, :value %s, :process %d, :time %lld}''
              [TypeStr (op_type op), op_func op, v, int_to_string (op_process op),
               int_to_string (op_time op)]))"

end
