(* ===== verification/Contexts.thy ===== *)
theory Contexts
  imports Operations
begin

text \<open>
  The scheduling context (\<open>src/jepsen/Context.h\<close>, \<open>Context.cpp\<close>): the time, the ordered
  set of free threads and the map from threads to the logical process each one runs. A
  thread whose operation ends indeterminately gets a new process, so that a process is
  never reused.

  \<open>std::unordered_map<int, int>\<close> is an association list in iteration order, which the
  standard leaves open: the theorems hold for every order.
\<close>

record ctx =
  ctx_time :: int
  free_threads :: "int list"
  workers :: "(int \<times> int) list"

section \<open>The map from threads to processes\<close>

text \<open>\<open>at\<close> throws \<open>std::out_of_range\<close>; \<open>operator[]\<close> inserts a 0.\<close>

definition map_at :: "(int \<times> 'v) list \<Rightarrow> int \<Rightarrow> 'v res" where
  "map_at m k = (case map_of m k of None \<Rightarrow> Inl OutOfRange | Some v \<Rightarrow> Inr v)"

definition map_index :: "'v \<Rightarrow> (int \<times> 'v) list \<Rightarrow> int \<Rightarrow> 'v \<times> (int \<times> 'v) list" where
  "map_index d m k =
     (case map_of m k of None \<Rightarrow> (d, AList.update k d m) | Some v \<Rightarrow> (v, m))"

section \<open>Operations\<close>

definition Context_init :: "int \<Rightarrow> int \<Rightarrow> ctx" where
  "Context_init now concurrency =
     \<lparr>ctx_time = now,
      free_threads =
        set_insert kNemesisProcess
          (fold set_insert [0..concurrency - 1] []),
      workers = []\<rparr>"

definition randomFreeProcess :: "ctx \<Rightarrow> rng \<Rightarrow> (int \<times> rng) res" where
  "randomFreeProcess c r =
     (let n = length (free_threads c) in
      if n \<noteq> 0 then
        let (k, r') = uniform n r; thread = free_threads c ! k in
        bind_res (map_at (workers c) thread) (\<lambda>p. Inr (p, r'))
      else Inr (kInvalidProcess, r))"

definition nextProcess :: "ctx \<Rightarrow> int \<Rightarrow> (int \<times> ctx) res" where
  "nextProcess c thread =
     (if thread \<noteq> kNemesisProcess then
        let cnt = int (length (filter (\<lambda>(t, p). p \<noteq> kNemesisProcess) (workers c)));
            (v, m) = map_index 0 (workers c) thread in
        bind_res (add_i32 v cnt) (\<lambda>p. Inr (p, c\<lparr>workers := m\<rparr>))
      else Inr (thread, c))"

fun find_thread :: "(int \<times> int) list \<Rightarrow> int \<Rightarrow> int" where
  "find_thread [] process = kInvalidProcess"
| "find_thread ((t, p) # m) process = (if p = process then t else find_thread m process)"

definition processToThread :: "ctx \<Rightarrow> int \<Rightarrow> int" where
  "processToThread c process = find_thread (workers c) process"

text \<open>
  \<open>onThreadsContext\<close> of \<open>generator/Generator.cpp\<close>: the context restricted to the threads
  a filter accepts.
\<close>

definition onThreadsContext :: "(int \<Rightarrow> bool) \<Rightarrow> ctx \<Rightarrow> ctx" where
  "onThreadsContext f c =
     c\<lparr>free_threads := fold (\<lambda>t s. if f t then set_insert t s else s) (free_threads c) [],
       workers := filter (\<lambda>(t, p). f t) (workers c)\<rparr>"

section \<open>Well-formed contexts\<close>

text \<open>
  What \<open>op\<close> relies on: one entry per thread, one thread per process, every free thread
  has a process, and no process is the sentinel \<open>kInvalidProcess\<close>.
\<close>

definition ctx_wf :: "ctx \<Rightarrow> bool" where
  "ctx_wf c \<longleftrightarrow>
     ascending (free_threads c) \<and> distinct (map fst (workers c)) \<and>
     distinct (map snd (workers c)) \<and>
     set (free_threads c) \<subseteq> set (map fst (workers c)) \<and>
     kInvalidProcess \<notin> set (map snd (workers c))"

definition free_procs :: "ctx \<Rightarrow> int set" where
  "free_procs c = {p. \<exists>t \<in> set (free_threads c). map_of (workers c) t = Some p}"

text \<open>
  The runner's invariant for \<open>n\<close> client threads: the threads are \<open>0..<n\<close> and the
  nemesis, the nemesis is its own process, and the process of client thread \<open>t\<close> is
  congruent to \<open>t\<close> modulo \<open>n\<close>.
\<close>

definition ctx_inv :: "int \<Rightarrow> ctx \<Rightarrow> bool" where
  "ctx_inv n c \<longleftrightarrow>
     ascending (free_threads c) \<and> distinct (map fst (workers c)) \<and>
     set (map fst (workers c)) = insert kNemesisProcess {0..<n} \<and>
     set (free_threads c) \<subseteq> set (map fst (workers c)) \<and>
     map_of (workers c) kNemesisProcess = Some kNemesisProcess \<and>
     (\<forall>t p. map_of (workers c) t = Some p \<longrightarrow> t \<noteq> kNemesisProcess \<longrightarrow> t \<le> p \<and> p mod n = t)"

lemma ctx_wf_thread_process:
  assumes "ctx_wf c" and "t \<in> set (free_threads c)"
  obtains p where "map_of (workers c) t = Some p" and "p \<noteq> kInvalidProcess"
proof -
  have "t \<in> dom (map_of (workers c))"
    using assms by (auto simp: ctx_wf_def dom_map_of_keys)
  then obtain p where p: "map_of (workers c) t = Some p" by auto
  then have "p \<in> set (map snd (workers c))"
    by (force dest: map_of_SomeD)
  then have "p \<noteq> kInvalidProcess" using assms(1) by (auto simp: ctx_wf_def)
  with p that show thesis by blast
qed

lemma free_procs_valid: "ctx_wf c \<Longrightarrow> p \<in> free_procs c \<Longrightarrow> p \<noteq> kInvalidProcess"
  by (auto simp: free_procs_def elim!: ctx_wf_thread_process)

subsection \<open>randomFreeProcess\<close>

lemma randomFreeProcess_none:
  "free_threads c = [] \<Longrightarrow> randomFreeProcess c r = Inr (kInvalidProcess, r)"
  by (simp add: randomFreeProcess_def)

lemma randomFreeProcess_some:
  assumes "ctx_wf c" and "free_threads c \<noteq> []"
  obtains p where "randomFreeProcess c r = Inr (p, snd (draw r))" and "p \<in> free_procs c"
    and "p \<noteq> kInvalidProcess"
proof -
  let ?n = "length (free_threads c)" and ?k = "fst (uniform (length (free_threads c)) r)"
  let ?t = "free_threads c ! ?k"
  have t: "?t \<in> set (free_threads c)"
    using assms(2) by (simp add: uniform_less)
  with assms(1) obtain p where p: "map_of (workers c) ?t = Some p" "p \<noteq> kInvalidProcess"
    by (rule ctx_wf_thread_process)
  have "randomFreeProcess c r = Inr (p, snd (draw r))"
    using assms(2) p(1)
    by (simp add: randomFreeProcess_def map_at_def uniform_def Let_def split_def)
  with p t that show thesis by (auto simp: free_procs_def)
qed

lemma randomFreeProcess_onto:
  assumes "ctx_wf c" and "p \<in> free_procs c"
  shows "\<exists>r r'. randomFreeProcess c r = Inr (p, r')"
proof -
  obtain t where t: "t \<in> set (free_threads c)" "map_of (workers c) t = Some p"
    using assms(2) by (auto simp: free_procs_def)
  then obtain k where k: "k < length (free_threads c)" "free_threads c ! k = t"
    by (auto simp: in_set_conv_nth)
  obtain r where "fst (uniform (length (free_threads c)) r) = k"
    using k(1) uniform_onto by blast
  then have "randomFreeProcess c r = Inr (p, snd (uniform (length (free_threads c)) r))"
    using k t by (auto simp: randomFreeProcess_def map_at_def Let_def split_def)
  then show ?thesis by blast
qed

lemma randomFreeProcess_fault:
  "ctx_wf c \<Longrightarrow> randomFreeProcess c r \<noteq> Inl e"
  by (cases "free_threads c = []")
    (auto simp: randomFreeProcess_none elim: randomFreeProcess_some [of c r])

subsection \<open>processToThread\<close>

lemma find_thread_distinct:
  "distinct (map snd m) \<Longrightarrow> (t, p) \<in> set m \<Longrightarrow> find_thread m p = t"
  by (induction m p rule: find_thread.induct) (auto simp: rev_image_eqI)

lemma find_thread_absent: "p \<notin> set (map snd m) \<Longrightarrow> find_thread m p = kInvalidProcess"
  by (induction m p rule: find_thread.induct) auto

lemma processToThread_inverse:
  "ctx_wf c \<Longrightarrow> map_of (workers c) t = Some p \<Longrightarrow> processToThread c p = t"
  by (auto simp: processToThread_def ctx_wf_def dest!: map_of_SomeD
      intro: find_thread_distinct)

lemma find_thread_order:
  assumes "distinct (map snd m)" and "set m' = set m" and "distinct (map snd m')"
  shows "find_thread m' p = find_thread m p"
proof (cases "p \<in> set (map snd m)")
  case True
  then obtain t where t: "(t, p) \<in> set m" by auto
  then have "find_thread m p = t" "find_thread m' p = t"
    using assms find_thread_distinct by blast+
  then show ?thesis by simp
next
  case False
  moreover have "set (map snd m') = set (map snd m)"
    using assms(2) by simp
  ultimately show ?thesis by (simp add: find_thread_absent del: set_map)
qed

subsection \<open>onThreadsContext\<close>

lemma set_insert_last: "\<forall>y \<in> set ys. y < x \<Longrightarrow> set_insert x ys = ys @ [x]"
  by (induction ys) auto

lemma fold_set_insert_filter:
  "ascending (ys @ xs) \<Longrightarrow>
     fold (\<lambda>t s. if f t then set_insert t s else s) xs ys = ys @ filter f xs"
proof (induction xs arbitrary: ys)
  case Nil
  then show ?case by simp
next
  case (Cons x xs)
  have last: "set_insert x ys = ys @ [x]"
    using Cons.prems by (intro set_insert_last) (auto simp: ascending_def sorted_wrt_append)
  have asc: "ascending (ys @ xs)"
    using Cons.prems by (auto simp: ascending_def sorted_wrt_append)
  show ?case
    using Cons.IH [of "ys @ [x]"] Cons.IH [OF asc] Cons.prems last by auto
qed

lemma free_onThreadsContext:
  "ascending (free_threads c) \<Longrightarrow>
     free_threads (onThreadsContext f c) = filter f (free_threads c)"
  by (simp add: onThreadsContext_def fold_set_insert_filter)

lemma workers_onThreadsContext:
  "workers (onThreadsContext f c) = filter (\<lambda>(t, p). f t) (workers c)"
  by (simp add: onThreadsContext_def)

lemma time_onThreadsContext [simp]: "ctx_time (onThreadsContext f c) = ctx_time c"
  by (simp add: onThreadsContext_def)

lemma fst_filter_keys: "fst ` {x \<in> set m. case x of (t, p) \<Rightarrow> f t} = {t \<in> fst ` set m. f t}"
  by force

lemma ctx_wf_onThreadsContext: "ctx_wf c \<Longrightarrow> ctx_wf (onThreadsContext f c)"
  by (auto simp: ctx_wf_def free_onThreadsContext workers_onThreadsContext ascending_filter
      fst_filter_keys intro: distinct_map_filter)

lemma free_procs_onThreadsContext:
  "ctx_wf c \<Longrightarrow> free_procs (onThreadsContext f c) =
     {p \<in> free_procs c. f (processToThread c p)}"
  by (auto simp: free_procs_def free_onThreadsContext workers_onThreadsContext ctx_wf_def
      map_of_filter_keys processToThread_inverse [unfolded ctx_wf_def] split: if_splits)

lemma onThreadsContext_twice:
  "ascending (free_threads c) \<Longrightarrow>
     onThreadsContext f (onThreadsContext g c) = onThreadsContext (\<lambda>t. g t \<and> f t) c"
  by (simp add: onThreadsContext_def fold_set_insert_filter ascending_filter conj_commute
      split_def)

subsection \<open>The runner's context\<close>

lemma Context_init_free:
  "0 \<le> n \<Longrightarrow> free_threads (Context_init now n) = - 1 # [0..n - 1]"
proof -
  assume "0 \<le> n"
  have asc: "ascending [0..n - 1]"
    by (simp add: ascending_def)
  then have "fold set_insert [0..n - 1] [] = [0..n - 1]"
    using fold_set_insert_filter [of "[]" "[0..n - 1]" "\<lambda>_. True"] by simp
  moreover have "set_insert (- 1) xs = - 1 # xs" if "\<forall>x \<in> set xs. 0 \<le> x" for xs :: "int list"
    using that by (cases xs) auto
  ultimately show ?thesis by (simp add: Context_init_def)
qed

lemma ctx_inv_worker_range:
  assumes "ctx_inv n c" and "map_of (workers c) t = Some p"
  shows "t = kNemesisProcess \<and> p = kNemesisProcess \<or>
     0 \<le> t \<and> t < n \<and> t \<le> p \<and> p mod n = t"
proof (cases "t = kNemesisProcess")
  case True
  then show ?thesis using assms by (simp add: ctx_inv_def)
next
  case False
  have "t \<in> set (map fst (workers c))"
    using assms(2) by (metis dom_map_of_keys domI)
  then have "0 \<le> t" "t < n"
    using assms(1) False unfolding ctx_inv_def by auto
  moreover have "t \<le> p \<and> p mod n = t"
    using assms False unfolding ctx_inv_def by blast
  ultimately show ?thesis by blast
qed

lemma ctx_inv_process_inj:
  assumes "ctx_inv n c" and "map_of (workers c) t = Some p" "map_of (workers c) u = Some p"
  shows "t = u"
  using ctx_inv_worker_range [OF assms(1,2)] ctx_inv_worker_range [OF assms(1,3)] by auto

lemma distinct_snd_of_inj:
  "distinct (map fst m) \<Longrightarrow>
     (\<And>t u p. (t, p) \<in> set m \<Longrightarrow> (u, p) \<in> set m \<Longrightarrow> t = u) \<Longrightarrow> distinct (map snd m)"
proof (induction m)
  case Nil
  then show ?case by simp
next
  case (Cons tp m)
  obtain t p where tp: "tp = (t, p)" by force
  have "p \<notin> snd ` set m"
  proof
    assume "p \<in> snd ` set m"
    then obtain u where u: "(u, p) \<in> set m" by force
    then have "t = u" using Cons.prems(2) [of t p u] tp by simp
    with u Cons.prems(1) tp show False by force
  qed
  moreover have "distinct (map snd m)"
    using Cons by (metis distinct.simps(2) list.set_intros(2) list.simps(9))
  ultimately show ?case by (simp add: tp)
qed

lemma ctx_inv_wf:
  assumes "ctx_inv n c"
  shows "ctx_wf c"
proof -
  have dist: "distinct (map fst (workers c))" using assms by (simp add: ctx_inv_def)
  have "distinct (map snd (workers c))"
    using dist ctx_inv_process_inj [OF assms] by (intro distinct_snd_of_inj) auto
  moreover have "kInvalidProcess \<notin> set (map snd (workers c))"
  proof
    assume "kInvalidProcess \<in> set (map snd (workers c))"
    then obtain t where "(t, - 2) \<in> set (workers c)" by auto
    then have "map_of (workers c) t = Some (- 2)" using dist by simp
    with ctx_inv_worker_range [OF assms] show False by fastforce
  qed
  ultimately show ?thesis using assms by (auto simp: ctx_inv_def ctx_wf_def)
qed

lemma ctx_inv_client_count:
  assumes inv: "ctx_inv n c" and n: "0 \<le> n"
  shows "int (length (filter (\<lambda>(t, p). p \<noteq> kNemesisProcess) (workers c))) = n"
proof -
  let ?F = "filter (\<lambda>(t, p). p \<noteq> kNemesisProcess) (workers c)"
  have dist: "distinct (map fst (workers c))" using inv by (simp add: ctx_inv_def)
  have keys: "set (map fst ?F) = {0..<n}"
  proof (intro equalityI subsetI)
    fix t assume "t \<in> set (map fst ?F)"
    then obtain p where "(t, p) \<in> set (workers c)" "p \<noteq> kNemesisProcess" by auto
    then show "t \<in> {0..<n}"
      using ctx_inv_worker_range [OF inv map_of_distinct_memI [OF dist]] by fastforce
  next
    fix t assume t: "t \<in> {0..<n}"
    then have "t \<in> set (map fst (workers c))" using inv unfolding ctx_inv_def by auto
    then obtain p where p: "(t, p) \<in> set (workers c)" by auto
    then have "p \<noteq> kNemesisProcess"
      using ctx_inv_worker_range [OF inv map_of_distinct_memI [OF dist p]] t by auto
    with p show "t \<in> set (map fst ?F)" by force
  qed
  have "distinct (map fst ?F)" using dist by (rule distinct_map_filter)
  then have "length ?F = card {0..<n}"
    using keys distinct_card by (metis length_map)
  then show ?thesis using n by simp
qed

lemma nextProcess_inv:
  assumes "ctx_inv n c" and "0 \<le> n" and "t \<noteq> kNemesisProcess"
    and "map_of (workers c) t = Some p"
  shows "nextProcess c t = bind_res (add_i32 p n) (\<lambda>q. Inr (q, c))"
  using assms ctx_inv_client_count [OF assms(1,2)]
  by (simp add: nextProcess_def map_index_def Let_def)

lemma ctx_inv_assign_next:
  assumes inv: "ctx_inv n c" and "0 \<le> n" and t: "t \<noteq> kNemesisProcess"
    and p: "map_of (workers c) t = Some p"
  shows "ctx_inv n (c\<lparr>workers := AList.update t (p + n) (workers c)\<rparr>)"
proof -
  have tp: "t \<le> p" "p mod n = t" "0 \<le> t" "t < n"
    using ctx_inv_worker_range [OF inv p] t by auto
  then have "(p + n) mod n = t" "t \<le> p + n" by auto
  moreover have "t \<in> fst ` set (workers c)"
    using p by (force dest: map_of_SomeD)
  moreover have "t \<in> set (map fst (workers c))" using p by (metis dom_map_of_keys domI)
  ultimately show ?thesis
    using inv t by (auto simp: ctx_inv_def update_conv' dom_update AList.distinct_update
        insert_absorb split: if_splits)
qed

lemma ctx_inv_free:
  "ctx_inv n c \<Longrightarrow> ascending xs \<Longrightarrow> set xs \<subseteq> insert kNemesisProcess {0..<n} \<Longrightarrow>
     ctx_inv n (c\<lparr>free_threads := xs\<rparr>)"
  by (auto simp: ctx_inv_def)

lemma ctx_inv_time: "ctx_inv n c \<Longrightarrow> ctx_inv n (c\<lparr>ctx_time := x\<rparr>)"
  by (auto simp: ctx_inv_def)

end
