(* ===== verification/Generators.thy ===== *)
theory Generators
  imports Contexts
begin

text \<open>
  The generators (\<open>src/jepsen/generator/Generator.h\<close>, \<open>Generator.cpp\<close>,
  \<open>GeneratorFactory.h\<close>). A generator is asked for the next operation (\<open>op\<close>) and told
  about every dispatched and completed one (\<open>update\<close>); both return the generator to use
  from then on.

  \<^item> The class hierarchy is the datatype \<open>gen\<close>, a \<open>GeneratorPtr\<close> is \<open>gen option\<close>
    with \<open>None\<close> for the null pointer. \<open>BaseGenerator\<close> stands for the classes that
    inherit every method of \<open>Generator\<close> (\<open>FriendlyExceptions\<close>, \<open>Trace\<close>, \<open>Map\<close>,
    \<open>Filter\<close>, \<open>IgnoreUpdates\<close>, \<open>EachThread\<close>, \<open>Reserve\<close>).
  \<^item> \<open>TimeLimit::op\<close> and \<open>Stagger::op\<close> write a field of the object they are called on,
    and the runner may go on with that object instead of the returned generator. So \<open>op\<close>
    returns three things beside the draws left: the operation, the generator it returns,
    and the receiver after the call.
  \<^item> One call of \<open>generator::op\<close> is \<open>op_step\<close>, whose argument \<open>rec\<close> is the function
    that the nested calls run; \<open>gen_op n\<close> ties the knot with a call depth of \<open>n\<close>.
  \<^item> Generators are trees: two pointers of one generator never share an object. The code
    keeps this up (what it reuses, it takes from the receiver, which is dropped or is the
    one kept), so it is a condition on the generator the user hands in.
\<close>

section \<open>The class hierarchy\<close>

datatype gen_func =
    kWithCtx "ctx \<Rightarrow> rng \<Rightarrow> operation \<times> rng"
  | kBase "rng \<Rightarrow> operation \<times> rng"

datatype gen =
    BaseGenerator
  | OperationGenerator operation
  | FunctionGenerator gen_func
  | ListGenerator "gen option list"
  | Validate "gen option"
  | OnThreads "gen option" "int \<Rightarrow> bool"
  | TimeLimit int int "gen option"
  | Stagger int int "gen option"
  | Mix nat "gen option list"
  | Any "gen option list"

type_synonym gen_ptr = "gen option"

type_synonym op_result = "((operation \<times> gen_ptr) \<times> gen_ptr \<times> rng) res"

type_synonym op_fun = "gen_ptr \<Rightarrow> ctx \<Rightarrow> rng \<Rightarrow> op_result"

section \<open>Constructors and GeneratorFactory\<close>

text \<open>
  The three-argument constructor of \<open>Stagger\<close> initialises \<open>next_time\<close> with
  \<open>kInvalidTime\<close> whatever it is given; the two-argument one leaves it uninitialised
  (the argument \<open>junk\<close> is the indeterminate value).
\<close>

definition TimeLimit_ctor2 :: "int \<Rightarrow> gen_ptr \<Rightarrow> gen" where
  "TimeLimit_ctor2 limit g = TimeLimit limit kInvalidTime g"

definition TimeLimit_ctor3 :: "int \<Rightarrow> int \<Rightarrow> gen_ptr \<Rightarrow> gen" where
  "TimeLimit_ctor3 limit cutoff g = TimeLimit limit cutoff g"

definition Stagger_ctor3 :: "int \<Rightarrow> int \<Rightarrow> gen_ptr \<Rightarrow> gen" where
  "Stagger_ctor3 dt nextTime g = Stagger dt kInvalidTime g"

definition Stagger_ctor2 :: "int \<Rightarrow> int \<Rightarrow> gen_ptr \<Rightarrow> gen" where
  "Stagger_ctor2 junk dt g = Stagger dt junk g"

definition createNullptrGenerator :: gen_ptr where
  "createNullptrGenerator = None"

definition createGenerator_op :: "operation \<Rightarrow> gen_ptr" where
  "createGenerator_op o1 = Some (OperationGenerator o1)"

definition createGenerator_fun :: "gen_func \<Rightarrow> gen_ptr" where
  "createGenerator_fun f = Some (FunctionGenerator f)"

definition createGenerator_ops :: "operation list \<Rightarrow> gen_ptr" where
  "createGenerator_ops os = Some (ListGenerator (map createGenerator_op os))"

definition createGenerator_list :: "gen_ptr list \<Rightarrow> gen_ptr" where
  "createGenerator_list gs = Some (ListGenerator gs)"

definition createValidate :: "gen_ptr \<Rightarrow> gen_ptr" where
  "createValidate g = Some (Validate g)"

definition createOnThreads :: "gen_ptr \<Rightarrow> (int \<Rightarrow> bool) \<Rightarrow> gen_ptr" where
  "createOnThreads g f = Some (OnThreads g f)"

definition createTimeLimit2 :: "int \<Rightarrow> gen_ptr \<Rightarrow> gen_ptr" where
  "createTimeLimit2 dt g = Some (TimeLimit_ctor2 dt g)"

definition createTimeLimit3 :: "int \<Rightarrow> int \<Rightarrow> gen_ptr \<Rightarrow> gen_ptr" where
  "createTimeLimit3 dt cutoff g = Some (TimeLimit_ctor3 dt cutoff g)"

definition createStagger2 :: "int \<Rightarrow> int \<Rightarrow> gen_ptr \<Rightarrow> gen_ptr" where
  "createStagger2 junk dt g = Some (Stagger_ctor2 junk dt g)"

definition createStagger3 :: "int \<Rightarrow> int \<Rightarrow> gen_ptr \<Rightarrow> gen_ptr" where
  "createStagger3 dt next_time g = Some (Stagger_ctor3 dt next_time g)"

definition createMix :: "nat \<Rightarrow> gen_ptr list \<Rightarrow> gen_ptr" where
  "createMix idx gs = Some (Mix idx gs)"

definition createAny :: "gen_ptr list \<Rightarrow> gen_ptr" where
  "createAny gs = Some (Any gs)"

lemmas factory_defs =
  createNullptrGenerator_def createGenerator_op_def createGenerator_fun_def
  createGenerator_ops_def createGenerator_list_def createValidate_def createOnThreads_def
  createTimeLimit2_def createTimeLimit3_def createStagger2_def createStagger3_def
  createMix_def createAny_def TimeLimit_ctor2_def TimeLimit_ctor3_def
  Stagger_ctor3_def Stagger_ctor2_def

section \<open>Copies\<close>

text \<open>
  \<open>copyOne\<close> of every class. \<open>copy_ptrs\<close> is the loop of \<open>ListGenerator::copyOne\<close>,
  which keeps null pointers; \<open>copy_derefs\<close> is the loop of \<open>Mix\<close> and \<open>Any\<close>, which
  calls \<open>gen->copyOne()\<close> on each pointer. \<open>Mix::copyOne\<close> runs its loop and then hands
  the original pointers to the copy.
\<close>

fun copyOne :: "gen \<Rightarrow> gen_ptr res"
  and copy_ptrs :: "gen_ptr list \<Rightarrow> gen_ptr list res"
  and copy_derefs :: "gen_ptr list \<Rightarrow> gen_ptr list res"
where
  "copyOne BaseGenerator = Inr None"
| "copyOne (OperationGenerator o1) = Inr (Some (OperationGenerator o1))"
| "copyOne (FunctionGenerator f) = Inr (Some (FunctionGenerator f))"
| "copyOne (ListGenerator gs) =
     bind_res (copy_ptrs gs) (\<lambda>copy. Inr (Some (ListGenerator copy)))"
| "copyOne (Validate None) = Inr (createValidate None)"
| "copyOne (Validate (Some g)) = bind_res (copyOne g) (\<lambda>g2. Inr (createValidate g2))"
| "copyOne (OnThreads None f) = Inr (createOnThreads None f)"
| "copyOne (OnThreads (Some g) f) = bind_res (copyOne g) (\<lambda>g2. Inr (createOnThreads g2 f))"
| "copyOne (TimeLimit limit cutoff None) = Inr None"
| "copyOne (TimeLimit limit cutoff (Some g)) =
     bind_res (copyOne g) (\<lambda>g2. Inr (createTimeLimit3 limit cutoff g2))"
| "copyOne (Stagger dt next_time None) = Inr None"
| "copyOne (Stagger dt next_time (Some g)) =
     bind_res (copyOne g) (\<lambda>g2. Inr (createStagger3 dt next_time g2))"
| "copyOne (Mix idx gs) = bind_res (copy_derefs gs) (\<lambda>copy. Inr (createMix idx gs))"
| "copyOne (Any gs) = bind_res (copy_derefs gs) (\<lambda>copy. Inr (createAny copy))"
| "copy_ptrs [] = Inr []"
| "copy_ptrs (None # ps) = bind_res (copy_ptrs ps) (\<lambda>qs. Inr (None # qs))"
| "copy_ptrs (Some g # ps) =
     bind_res (copyOne g) (\<lambda>q. bind_res (copy_ptrs ps) (\<lambda>qs. Inr (q # qs)))"
| "copy_derefs [] = Inr []"
| "copy_derefs (None # ps) = Inl NullDeref"
| "copy_derefs (Some g # ps) =
     bind_res (copyOne g) (\<lambda>q. bind_res (copy_derefs ps) (\<lambda>qs. Inr (q # qs)))"

section \<open>Helpers of op\<close>

definition nil_op :: "operation \<times> gen_ptr" where
  "nil_op = (Operation_of_type kNil, None)"

definition notNil :: "operation \<Rightarrow> gen_ptr \<Rightarrow> bool" where
  "notNil o1 g \<longleftrightarrow> op_type o1 \<noteq> kNil \<and> g \<noteq> None"

definition fillInOperation :: "ctx \<Rightarrow> operation \<Rightarrow> rng \<Rightarrow> (operation \<times> rng) res" where
  "fillInOperation c o1 r =
     bind_res (randomFreeProcess c r) (\<lambda>(process, r').
       if process \<noteq> kInvalidProcess then
         let o2 = (if op_process o1 = kInvalidProcess
                   then o1\<lparr>op_process := process\<rparr> else o1);
             o3 = (if op_time o2 = 0 then o2\<lparr>op_time := ctx_time c\<rparr> else o2);
             o4 = (if op_type o3 = kInit then o3\<lparr>op_type := kInvoke\<rparr> else o3)
         in Inr (o4, r')
       else Inr (o1\<lparr>op_type := kPending\<rparr>, r'))"

text \<open>The same with the three conditional assignments as one record update.\<close>

definition filled :: "ctx \<Rightarrow> int \<Rightarrow> operation \<Rightarrow> operation" where
  "filled c p o1 =
     o1\<lparr>op_type := (if op_type o1 = kInit then kInvoke else op_type o1),
        op_time := (if op_time o1 = 0 then ctx_time c else op_time o1),
        op_process := (if op_process o1 = kInvalidProcess then p else op_process o1)\<rparr>"

lemma filled_simps [simp]:
  "op_type (filled c p o1) = (if op_type o1 = kInit then kInvoke else op_type o1)"
  "op_time (filled c p o1) = (if op_time o1 = 0 then ctx_time c else op_time o1)"
  "op_process (filled c p o1) = (if op_process o1 = kInvalidProcess then p else op_process o1)"
  "op_func (filled c p o1) = op_func o1"
  "op_info (filled c p o1) = op_info o1"
  "op_helper (filled c p o1) = op_helper o1"
  by (simp_all add: filled_def)

lemma fillInOperation_eq:
  "fillInOperation c o1 r =
     bind_res (randomFreeProcess c r) (\<lambda>(p, r').
       Inr (if p \<noteq> kInvalidProcess then filled c p o1 else o1\<lparr>op_type := kPending\<rparr>, r'))"
proof -
  have "(let o2 = (if op_process o1 = kInvalidProcess then o1\<lparr>op_process := p\<rparr> else o1);
             o3 = (if op_time o2 = 0 then o2\<lparr>op_time := ctx_time c\<rparr> else o2);
             o4 = (if op_type o3 = kInit then o3\<lparr>op_type := kInvoke\<rparr> else o3)
         in Inr (o4, r')) = (Inr (filled c p o1, r') :: (operation \<times> rng) res)" for p r'
    by (cases o1) (simp add: filled_def Let_def)
  then show ?thesis
    unfolding fillInOperation_def
    by (intro arg_cong [of _ _ "bind_res (randomFreeProcess c r)"]) (auto simp: fun_eq_iff)
qed

definition gen_func_apply :: "gen_func \<Rightarrow> ctx \<Rightarrow> rng \<Rightarrow> operation \<times> rng" where
  "gen_func_apply fn c r = (case fn of kBase f \<Rightarrow> f r | kWithCtx f \<Rightarrow> f c r)"

text \<open>
  \<open>soonestOpMap\<close> on triples of operation, weight and index. Of two operations with one
  time the draw picks, in proportion to the weights, and the winner takes the sum.
\<close>

definition soonestOpMap ::
  "operation \<times> nat \<times> int \<Rightarrow> operation \<times> nat \<times> int \<Rightarrow> rng
    \<Rightarrow> ((operation \<times> nat \<times> int) \<times> rng) res" where
  "soonestOpMap m1 m2 r =
     (let (op1, w1, idx1) = m1; (op2, w2, idx2) = m2 in
      if op_type op1 = kNil \<or> op_type op1 = kPending then Inr (m2, r)
      else if op_type op2 = kNil \<or> op_type op2 = kPending then Inr (m1, r)
      else if op_time op1 = op_time op2 then
        let w = w1 + w2 in
        bind_res (rand_mod w r) (\<lambda>(t, r').
          if t < w1 then Inr ((op1, w, idx1), r') else Inr ((op2, w, idx2), r'))
      else Inr (if op_time op1 < op_time op2 then m1 else m2, r))"

definition mix :: "gen_ptr list \<Rightarrow> rng \<Rightarrow> (gen_ptr \<times> rng) res" where
  "mix gs r = bind_res (rand_mod (length gs) r) (\<lambda>(idx, r'). Inr (createMix idx gs, r'))"

section \<open>The op of each class\<close>

definition op_operation :: "operation \<Rightarrow> ctx \<Rightarrow> rng \<Rightarrow> op_result" where
  "op_operation o1 c r =
     bind_res (fillInOperation c o1 r) (\<lambda>(ret_op, r').
       if op_type ret_op = kPending
       then Inr ((ret_op, createGenerator_op o1), Some (OperationGenerator o1), r')
       else Inr ((ret_op, None), Some (OperationGenerator o1), r'))"

definition op_function :: "op_fun \<Rightarrow> gen_func \<Rightarrow> ctx \<Rightarrow> rng \<Rightarrow> op_result" where
  "op_function rec fn c r =
     (let (ret_op, r1) = gen_func_apply fn c r in
      bind_res (copyOne (FunctionGenerator fn)) (\<lambda>copy.
        bind_res (rec (createGenerator_list [createGenerator_op ret_op, copy]) c r1)
          (\<lambda>(res, _, r2). Inr (res, Some (FunctionGenerator fn), r2))))"

definition op_list :: "op_fun \<Rightarrow> gen_ptr list \<Rightarrow> ctx \<Rightarrow> rng \<Rightarrow> op_result" where
  "op_list rec gs c r =
     (case gs of
        [] \<Rightarrow> bind_res (rec createNullptrGenerator c r)
                (\<lambda>(res, _, r'). Inr (res, Some (ListGenerator []), r'))
      | first_gen # rest \<Rightarrow>
          bind_res (rec first_gen c r) (\<lambda>((op2, gen2), first', r1).
            bind_res (copy_ptrs (first' # rest)) (\<lambda>copy.
              if gen2 = None \<and> op_type op2 = kNil then
                bind_res (rec (Some (ListGenerator (tl copy))) c r1)
                  (\<lambda>(res, _, r2). Inr (res, Some (ListGenerator (first' # rest)), r2))
              else if length copy > 1
              then Inr ((op2, Some (ListGenerator (gen2 # tl copy))),
                        Some (ListGenerator (first' # rest)), r1)
              else Inr ((op2, gen2), Some (ListGenerator (first' # rest)), r1))))"

text \<open>The messages \<open>Validate::op\<close> logs for an operation it lets through.\<close>

definition validate_problems :: "operation \<Rightarrow> string list" where
  "validate_problems op2 =
     (if op_type op2 = kPending then []
      else if op_type op2 \<noteq> kInvoke
      then ['':type should be :invoke, :info, :sleep, or :log''] else [])"

definition op_validate :: "op_fun \<Rightarrow> gen_ptr \<Rightarrow> ctx \<Rightarrow> rng \<Rightarrow> op_result" where
  "op_validate rec g c r =
     bind_res (rec g c r) (\<lambda>((op2, gen2), g', r').
       if gen2 \<noteq> None \<and> op_type op2 \<noteq> kNil
       then Inr ((op2, createValidate gen2), Some (Validate g'), r')
       else Inr ((op2, gen2), Some (Validate g'), r'))"

definition op_on_threads :: "op_fun \<Rightarrow> gen_ptr \<Rightarrow> (int \<Rightarrow> bool) \<Rightarrow> ctx \<Rightarrow> rng \<Rightarrow> op_result" where
  "op_on_threads rec g f c r =
     bind_res (rec g (onThreadsContext f c) r) (\<lambda>((op2, gen2), g', r').
       if notNil op2 gen2
       then Inr ((op2, createOnThreads gen2 f), Some (OnThreads g' f), r')
       else Inr (nil_op, Some (OnThreads g' f), r'))"

definition op_time_limit ::
  "op_fun \<Rightarrow> int \<Rightarrow> int \<Rightarrow> gen_ptr \<Rightarrow> ctx \<Rightarrow> rng \<Rightarrow> op_result" where
  "op_time_limit rec limit cutoff g c r =
     bind_res (rec g c r) (\<lambda>((op2, gen2), g', r').
       if notNil op2 gen2 then
         if op_type op2 = kPending
         then Inr ((op2, createTimeLimit3 limit cutoff gen2),
                   Some (TimeLimit limit cutoff g'), r')
         else
           bind_res (if cutoff = kInvalidTime then add_i64 (op_time op2) limit else Inr cutoff)
             (\<lambda>cutoff'.
               if op_time op2 < cutoff'
               then Inr ((op2, createTimeLimit3 limit cutoff' gen2),
                         Some (TimeLimit limit cutoff' g'), r')
               else Inr (nil_op, Some (TimeLimit limit cutoff' g'), r'))
       else Inr (nil_op, Some (TimeLimit limit cutoff g'), r'))"

definition op_stagger ::
  "op_fun \<Rightarrow> int \<Rightarrow> int \<Rightarrow> gen_ptr \<Rightarrow> ctx \<Rightarrow> rng \<Rightarrow> op_result" where
  "op_stagger rec dt next_time g c r =
     bind_res (rec g c r) (\<lambda>((op2, gen2), g', r1).
       if notNil op2 gen2 then
         let next_time' = (if next_time = kInvalidTime then ctx_time c else next_time) in
         if op_type op2 = kPending
         then Inr ((op2, Some (Stagger dt next_time' g')),
                   Some (Stagger dt next_time' g'), r1)
         else
           bind_res (rand_mod (nat \<bar>dt\<bar>) r1) (\<lambda>(x, r2).
             bind_res (add_i64 next_time' (int x)) (\<lambda>next.
               let next_gen = createStagger3 dt next gen2;
                   op3 = (if next_time' > op_time op2
                          then op2\<lparr>op_time := next_time'\<rparr> else op2)
               in Inr ((op3, next_gen), Some (Stagger dt next_time' g'), r2)))
       else Inr (nil_op, Some (Stagger dt next_time g'), r1))"

definition op_mix :: "op_fun \<Rightarrow> nat \<Rightarrow> gen_ptr list \<Rightarrow> ctx \<Rightarrow> rng \<Rightarrow> op_result" where
  "op_mix rec idx gs c r =
     (if gs = [] then Inr (nil_op, Some (Mix idx gs), r)
      else if length gs \<le> idx then Inl OutOfRange
      else
        bind_res (rec (gs ! idx) c r) (\<lambda>((op2, gen2), g', r1).
          let gs' = gs[idx := g'] in
          if notNil op2 gen2 then
            bind_res (copy_derefs gs') (\<lambda>copy.
              bind_res (mix (copy[idx := gen2]) r1) (\<lambda>(m, r2).
                Inr ((op2, m), Some (Mix idx gs'), r2)))
          else
            bind_res (copy_derefs (take idx gs' @ drop (Suc idx) gs')) (\<lambda>copy.
              bind_res (mix copy r1) (\<lambda>(m, r2).
                bind_res (rec m c r2) (\<lambda>(res, _, r3).
                  Inr (res, Some (Mix idx gs'), r3))))))"

text \<open>
  The loop of \<open>Any::op\<close> and its body. The accumulator is \<open>cur\<close>, the generator, operation and index
  of the candidate so far; the loop also collects the receivers after their calls.
\<close>

type_synonym any_acc = "(operation \<times> nat \<times> int) \<times> gen_ptr \<times> operation \<times> int"

definition any_step :: "nat \<Rightarrow> any_acc \<Rightarrow> operation \<Rightarrow> gen_ptr \<Rightarrow> rng \<Rightarrow> (any_acc \<times> rng) res" where
  "any_step i acc op2 gen2 r =
     (case acc of (cur, res_gen, res_op, res_idx) \<Rightarrow>
       if notNil op2 gen2 then
         bind_res (soonestOpMap cur (op2, 1, int i) r) (\<lambda>(cur', r').
           if snd (snd cur') = int i
           then Inr ((cur', gen2, op2, int i), r')
           else Inr ((cur', res_gen, res_op, res_idx), r'))
       else Inr ((cur, res_gen, res_op, res_idx), r))"

fun any_loop ::
  "op_fun \<Rightarrow> ctx \<Rightarrow> nat \<Rightarrow> gen_ptr list \<Rightarrow> any_acc \<Rightarrow> rng \<Rightarrow> (any_acc \<times> gen_ptr list \<times> rng) res"
where
  "any_loop rec c i [] acc r = Inr (acc, [], r)"
| "any_loop rec c i (g # gs) acc r =
     bind_res (rec g c r) (\<lambda>((op2, gen2), g', r1).
       bind_res (any_step i acc op2 gen2 r1) (\<lambda>(acc', r2).
         bind_res (any_loop rec c (Suc i) gs acc' r2) (\<lambda>(acc'', gs', r3).
           Inr (acc'', g' # gs', r3))))"

definition any_init :: any_acc where
  "any_init =
     ((Operation_of_type kNil, 1, - 1), None, Operation_of_type kNil, - 1)"

text \<open>\<open>Any::updateOne\<close>.\<close>

definition updateOne :: "gen_ptr list \<Rightarrow> int \<Rightarrow> gen_ptr \<Rightarrow> gen_ptr list" where
  "updateOne gs idx g = gs[nat idx := g]"

definition op_any :: "op_fun \<Rightarrow> gen_ptr list \<Rightarrow> ctx \<Rightarrow> rng \<Rightarrow> op_result" where
  "op_any rec gs c r =
     bind_res (any_loop rec c 0 gs any_init r)
       (\<lambda>((cur, res_gen, res_op, res_idx), gs', r').
         if notNil res_op res_gen then
           bind_res (copy_derefs gs') (\<lambda>copy.
             Inr ((res_op, createAny (updateOne copy res_idx res_gen)),
                  Some (Any gs'), r'))
         else Inr (nil_op, Some (Any gs'), r'))"

section \<open>Dispatch\<close>

fun op_step :: "op_fun \<Rightarrow> gen_ptr \<Rightarrow> ctx \<Rightarrow> rng \<Rightarrow> op_result" where
  "op_step rec None c r = Inr (nil_op, None, r)"
| "op_step rec (Some BaseGenerator) c r = Inr (nil_op, Some BaseGenerator, r)"
| "op_step rec (Some (OperationGenerator o1)) c r = op_operation o1 c r"
| "op_step rec (Some (FunctionGenerator fn)) c r = op_function rec fn c r"
| "op_step rec (Some (ListGenerator gs)) c r = op_list rec gs c r"
| "op_step rec (Some (Validate g)) c r = op_validate rec g c r"
| "op_step rec (Some (OnThreads g f)) c r = op_on_threads rec g f c r"
| "op_step rec (Some (TimeLimit limit cutoff g)) c r = op_time_limit rec limit cutoff g c r"
| "op_step rec (Some (Stagger dt next_time g)) c r = op_stagger rec dt next_time g c r"
| "op_step rec (Some (Mix idx gs)) c r = op_mix rec idx gs c r"
| "op_step rec (Some (Any gs)) c r = op_any rec gs c r"

fun gen_op :: "nat \<Rightarrow> op_fun" where
  "gen_op 0 g c r = Inl StackOverflow"
| "gen_op (Suc n) g c r = op_step (gen_op n) g c r"

section \<open>update\<close>

fun gen_update :: "gen_ptr \<Rightarrow> ctx \<Rightarrow> operation \<Rightarrow> gen_ptr res"
  and update_all :: "gen_ptr list \<Rightarrow> ctx \<Rightarrow> operation \<Rightarrow> gen_ptr list res"
where
  "gen_update None c e = Inr None"
| "gen_update (Some BaseGenerator) c e = Inr None"
| "gen_update (Some (OperationGenerator o1)) c e = copyOne (OperationGenerator o1)"
| "gen_update (Some (FunctionGenerator fn)) c e = copyOne (FunctionGenerator fn)"
| "gen_update (Some (ListGenerator [])) c e = Inr None"
| "gen_update (Some (ListGenerator (g # gs))) c e =
     bind_res (gen_update g c e) (\<lambda>upd.
       bind_res (copy_ptrs (g # gs)) (\<lambda>copy.
         Inr (Some (ListGenerator (upd # tl copy)))))"
| "gen_update (Some (Validate g)) c e =
     bind_res (gen_update g c e) (\<lambda>gen2. Inr (createValidate gen2))"
| "gen_update (Some (OnThreads g f)) c e =
     (if f (processToThread c (op_process e)) then
        bind_res (gen_update g (onThreadsContext f c) e) (\<lambda>gen2. Inr (createOnThreads gen2 f))
      else Inr (createOnThreads g f))"
| "gen_update (Some (TimeLimit limit cutoff g)) c e =
     bind_res (gen_update g c e) (\<lambda>gen2. Inr (createTimeLimit3 limit cutoff gen2))"
| "gen_update (Some (Stagger dt next_time g)) c e =
     bind_res (gen_update g c e) (\<lambda>gen2. Inr (createStagger3 dt next_time gen2))"
| "gen_update (Some (Mix idx gs)) c e = Inr (createMix idx gs)"
| "gen_update (Some (Any gs)) c e =
     bind_res (update_all gs c e) (\<lambda>copy. Inr (createAny copy))"
| "update_all [] c e = Inr []"
| "update_all (g # gs) c e =
     bind_res (gen_update g c e) (\<lambda>g2.
       bind_res (update_all gs c e) (\<lambda>gs2. Inr (g2 # gs2)))"

end
