(* ===== verification/Generator_Laws.thy ===== *)
theory Generator_Laws
  imports Generators
begin

text \<open>
  What every operation of the generators keeps. A property of single nodes of a generator
  tree that the code's reconstructions respect is the locale \<open>timed_nodes\<close>, \<open>gen_nodes\<close> when it
  does not depend on the time of the context; inside it,
  copies, \<open>update\<close> and \<open>op\<close> (at any call depth) are shown to keep the property at every
  node of the trees they return and leave behind, and the faults \<open>op\<close> can end with are
  bounded. Its instances are well-formedness (\<open>wf\<close>), a condition on the operations a
  generator can produce (\<open>raw\<close>), and both with functions that never answer nil
  (\<open>live\<close>).

  Beside it: the call depth \<open>gsize\<close> that is enough, and that a larger one changes
  nothing.
\<close>

section \<open>Conditions on every node\<close>

fun all_nodes :: "(gen \<Rightarrow> bool) \<Rightarrow> gen \<Rightarrow> bool"
  and all_ptr :: "(gen \<Rightarrow> bool) \<Rightarrow> gen_ptr \<Rightarrow> bool"
  and all_ptrs :: "(gen \<Rightarrow> bool) \<Rightarrow> gen_ptr list \<Rightarrow> bool"
where
  "all_nodes N BaseGenerator = N BaseGenerator"
| "all_nodes N (OperationGenerator o1) = N (OperationGenerator o1)"
| "all_nodes N (FunctionGenerator fn) = N (FunctionGenerator fn)"
| "all_nodes N (ListGenerator gs) = (N (ListGenerator gs) \<and> all_ptrs N gs)"
| "all_nodes N (Validate p) = (N (Validate p) \<and> all_ptr N p)"
| "all_nodes N (OnThreads p f) = (N (OnThreads p f) \<and> all_ptr N p)"
| "all_nodes N (TimeLimit l t p) = (N (TimeLimit l t p) \<and> all_ptr N p)"
| "all_nodes N (Stagger d t p) = (N (Stagger d t p) \<and> all_ptr N p)"
| "all_nodes N (Mix i gs) = (N (Mix i gs) \<and> all_ptrs N gs)"
| "all_nodes N (Any gs) = (N (Any gs) \<and> all_ptrs N gs)"
| "all_ptr N None = True"
| "all_ptr N (Some g) = all_nodes N g"
| "all_ptrs N [] = True"
| "all_ptrs N (p # ps) = (all_ptr N p \<and> all_ptrs N ps)"

lemma all_ptrs_iff: "all_ptrs N ps \<longleftrightarrow> (\<forall>p \<in> set ps. all_ptr N p)"
  by (induction ps) auto

lemma all_nodes_mono:
  "\<forall>g. N g \<longrightarrow> M g \<Longrightarrow> all_nodes N g \<Longrightarrow> all_nodes M g"
  "\<forall>g. N g \<longrightarrow> M g \<Longrightarrow> all_ptr N p \<Longrightarrow> all_ptr M p"
  "\<forall>g. N g \<longrightarrow> M g \<Longrightarrow> all_ptrs N ps \<Longrightarrow> all_ptrs M ps"
  by (induction N g and N p and N ps rule: all_nodes_all_ptr_all_ptrs.induct) auto

lemma all_nodes_root: "all_nodes N g \<Longrightarrow> N g"
  by (cases g) auto

text \<open>
  Well-formed: no node of an unimplemented class, no empty list, no null pointer below a
  node that calls \<open>copyOne\<close> on it, and the index of a \<open>Mix\<close> in range.
\<close>

fun wf_node :: "gen \<Rightarrow> bool" where
  "wf_node BaseGenerator = False"
| "wf_node (OperationGenerator o1) = True"
| "wf_node (FunctionGenerator fn) = True"
| "wf_node (ListGenerator gs) = (gs \<noteq> [])"
| "wf_node (Validate p) = (p \<noteq> None)"
| "wf_node (OnThreads p f) = (p \<noteq> None)"
| "wf_node (TimeLimit l t p) = (p \<noteq> None)"
| "wf_node (Stagger d t p) = (p \<noteq> None)"
| "wf_node (Mix i gs) = (i < length gs \<and> None \<notin> set gs)"
| "wf_node (Any gs) = (None \<notin> set gs)"

text \<open>The faults a well-formed generator can end with.\<close>

definition op_faults :: "fault set" where
  "op_faults = {StackOverflow, DivByZero, SignedOverflow}"

text \<open>
  The post-condition of one call of \<open>op\<close>, and what a class assumes of the calls it makes, in the
  contexts whose time satisfies \<open>U\<close>.
  The empty list is never well-formed; it only occurs as the argument of a call.
\<close>

definition op_good :: "(gen \<Rightarrow> bool) \<Rightarrow> gen_ptr \<Rightarrow> op_result \<Rightarrow> bool" where
  "op_good N p res \<longleftrightarrow>
     (case res of
        Inl e \<Rightarrow> e \<in> op_faults
      | Inr ((o2, g2), p', r') \<Rightarrow> all_ptr N g2 \<and> all_ptr N p' \<and> (p' = None \<longleftrightarrow> p = None))"

definition ctx_at :: "(int \<Rightarrow> bool) \<Rightarrow> ctx \<Rightarrow> bool" where
  "ctx_at U c \<longleftrightarrow> ctx_wf c \<and> U (ctx_time c)"

lemma ctx_at_wf: "ctx_at U c \<Longrightarrow> ctx_wf c"
  by (simp add: ctx_at_def)

lemma ctx_at_any [simp]: "ctx_at (\<lambda>_. True) c \<longleftrightarrow> ctx_wf c"
  by (simp add: ctx_at_def)

lemma ctx_at_onThreadsContext: "ctx_at U c \<Longrightarrow> ctx_at U (onThreadsContext f c)"
  by (simp add: ctx_at_def ctx_wf_onThreadsContext)

definition rec_good :: "(int \<Rightarrow> bool) \<Rightarrow> (gen \<Rightarrow> bool) \<Rightarrow> op_fun \<Rightarrow> bool" where
  "rec_good U N rec \<longleftrightarrow>
     (\<forall>p c r. ctx_at U c \<longrightarrow> all_ptr N p \<longrightarrow> op_good N p (rec p c r)) \<and>
     (\<forall>c r. rec (Some (ListGenerator [])) c r
        \<in> {Inl StackOverflow, Inr (nil_op, Some (ListGenerator []), r)})"

lemma op_good_Inl [simp]: "op_good N p (Inl e) \<longleftrightarrow> e \<in> op_faults"
  by (simp add: op_good_def)

lemma op_good_Inr [simp]:
  "op_good N p (Inr ((o2, g2), p', r')) \<longleftrightarrow>
     all_ptr N g2 \<and> all_ptr N p' \<and> (p' = None \<longleftrightarrow> p = None)"
  by (simp add: op_good_def)

lemma op_good_nil [simp]:
  "op_good N p (Inr (nil_op, p', r')) \<longleftrightarrow> all_ptr N p' \<and> (p' = None \<longleftrightarrow> p = None)"
  by (simp add: nil_op_def)

lemma op_faults_members [simp]:
  "StackOverflow \<in> op_faults" "DivByZero \<in> op_faults" "SignedOverflow \<in> op_faults"
  by (simp_all add: op_faults_def)

lemma rec_goodE:
  assumes "rec_good U N rec" and "ctx_at U c" and "all_ptr N p"
  obtains (fault) e where "rec p c r = Inl e" and "e \<in> op_faults"
  | (ok) o2 g2 p' r' where "rec p c r = Inr ((o2, g2), p', r')" and "all_ptr N g2"
      and "all_ptr N p'" and "p' = None \<longleftrightarrow> p = None"
proof -
  have "op_good N p (rec p c r)" using assms by (auto simp: rec_good_def)
  then show thesis
    using fault ok by (cases "rec p c r") (auto simp: op_good_def split: prod.splits)
qed

lemma soonestOpMap_total:
  obtains cur' r' where "soonestOpMap cur (o2, Suc 0, i) r = Inr (cur', r')"
  by (cases "soonestOpMap cur (o2, Suc 0, i) r")
    (auto simp: soonestOpMap_def rand_mod_def Let_def split: prod.splits if_splits)

lemma any_step_total:
  obtains acc' r' where "any_step i acc o2 g2 r = Inr (acc', r')"
    and "fst (snd acc') = fst (snd acc) \<or> fst (snd acc') = g2"
proof -
  obtain cur rg ro ri where acc: "acc = (cur, rg, ro, ri)" by (cases acc) auto
  obtain cur' r' where soon: "soonestOpMap cur (o2, Suc 0, int i) r = Inr (cur', r')"
    by (rule soonestOpMap_total)
  show thesis
  proof (cases "notNil o2 g2 \<and> snd (snd cur') = int i")
    case True
    then show thesis using that [of "(cur', g2, o2, int i)" r'] soon by (simp add: any_step_def acc)
  next
    case False
    then show thesis
      using that [of "(cur', rg, ro, ri)" r'] that [of "(cur, rg, ro, ri)" r] soon
      by (cases "notNil o2 g2") (simp_all add: any_step_def acc)
  qed
qed

lemma None_in_list_update:
  "i < length gs \<Longrightarrow> (p' = None \<longleftrightarrow> gs ! i = None) \<Longrightarrow> None \<notin> set gs \<Longrightarrow> None \<notin> set (gs[i := p'])"
  by (metis in_set_conv_nth length_list_update nth_list_update)

lemma all_ptrs_list_update:
  "all_ptrs N gs \<Longrightarrow> all_ptr N p \<Longrightarrow> all_ptrs N (gs[i := p])"
  by (auto simp: all_ptrs_iff dest: set_update_subset_insert [THEN subsetD])

lemma all_ptrs_subset: "all_ptrs N gs \<Longrightarrow> set hs \<subseteq> set gs \<Longrightarrow> all_ptrs N hs"
  by (auto simp: all_ptrs_iff)

lemma set_remove_nth: "set (take i xs @ drop (Suc i) xs) \<subseteq> set xs"
  by (auto dest: in_set_takeD in_set_dropD)

locale timed_nodes =
  fixes U :: "int \<Rightarrow> bool" and N :: "gen \<Rightarrow> bool"
  assumes n_wf: "N g \<Longrightarrow> wf_node g"
    and n_list: "N (ListGenerator gs) \<Longrightarrow> hs \<noteq> [] \<Longrightarrow> length hs \<le> length gs \<Longrightarrow> N (ListGenerator hs)"
    and n_validate: "N (Validate p) \<Longrightarrow> N (Validate (Some g))"
    and n_threads: "N (OnThreads p f) \<Longrightarrow> N (OnThreads (Some g) f)"
    and n_limit: "N (TimeLimit l t p) \<Longrightarrow> N (TimeLimit l t' (Some g))"
    and n_stagger: "N (Stagger d t p) \<Longrightarrow> t' \<in> {t, kInvalidTime} \<Longrightarrow> N (Stagger d t' (Some g))"
    and n_stagger_now: "N (Stagger d t p) \<Longrightarrow> U t' \<Longrightarrow> N (Stagger d t' (Some g))"
    and n_mix: "N (Mix i gs) \<Longrightarrow> j < length hs \<Longrightarrow> length hs \<le> length gs \<Longrightarrow> None \<notin> set hs
        \<Longrightarrow> N (Mix j hs)"
    and n_any: "N (Any gs) \<Longrightarrow> length hs = length gs \<Longrightarrow> None \<notin> set hs \<Longrightarrow> N (Any hs)"
    and n_call: "N (FunctionGenerator fn) \<Longrightarrow> N (OperationGenerator (fst (gen_func_apply fn c r)))"
    and n_call_list: "N (FunctionGenerator fn) \<Longrightarrow> hs \<noteq> [] \<Longrightarrow> length hs \<le> 2 \<Longrightarrow> N (ListGenerator hs)"
begin

lemma n_stagger_keep:
  "N (Stagger d t p) \<Longrightarrow> N (Stagger d t (Some g))" "N (Stagger d t p) \<Longrightarrow> N (Stagger d (- 3) (Some g))"
  using n_stagger [of d t p t g] n_stagger [of d t p kInvalidTime g] by simp_all

lemma copy_ok:
  "all_nodes N g \<Longrightarrow> \<exists>h. copyOne g = Inr (Some h) \<and> all_nodes N h"
  "all_ptrs N ps \<Longrightarrow> \<exists>hs. copy_ptrs ps = Inr hs \<and> all_ptrs N hs \<and> length hs = length ps"
  "all_ptrs N ps \<Longrightarrow> None \<notin> set ps \<Longrightarrow>
     \<exists>hs. copy_derefs ps = Inr hs \<and> all_ptrs N hs \<and> length hs = length ps \<and> None \<notin> set hs"
proof (induction g and ps and ps rule: copyOne_copy_ptrs_copy_derefs.induct)
  case 1
  then show ?case by (auto dest: n_wf)
next
  case (4 gs)
  then obtain hs where "copy_ptrs gs = Inr hs" "all_ptrs N hs" "length hs = length gs" by auto
  moreover have "N (ListGenerator gs)" "gs \<noteq> []" using 4 n_wf by fastforce+
  ultimately show ?case using n_list [of gs hs] by fastforce
next
  case (6 g)
  then show ?case by (auto simp: factory_defs intro: n_validate [of "Some g"])
next
  case (8 g f)
  then show ?case by (auto simp: factory_defs intro: n_threads [of "Some g"])
next
  case (10 l t g)
  then show ?case by (auto simp: factory_defs intro: n_limit [of l t "Some g"])
next
  case (12 d t g)
  then show ?case by (auto simp: factory_defs intro: n_stagger_keep [of d t "Some g"])
next
  case (13 idx gs)
  then have "None \<notin> set gs" using n_wf by fastforce
  then show ?case using 13 by (auto simp: createMix_def)
next
  case (14 gs)
  then have "None \<notin> set gs" using n_wf by fastforce
  then show ?case using 14 by (auto simp: createAny_def intro: n_any [of gs])
qed (auto simp: factory_defs dest: n_wf)

lemma update_ok:
  "all_ptr N p \<Longrightarrow> \<exists>q. gen_update p c e = Inr q \<and> all_ptr N q \<and> (q = None \<longleftrightarrow> p = None)"
  "all_ptrs N ps \<Longrightarrow> \<exists>qs. update_all ps c e = Inr qs \<and> all_ptrs N qs \<and>
     length qs = length ps \<and> (None \<in> set qs \<longleftrightarrow> None \<in> set ps)"
proof (induction p c e and ps c e rule: gen_update_update_all.induct)
  case (6 g gs c e)
  then obtain q where q: "gen_update g c e = Inr q" "all_ptr N q" by auto
  obtain x qs where qs: "copy_ptrs (g # gs) = Inr (x # qs)" "all_ptrs N qs" "length qs = length gs"
    using 6 copy_ok(2) [of "g # gs"] by (auto simp: length_Suc_conv)
  have "N (ListGenerator (q # qs))"
    using 6 qs by (auto intro: n_list [of "g # gs"])
  then show ?case using q qs by simp
next
  case (7 g c e)
  then obtain h where h: "g = Some h" using n_wf by fastforce
  then show ?case using 7 by (auto simp: createValidate_def intro: n_validate [of "Some h"])
next
  case (8 g f c e)
  then obtain h where h: "g = Some h" using n_wf by fastforce
  then have "N (OnThreads (Some k) f)" for k using 8 n_threads [of "Some h" f k] by simp
  then show ?case using 8 h by (auto simp: createOnThreads_def)
next
  case (9 l t g c e)
  then obtain h where h: "g = Some h" using n_wf by fastforce
  then show ?case using 9 by (auto simp: factory_defs intro: n_limit [of l t "Some h"])
next
  case (10 d t g c e)
  then obtain h where h: "g = Some h" using n_wf by fastforce
  then show ?case using 10 by (auto simp: factory_defs intro: n_stagger_keep [of d t "Some h"])
next
  case (12 gs c e)
  then have "None \<notin> set gs" using n_wf by fastforce
  then show ?case using 12 by (auto simp: createAny_def intro: n_any [of gs])
qed (auto simp: createMix_def dest: n_wf)

lemma op_operation_good:
  assumes "ctx_at U c" and "all_nodes N (OperationGenerator o1)"
  shows "op_good N (Some (OperationGenerator o1)) (op_operation o1 c r)"
proof (cases "free_threads c = []")
  case True
  then show ?thesis
    using assms(2)
    by (simp add: op_operation_def fillInOperation_eq randomFreeProcess_none factory_defs)
next
  case False
  with ctx_at_wf [OF assms(1)] obtain p where "randomFreeProcess c r = Inr (p, snd (draw r))"
    by (rule randomFreeProcess_some)
  then show ?thesis
    using assms(2) by (simp add: op_operation_def fillInOperation_eq factory_defs)
qed

lemma op_function_good:
  assumes "rec_good U N rec" and "ctx_at U c" and "all_nodes N (FunctionGenerator fn)"
  shows "op_good N (Some (FunctionGenerator fn)) (op_function rec fn c r)"
proof -
  obtain o1 r1 where f: "gen_func_apply fn c r = (o1, r1)" by force
  let ?list = "Some (ListGenerator [Some (OperationGenerator o1), Some (FunctionGenerator fn)])"
  have "all_ptr N ?list"
    using assms(3) n_call [of fn c r] n_call_list [of fn] f by auto
  with assms(1,2) show ?thesis
    by (cases rule: rec_goodE [where r = r1])
      (use assms(3) f in \<open>auto simp: op_function_def factory_defs Let_def\<close>)
qed

lemma op_validate_good:
  assumes "rec_good U N rec" and "ctx_at U c" and "all_nodes N (Validate p)"
  shows "op_good N (Some (Validate p)) (op_validate rec p c r)"
proof -
  have p: "all_ptr N p" "N (Validate p)" "p \<noteq> None"
    using assms(3) n_wf [of "Validate p"] by auto
  with n_validate [of p] have N: "N (Validate (Some g))" for g by blast
  from assms(1,2) p(1) show ?thesis
    by (cases rule: rec_goodE [where r = r])
      (use p N in \<open>auto simp: op_validate_def factory_defs\<close>)
qed

lemma op_on_threads_good:
  assumes "rec_good U N rec" and "ctx_at U c" and "all_nodes N (OnThreads p f)"
  shows "op_good N (Some (OnThreads p f)) (op_on_threads rec p f c r)"
proof -
  have p: "all_ptr N p" "N (OnThreads p f)" "p \<noteq> None"
    using assms(3) n_wf [of "OnThreads p f"] by auto
  with n_threads [of p f] have N: "N (OnThreads (Some g) f)" for g by blast
  from assms(1) ctx_at_onThreadsContext [OF assms(2), of f] p(1) show ?thesis
    by (cases rule: rec_goodE [where r = r])
      (use p N in \<open>auto simp: op_on_threads_def factory_defs notNil_def\<close>)
qed

lemma op_time_limit_good:
  assumes "rec_good U N rec" and "ctx_at U c" and "all_nodes N (TimeLimit l t p)"
  shows "op_good N (Some (TimeLimit l t p)) (op_time_limit rec l t p c r)"
proof -
  have p: "all_ptr N p" "N (TimeLimit l t p)" "p \<noteq> None"
    using assms(3) n_wf [of "TimeLimit l t p"] by auto
  with n_limit [of l t p] have N: "N (TimeLimit l u (Some g))" for u g by blast
  from assms(1,2) p(1) show ?thesis
    by (cases rule: rec_goodE [where r = r])
      (use p N in \<open>auto simp: op_time_limit_def factory_defs notNil_def add_i64_def\<close>)
qed

lemma op_stagger_good:
  assumes "rec_good U N rec" and "ctx_at U c" and "all_nodes N (Stagger d t p)"
  shows "op_good N (Some (Stagger d t p)) (op_stagger rec d t p c r)"
proof -
  have p: "all_ptr N p" "N (Stagger d t p)" "p \<noteq> None"
    using assms(3) n_wf [of "Stagger d t p"] by auto
  have N: "N (Stagger d u (Some g))" if "u \<in> {t, kInvalidTime, ctx_time c}" for u g
    using that n_stagger [OF p(2)] n_stagger_now [OF p(2)] assms(2) by (auto simp: ctx_at_def)
  from assms(1,2) p(1) show ?thesis
    by (cases rule: rec_goodE [where r = r])
      (use p N in \<open>auto simp: op_stagger_def factory_defs notNil_def add_i64_def rand_mod_def
        Let_def\<close>)
qed

lemma op_list_good:
  assumes "rec_good U N rec" and "ctx_at U c" and "all_nodes N (ListGenerator gs)"
  shows "op_good N (Some (ListGenerator gs)) (op_list rec gs c r)"
proof -
  obtain g rest where gs: "gs = g # rest"
    using assms(3) n_wf [of "ListGenerator gs"] by (cases gs) auto
  have g: "all_ptr N g" "all_ptrs N rest" "N (ListGenerator gs)" using assms(3) gs by auto
  have N: "N (ListGenerator hs)" if "hs \<noteq> []" "length hs \<le> length gs" for hs
    using n_list g(3) that by blast
  from assms(1,2) g(1) show ?thesis
  proof (cases rule: rec_goodE [where r = r])
    case (fault e)
    then show ?thesis by (simp add: op_list_def gs)
  next
    case (ok o2 g2 p' r')
    obtain x hs where copy: "copy_ptrs (p' # rest) = Inr (x # hs)" "all_ptrs N hs"
      "length hs = length rest"
      using copy_ok(2) [of "p' # rest"] ok(3) g(2) by (auto simp: length_Suc_conv)
    have self: "all_ptr N (Some (ListGenerator (p' # rest)))"
      using N [of "p' # rest"] ok(3) g(2) gs by simp
    have tail: "op_good N (Some (ListGenerator hs)) (rec (Some (ListGenerator hs)) c r'')
      \<or> rec (Some (ListGenerator hs)) c r''
        \<in> {Inl StackOverflow, Inr (nil_op, Some (ListGenerator []), r'')}" for r''
    proof (cases "hs = []")
      case True
      then show ?thesis using assms(1) by (simp add: rec_good_def)
    next
      case False
      then have "all_ptr N (Some (ListGenerator hs))"
        using N [of hs] copy gs by simp
      then show ?thesis using assms(1,2) by (simp add: rec_good_def)
    qed
    show ?thesis
    proof (cases "g2 = None \<and> op_type o2 = kNil")
      case True
      then show ?thesis
        using tail [of r'] ok(1) copy self
        by (cases "rec (Some (ListGenerator hs)) c r'")
          (auto simp: op_list_def gs nil_op_def simp del: all_ptrs.simps split: prod.splits)
    next
      case False
      have "all_ptr N (Some (ListGenerator (g2 # hs)))"
        using N [of "g2 # hs"] copy ok(2) gs by simp
      then show ?thesis
        using False ok copy self by (auto simp: op_list_def gs)
    qed
  qed
qed

lemma mix_good:
  assumes "N (Mix i gs)" and "all_ptrs N hs" and "length hs \<le> length gs" and "None \<notin> set hs"
  obtains (fault) "mix hs r = Inl DivByZero"
  | (ok) j r' where "mix hs r = Inr (Some (Mix j hs), r')" and "all_nodes N (Mix j hs)"
proof (cases "rand_mod (length hs) r")
  case (Inl e)
  then have "mix hs r = Inl DivByZero" by (auto simp: mix_def rand_mod_def split: if_splits)
  then show thesis by (rule fault)
next
  case (Inr x)
  obtain j r' where x: "x = (j, r')" by force
  then have "j < length hs" using Inr by (auto dest: rand_mod_less)
  then have "N (Mix j hs)" using n_mix assms by blast
  then show thesis using ok Inr x assms(2) by (auto simp: mix_def createMix_def)
qed

lemma op_mix_good:
  assumes "rec_good U N rec" and "ctx_at U c" and "all_nodes N (Mix i gs)"
  shows "op_good N (Some (Mix i gs)) (op_mix rec i gs c r)"
proof -
  have gs: "i < length gs" "None \<notin> set gs" "all_ptrs N gs" "N (Mix i gs)"
    using assms(3) n_wf [of "Mix i gs"] by auto
  then have "all_ptr N (gs ! i)" by (simp add: all_ptrs_iff)
  with assms(1,2) show ?thesis
  proof (cases rule: rec_goodE [where r = r])
    case (fault e)
    then show ?thesis using gs by (auto simp: op_mix_def)
  next
    case (ok o2 g2 p' r')
    let ?gs = "gs[i := p']"
    have gs': "all_ptrs N ?gs" "None \<notin> set ?gs"
      using all_ptrs_list_update [OF gs(3) ok(3)] None_in_list_update [OF gs(1) ok(4) gs(2)]
      by auto
    then have self: "all_nodes N (Mix i ?gs)"
      using gs n_mix [of i gs i ?gs] by simp
    show ?thesis
    proof (cases "notNil o2 g2")
      case True
      obtain hs where hs: "copy_derefs ?gs = Inr hs" "all_ptrs N hs" "length hs = length gs"
        "None \<notin> set hs"
        using copy_ok(3) [OF gs'] by auto
      have new: "all_ptrs N (hs[i := g2])" "None \<notin> set (hs[i := g2])"
        using hs ok(2) True by (auto simp: notNil_def all_ptrs_list_update
            dest: set_update_subset_insert [THEN subsetD])
      show ?thesis
        by (rule mix_good [OF gs(4) new(1) _ new(2), of r'])
          (use hs gs ok True self in \<open>auto simp: op_mix_def Let_def\<close>)
    next
      case False
      let ?os = "take i ?gs @ drop (Suc i) ?gs"
      have os: "all_ptrs N ?os" "None \<notin> set ?os"
        using all_ptrs_subset [OF gs'(1) set_remove_nth] gs'(2) set_remove_nth [of i ?gs] by blast+
      obtain hs where hs: "copy_derefs ?os = Inr hs" "all_ptrs N hs"
        "length hs = length ?os" "None \<notin> set hs"
        using copy_ok(3) [OF os] by auto
      have len: "length hs \<le> length gs" using hs(3) gs(1) by simp
      show ?thesis
      proof (rule mix_good [OF gs(4) hs(2) len hs(4), of r'])
        assume "mix hs r' = Inl DivByZero"
        then show ?thesis using hs gs ok False by (auto simp: op_mix_def Let_def)
      next
        fix j r2 assume m: "mix hs r' = Inr (Some (Mix j hs), r2)" "all_nodes N (Mix j hs)"
        then have "all_ptr N (Some (Mix j hs))" by simp
        with assms(1,2) show ?thesis
          by (cases rule: rec_goodE [where r = r2])
            (use hs gs ok False m self in \<open>auto simp: op_mix_def Let_def\<close>)
      qed
    qed
  qed
qed

lemma any_loop_good:
  assumes rec: "rec_good U N rec" and c: "ctx_at U c"
  shows "all_ptrs N gs \<Longrightarrow> all_ptr N (fst (snd acc)) \<Longrightarrow>
    (case any_loop rec c i gs acc r of
       Inl e \<Rightarrow> e \<in> op_faults
     | Inr (acc', gs', r') \<Rightarrow> all_ptr N (fst (snd acc')) \<and> all_ptrs N gs' \<and>
         length gs' = length gs \<and> (None \<in> set gs' \<longleftrightarrow> None \<in> set gs))"
proof (induction gs arbitrary: i acc r)
  case Nil
  then show ?case by simp
next
  case (Cons g gs)
  have "all_ptr N g" using Cons.prems by simp
  with rec c show ?case
  proof (cases rule: rec_goodE [where r = r])
    case (fault e)
    then show ?thesis by simp
  next
    case (ok o2 g2 p' r1)
    obtain acc' r2 where step: "any_step i acc o2 g2 r1 = Inr (acc', r2)"
      and acc': "fst (snd acc') = fst (snd acc) \<or> fst (snd acc') = g2"
      by (rule any_step_total)
    have "all_ptr N (fst (snd acc'))" using acc' Cons.prems ok by metis
    then show ?thesis
      using Cons.IH [of acc' "Suc i" r2] Cons.prems ok step
      by (cases "any_loop rec c (Suc i) gs acc' r2") auto
  qed
qed

lemma op_any_good:
  assumes "rec_good U N rec" and "ctx_at U c" and "all_nodes N (Any gs)"
  shows "op_good N (Some (Any gs)) (op_any rec gs c r)"
proof -
  have gs: "None \<notin> set gs" "all_ptrs N gs" "N (Any gs)"
    using assms(3) n_wf [of "Any gs"] by auto
  have post: "case any_loop rec c 0 gs any_init r of
       Inl e \<Rightarrow> e \<in> op_faults
     | Inr (acc', gs', r') \<Rightarrow> all_ptr N (fst (snd acc')) \<and> all_ptrs N gs' \<and>
         length gs' = length gs \<and> (None \<in> set gs' \<longleftrightarrow> None \<in> set gs)"
    using any_loop_good [OF assms(1,2) gs(2)] by (simp add: any_init_def)
  show ?thesis
  proof (cases "any_loop rec c 0 gs any_init r")
    case (Inl e)
    then show ?thesis using post by (simp add: op_any_def)
  next
    case (Inr x)
    obtain cur rg ro ri gs' r' where x: "x = ((cur, rg, ro, ri), gs', r')"
      by (cases x) auto
    have gs': "all_ptr N rg" "all_ptrs N gs'" "length gs' = length gs" "None \<notin> set gs'"
      using post Inr x gs by auto
    obtain hs where hs: "copy_derefs gs' = Inr hs" "all_ptrs N hs" "length hs = length gs'"
      "None \<notin> set hs"
      using copy_ok(3) [OF gs'(2,4)] by auto
    have self: "all_nodes N (Any gs')" using n_any gs' gs by simp
    have new: "all_nodes N (Any (updateOne hs ri rg))" if "rg \<noteq> None"
    proof -
      have "None \<notin> set (updateOne hs ri rg)"
        using hs(4) that by (auto simp: updateOne_def dest: set_update_subset_insert [THEN subsetD])
      then show ?thesis
        using n_any [OF gs(3), of "updateOne hs ri rg"] hs gs'
        by (auto simp: updateOne_def all_ptrs_list_update)
    qed
    show ?thesis
      using Inr x hs self new by (auto simp: op_any_def notNil_def createAny_def)
  qed
qed

lemma op_step_good:
  assumes "rec_good U N rec" and "ctx_at U c" and "all_ptr N p"
  shows "op_good N p (op_step rec p c r)"
proof (cases p)
  case None
  then show ?thesis by simp
next
  case (Some g)
  with assms show ?thesis
    by (cases g) (auto simp del: all_nodes.simps simp: op_operation_good op_function_good
        op_list_good op_validate_good op_on_threads_good op_time_limit_good op_stagger_good
        op_mix_good op_any_good dest: all_nodes_root n_wf)
qed

end

section \<open>Calls of any depth\<close>

lemma gen_op_empty_list:
  "gen_op n (Some (ListGenerator [])) c r
     \<in> {Inl StackOverflow, Inr (nil_op, Some (ListGenerator []), r)}"
proof (cases n)
  case 0
  then show ?thesis by simp
next
  case (Suc m)
  then show ?thesis by (cases m) (auto simp: op_list_def createNullptrGenerator_def)
qed

context timed_nodes
begin

lemma gen_op_rec_good: "rec_good U N (gen_op n)"
proof (induction n)
  case 0
  then show ?case by (simp add: rec_good_def)
next
  case (Suc n)
  then show ?case
    using op_step_good [OF Suc] gen_op_empty_list [of "Suc n"] by (auto simp: rec_good_def)
qed

lemma gen_op_good:
  "ctx_at U c \<Longrightarrow> all_ptr N p \<Longrightarrow> op_good N p (gen_op n p c r)"
  using gen_op_rec_good by (simp add: rec_good_def)

lemma gen_op_keeps:
  assumes "ctx_at U c" and "all_ptr N p" and "gen_op n p c r = Inr ((o2, g2), p', r')"
  shows "all_ptr N g2" and "all_ptr N p'" and "p' = None \<longleftrightarrow> p = None"
  using gen_op_good [OF assms(1,2), of n r] assms(3) by simp_all

lemma gen_op_fault:
  "ctx_at U c \<Longrightarrow> all_ptr N p \<Longrightarrow> gen_op n p c r = Inl e \<Longrightarrow> e \<in> op_faults"
  using gen_op_good [of c p n r] by simp

end

section \<open>At any time\<close>

text \<open>The same for conditions that do not depend on time.\<close>

locale gen_nodes =
  fixes N :: "gen \<Rightarrow> bool"
  assumes n_wf: "N g \<Longrightarrow> wf_node g"
    and n_list: "N (ListGenerator gs) \<Longrightarrow> hs \<noteq> [] \<Longrightarrow> length hs \<le> length gs \<Longrightarrow> N (ListGenerator hs)"
    and n_validate: "N (Validate p) \<Longrightarrow> N (Validate (Some g))"
    and n_threads: "N (OnThreads p f) \<Longrightarrow> N (OnThreads (Some g) f)"
    and n_limit: "N (TimeLimit l t p) \<Longrightarrow> N (TimeLimit l t' (Some g))"
    and n_stagger: "N (Stagger d t p) \<Longrightarrow> N (Stagger d t' (Some g))"
    and n_mix: "N (Mix i gs) \<Longrightarrow> j < length hs \<Longrightarrow> length hs \<le> length gs \<Longrightarrow> None \<notin> set hs
        \<Longrightarrow> N (Mix j hs)"
    and n_any: "N (Any gs) \<Longrightarrow> length hs = length gs \<Longrightarrow> None \<notin> set hs \<Longrightarrow> N (Any hs)"
    and n_call: "N (FunctionGenerator fn) \<Longrightarrow> N (OperationGenerator (fst (gen_func_apply fn c r)))"
    and n_call_list: "N (FunctionGenerator fn) \<Longrightarrow> hs \<noteq> [] \<Longrightarrow> length hs \<le> 2 \<Longrightarrow> N (ListGenerator hs)"

sublocale gen_nodes \<subseteq> timed: timed_nodes "\<lambda>_. True" N
  by unfold_locales
    (blast intro: n_wf n_list n_validate n_threads n_limit n_stagger n_mix n_any n_call n_call_list)+

context gen_nodes
begin

lemmas copy_ok = timed.copy_ok and update_ok = timed.update_ok and mix_good = timed.mix_good

lemma gen_op_good: "ctx_wf c \<Longrightarrow> all_ptr N p \<Longrightarrow> op_good N p (gen_op n p c r)"
  using timed.gen_op_good by simp

lemma gen_op_keeps:
  assumes "ctx_wf c" and "all_ptr N p" and "gen_op n p c r = Inr ((o2, g2), p', r')"
  shows "all_ptr N g2" and "all_ptr N p'" and "p' = None \<longleftrightarrow> p = None"
  using timed.gen_op_keeps [OF _ assms(2,3)] assms(1) by simp_all

lemma gen_op_fault:
  "ctx_wf c \<Longrightarrow> all_ptr N p \<Longrightarrow> gen_op n p c r = Inl e \<Longrightarrow> e \<in> op_faults"
  using timed.gen_op_fault by simp

end

section \<open>Instances\<close>

interpretation wf: gen_nodes wf_node
  by unfold_locales auto

text \<open>
  A condition \<open>P\<close> on every operation a generator holds and every operation its functions
  return.
\<close>

fun raw_node :: "(operation \<Rightarrow> bool) \<Rightarrow> gen \<Rightarrow> bool" where
  "raw_node P (OperationGenerator o1) = P o1"
| "raw_node P (FunctionGenerator fn) = (\<forall>c r. P (fst (gen_func_apply fn c r)))"
| "raw_node P g = wf_node g"

interpretation raw: gen_nodes "raw_node P" for P :: "operation \<Rightarrow> bool"
proof unfold_locales
  fix g assume "raw_node P g"
  then show "wf_node g" by (cases g) auto
qed auto

text \<open>No function of the generator answers with a nil operation.\<close>

fun live_node :: "gen \<Rightarrow> bool" where
  "live_node (FunctionGenerator fn) = (\<forall>c r. op_type (fst (gen_func_apply fn c r)) \<noteq> kNil)"
| "live_node g = wf_node g"

interpretation live: gen_nodes live_node
proof unfold_locales
  fix g assume "live_node g"
  then show "wf_node g" by (cases g) auto
qed auto

lemma live_node_wf: "live_node g \<Longrightarrow> wf_node g"
  by (rule live.n_wf)

lemma raw_node_mono: "(\<And>o1. P o1 \<Longrightarrow> Q o1) \<Longrightarrow> raw_node P g \<Longrightarrow> raw_node Q g"
  by (cases g) auto

end
