(* ===== verification/Generator_Depth.thy ===== *)
theory Generator_Depth
  imports Generator_Laws
begin

text \<open>
  How deep the calls of \<open>generator::op\<close> go. A function that answers with nil operations
  makes the code call itself without end; every other generator \<open>g\<close> is answered within
  \<open>gsize g\<close> nested calls, and a deeper stack changes nothing.
\<close>

section \<open>A bound on the depth\<close>

fun gsize :: "gen \<Rightarrow> nat"
  and psize :: "gen_ptr \<Rightarrow> nat"
  and pssize :: "gen_ptr list \<Rightarrow> nat"
where
  "gsize BaseGenerator = 1"
| "gsize (OperationGenerator o1) = 1"
| "gsize (FunctionGenerator fn) = 3"
| "gsize (ListGenerator gs) = Suc (Suc (pssize gs))"
| "gsize (Validate p) = Suc (psize p)"
| "gsize (OnThreads p f) = Suc (psize p)"
| "gsize (TimeLimit l t p) = Suc (psize p)"
| "gsize (Stagger d t p) = Suc (psize p)"
| "gsize (Mix i gs) = Suc (pssize gs)"
| "gsize (Any gs) = Suc (pssize gs)"
| "psize None = 1"
| "psize (Some g) = gsize g"
| "pssize [] = 0"
| "pssize (p # ps) = psize p + pssize ps"

lemma gsize_pos: "0 < gsize g"
  by (cases g) auto

lemma psize_pos: "0 < psize p"
  by (cases p) (auto simp: gsize_pos)

lemma psize_le_pssize: "p \<in> set ps \<Longrightarrow> psize p \<le> pssize ps"
  by (induction ps) auto

lemma pssize_append: "pssize (ps @ qs) = pssize ps + pssize qs"
  by (induction ps) auto

lemma pssize_remove_nth:
  "i < length ps \<Longrightarrow> pssize (take i ps @ drop (Suc i) ps) < pssize ps"
proof (induction ps arbitrary: i)
  case Nil
  then show ?case by simp
next
  case (Cons p ps)
  then show ?case by (cases i) (auto simp: psize_pos)
qed

lemma copy_size:
  "copyOne g = Inr q \<Longrightarrow> psize q \<le> gsize g"
  "copy_ptrs ps = Inr qs \<Longrightarrow> pssize qs \<le> pssize ps"
  "copy_derefs ps = Inr qs \<Longrightarrow> pssize qs \<le> pssize ps"
  by (induction g and ps and ps arbitrary: q and qs and qs
      rule: copyOne_copy_ptrs_copy_derefs.induct)
    (fastforce simp: res_simps factory_defs dest: add_mono)+

lemma copy_fault:
  "copyOne g = Inl e \<Longrightarrow> e = NullDeref"
  "copy_ptrs ps = Inl e \<Longrightarrow> e = NullDeref"
  "copy_derefs ps = Inl e \<Longrightarrow> e = NullDeref"
  by (induction g and ps and ps rule: copyOne_copy_ptrs_copy_derefs.induct)
    (auto simp: res_simps)

lemma copy_not_overflow [simp]:
  "copyOne g \<noteq> Inl StackOverflow"
  "copy_ptrs ps \<noteq> Inl StackOverflow"
  "copy_derefs ps \<noteq> Inl StackOverflow"
  using copy_fault by fastforce+

lemma fillInOperation_not_overflow [simp]: "fillInOperation c o1 r \<noteq> Inl StackOverflow"
  by (auto simp: fillInOperation_eq randomFreeProcess_def map_at_def res_simps Let_def
      split: prod.splits option.splits if_splits)

lemma mix_not_overflow [simp]: "mix gs r \<noteq> Inl StackOverflow"
  by (auto simp: mix_def res_simps split: prod.splits)

lemma copy_ptrs_Cons:
  "copy_ptrs (p # ps) = Inr qs \<Longrightarrow> \<exists>q qs'. qs = q # qs' \<and> copy_ptrs ps = Inr qs'"
  by (cases p) (auto simp: res_simps)

section \<open>Where an overflow comes from\<close>

lemma overflow_list:
  assumes "op_list rec (g # gs) c r = Inl StackOverflow"
  shows "rec g c r = Inl StackOverflow \<or>
    (\<exists>hs r'. copy_ptrs gs = Inr hs \<and> rec (Some (ListGenerator hs)) c r' = Inl StackOverflow)"
  using assms
  by (auto simp: op_list_def res_simps split: prod.splits if_splits dest!: copy_ptrs_Cons)

lemma overflow_wrapped:
  "op_validate rec p c r = Inl StackOverflow \<Longrightarrow> rec p c r = Inl StackOverflow"
  "op_on_threads rec p f c r = Inl StackOverflow \<Longrightarrow>
     rec p (onThreadsContext f c) r = Inl StackOverflow"
  "op_time_limit rec l t p c r = Inl StackOverflow \<Longrightarrow> rec p c r = Inl StackOverflow"
  "op_stagger rec d t p c r = Inl StackOverflow \<Longrightarrow> rec p c r = Inl StackOverflow"
  by (auto simp: op_validate_def op_on_threads_def op_time_limit_def op_stagger_def res_simps
      Let_def split: prod.splits if_splits)

lemma overflow_mix:
  assumes "op_mix rec i gs c r = Inl StackOverflow" and "i < length gs"
  shows "rec (gs ! i) c r = Inl StackOverflow \<or>
    (\<exists>hs j r'. copy_derefs (take i gs @ drop (Suc i) gs) = Inr hs \<and>
       rec (Some (Mix j hs)) c r' = Inl StackOverflow \<and> j < length hs)"
  using assms
  by (auto simp: op_mix_def mix_def createMix_def res_simps Let_def
      split: prod.splits if_splits dest!: rand_mod_less)

lemma overflow_any_loop:
  "any_loop rec c i gs acc r = Inl StackOverflow \<Longrightarrow>
     \<exists>g \<in> set gs. \<exists>r'. rec g c r' = Inl StackOverflow"
proof (induction gs arbitrary: i acc r)
  case Nil
  then show ?case by simp
next
  case (Cons g gs)
  show ?case
  proof (cases "rec g c r")
    case (Inl e)
    then show ?thesis using Cons.prems by auto
  next
    case (Inr x)
    obtain o2 g2 p' r1 where x: "x = ((o2, g2), p', r1)" by (cases x) auto
    obtain acc' r2 where "any_step i acc o2 g2 r1 = Inr (acc', r2)"
      by (rule any_step_total)
    then have "any_loop rec c (Suc i) gs acc' r2 = Inl StackOverflow"
      using Cons.prems Inr x by (auto simp: res_simps)
    then have "\<exists>g \<in> set gs. \<exists>r'. rec g c r' = Inl StackOverflow" by (rule Cons.IH)
    then show ?thesis by simp
  qed
qed

lemma overflow_any:
  assumes "op_any rec gs c r = Inl StackOverflow"
  shows "\<exists>g \<in> set gs. \<exists>r'. rec g c r' = Inl StackOverflow"
proof -
  have "any_loop rec c 0 gs any_init r = Inl StackOverflow"
  proof (cases "any_loop rec c 0 gs any_init r")
    case (Inl e)
    then show ?thesis using assms by (simp add: op_any_def)
  next
    case (Inr x)
    obtain cur rg ro ri gs' r' where x: "x = ((cur, rg, ro, ri), gs', r')" by (cases x) auto
    have "op_any rec gs c r \<noteq> Inl StackOverflow"
    proof (cases "copy_derefs gs'")
      case (Inl e)
      then have "e \<noteq> StackOverflow" by auto
      then show ?thesis using Inl \<open>any_loop rec c 0 gs any_init r = Inr x\<close>
        by (simp add: op_any_def x)
    next
      case (Inr y)
      then show ?thesis using \<open>any_loop rec c 0 gs any_init r = Inr x\<close>
        by (simp add: op_any_def x)
    qed
    then show ?thesis using assms by contradiction
  qed
  then show ?thesis by (rule overflow_any_loop)
qed

lemma op_operation_not_nil:
  "op_type o1 \<noteq> kNil \<Longrightarrow> op_operation o1 c r = Inr ((o2, g2), p', r') \<Longrightarrow> op_type o2 \<noteq> kNil"
  by (auto simp: op_operation_def fillInOperation_eq res_simps split: prod.splits if_splits)

lemma op_operation_not_overflow [simp]: "op_operation o1 c r \<noteq> Inl StackOverflow"
  by (auto simp: op_operation_def res_simps split: prod.splits if_splits)

lemma overflow_function:
  assumes "gen_op n (Some (FunctionGenerator fn)) c r = Inl StackOverflow"
    and "op_type (fst (gen_func_apply fn c r)) \<noteq> kNil"
  shows "n < 3"
proof (rule ccontr)
  assume "\<not> n < 3"
  then have "n = Suc (Suc (Suc (n - 3)))" by simp
  then obtain m where n: "n = Suc (Suc (Suc m))" by blast
  obtain o1 r1 where f: "gen_func_apply fn c r = (o1, r1)" by force
  show False
    using assms f
    by (auto simp: n op_function_def factory_defs op_list_def res_simps
        split: prod.splits if_splits dest: op_operation_not_nil)
qed

section \<open>Enough depth\<close>

lemma gen_op_empty_list_depth:
  "2 \<le> n \<Longrightarrow> gen_op n (Some (ListGenerator [])) c r \<noteq> Inl StackOverflow"
proof -
  assume "2 \<le> n"
  then obtain m where "n = Suc (Suc m)" by (metis add_2_eq_Suc le_Suc_ex)
  then show ?thesis by (simp add: op_list_def createNullptrGenerator_def)
qed

lemma gen_op_depth:
  "all_ptr live_node p \<Longrightarrow> psize p \<le> n \<Longrightarrow> gen_op n p c r \<noteq> Inl StackOverflow"
proof (induction n arbitrary: p c r)
  case 0
  then show ?case using psize_pos [of p] by simp
next
  case (Suc n)
  show ?case
  proof (cases p)
    case None
    then show ?thesis by simp
  next
    case (Some g)
    have live: "all_nodes live_node g" and size: "gsize g \<le> Suc n"
      using Suc.prems Some by auto
    show ?thesis
    proof
      assume over: "gen_op (Suc n) p c r = Inl StackOverflow"
      show False
      proof (cases g)
        case (FunctionGenerator fn)
        then show False
          using overflow_function [of "Suc n" fn c r] over live size Some by simp
      next
        case (ListGenerator gs)
        then obtain q qs where gs: "gs = q # qs"
          using live live.n_wf [of g] by (cases gs) auto
        have q: "gen_op n q c' r' \<noteq> Inl StackOverflow" for c' r'
          using Suc.IH live size ListGenerator gs by simp
        have tail: "gen_op n (Some (ListGenerator hs)) c' r' \<noteq> Inl StackOverflow"
          if copy: "copy_ptrs qs = Inr hs" for hs c' r'
        proof (cases "hs = []")
          case True
          then show ?thesis
            using gen_op_empty_list_depth [of n] size ListGenerator gs psize_pos [of q] by simp
        next
          case False
          then have "all_ptr live_node (Some (ListGenerator hs))"
            using live.copy_ok(2) [of qs] copy live ListGenerator gs by auto
          moreover have "psize (Some (ListGenerator hs)) \<le> n"
            using copy_size(2) [OF copy] size ListGenerator gs psize_pos [of q] by simp
          ultimately show ?thesis by (rule Suc.IH)
        qed
        show False
          using overflow_list [of "gen_op n" q qs c r] over q tail ListGenerator gs Some by auto
      next
        case (Mix i gs)
        then have i: "i < length gs" "None \<notin> set gs" "all_ptrs live_node gs"
          using live live.n_wf [of g] by auto
        have "all_ptr live_node (gs ! i)" "psize (gs ! i) \<le> n"
          using i size psize_le_pssize [of "gs ! i" gs] Mix by (auto simp: all_ptrs_iff)
        then have first: "gen_op n (gs ! i) c' r' \<noteq> Inl StackOverflow" for c' r'
          by (rule Suc.IH)
        let ?os = "take i gs @ drop (Suc i) gs"
        have os: "all_ptrs live_node ?os" "None \<notin> set ?os"
          using all_ptrs_subset [OF i(3) set_remove_nth] i(2) set_remove_nth [of i gs] by blast+
        have rest: "gen_op n (Some (Mix j hs)) c' r' \<noteq> Inl StackOverflow"
          if copy: "copy_derefs ?os = Inr hs" and j: "j < length hs" for hs j c' r'
        proof (rule Suc.IH)
          show "all_ptr live_node (Some (Mix j hs))"
            using live.copy_ok(3) [OF os] copy j by auto
          show "psize (Some (Mix j hs)) \<le> n"
            using copy_size(3) [OF copy] pssize_remove_nth [OF i(1)] size Mix by simp
        qed
        show False
          using overflow_mix [of "gen_op n" i gs c r] over first rest i Mix Some by auto
      next
        case (Any gs)
        have "gen_op n q c' r' \<noteq> Inl StackOverflow" if "q \<in> set gs" for q c' r'
          using Suc.IH that live size Any psize_le_pssize [OF that] by (auto simp: all_ptrs_iff)
        then show False
          using overflow_any [of "gen_op n" gs c r] over Any Some by auto
      qed (use Suc.IH over live size Some in \<open>auto dest!: overflow_wrapped\<close>)
    qed
  qed
qed

section \<open>A deeper stack changes nothing\<close>

text \<open>
  \<open>below m m'\<close>: \<open>m'\<close> is \<open>m\<close>, unless \<open>m\<close> ran out of stack. Every construct of the
  model is monotone in the calls it makes.
\<close>

definition below :: "'a res \<Rightarrow> 'a res \<Rightarrow> bool" where
  "below m m' \<longleftrightarrow> (m \<noteq> Inl StackOverflow \<longrightarrow> m' = m)"

definition extends :: "op_fun \<Rightarrow> op_fun \<Rightarrow> bool" where
  "extends rec rec' \<longleftrightarrow> (\<forall>p c r. below (rec p c r) (rec' p c r))"

named_theorems below_intros \<open>monotonicity in the nested calls\<close>

lemma below_refl [below_intros]: "below m m"
  by (simp add: below_def)

lemma below_bind [below_intros]:
  "below m m' \<Longrightarrow> (\<And>x. below (f x) (f' x)) \<Longrightarrow> below (bind_res m f) (bind_res m' f')"
  by (cases m) (auto simp: below_def)

lemma below_if [below_intros]:
  "below a a' \<Longrightarrow> below b b' \<Longrightarrow> below (if P then a else b) (if P then a' else b')"
  by simp

lemma below_prod [below_intros]:
  "(\<And>a b. below (f a b) (f' a b)) \<Longrightarrow> below (case_prod f x) (case_prod f' x)"
  by (simp split: prod.splits)

lemma below_prod_app [below_intros]:
  "(\<And>a b. below (f a b z) (f' a b z)) \<Longrightarrow> below (case_prod f x z) (case_prod f' x z)"
  by (simp split: prod.splits)

lemma below_list [below_intros]:
  "below a a' \<Longrightarrow> (\<And>x xs. below (f x xs) (f' x xs)) \<Longrightarrow>
     below (case_list a f ys) (case_list a' f' ys)"
  by (cases ys) auto

lemma extends_below: "extends rec rec' \<Longrightarrow> below (rec p c r) (rec' p c r)"
  by (simp add: extends_def)

lemma below_any_loop:
  assumes "extends rec rec'"
  shows "below (any_loop rec c i gs acc r) (any_loop rec' c i gs acc r)"
  by (induction gs arbitrary: i acc r) (auto intro!: below_intros extends_below [OF assms])

lemma below_op_step:
  assumes "extends rec rec'"
  shows "below (op_step rec p c r) (op_step rec' p c r)"
proof (cases p)
  case None
  then show ?thesis by (simp add: below_refl)
next
  case (Some g)
  then show ?thesis
    by (cases g)
      (auto simp: op_function_def op_list_def op_validate_def op_on_threads_def
        op_time_limit_def op_stagger_def op_mix_def op_any_def Let_def
        intro!: below_intros extends_below [OF assms] below_any_loop [OF assms])
qed

lemma gen_op_Suc: "gen_op (Suc n) = op_step (gen_op n)"
  by (simp add: fun_eq_iff)

lemma gen_op_extends_Suc: "extends (gen_op n) (gen_op (Suc n))"
proof (induction n)
  case 0
  then show ?case by (simp add: extends_def below_def)
next
  case (Suc n)
  then show ?case using below_op_step [OF Suc] 
    unfolding gen_op_Suc by (simp add: extends_def)
qed

lemma gen_op_mono:
  assumes "gen_op n p c r \<noteq> Inl StackOverflow" and "n \<le> m"
  shows "gen_op m p c r = gen_op n p c r"
  using assms(2,1)
proof (induction m rule: dec_induct)
  case base
  then show ?case by simp
next
  case (step m)
  then have "gen_op m p c r = gen_op n p c r" by simp
  then show ?case
    using gen_op_extends_Suc [of m] step.prems unfolding extends_def below_def by metis
qed

end
