(* ===== verification/Generator_Emission.thy ===== *)
theory Generator_Emission
  imports Generator_Depth
begin

text \<open>
  What the operations that come out of a generator satisfy. The locale \<open>timed_emission\<close> takes
  a condition \<open>N\<close> on the nodes of a generator, \<open>emission\<close> a condition \<open>P\<close> on its raw operations,
  and derives a condition \<open>E\<close> on every operation \<open>op\<close> returns, from how \<open>fillInOperation\<close>, the restriction to threads
  and the stagger delay treat an operation. Its instances are the addressing of operations
  to free processes, their type, their function and payload, and their time.
\<close>

section \<open>Calls that emit only such operations\<close>

definition emitted :: "(operation \<Rightarrow> bool) \<Rightarrow> op_result \<Rightarrow> bool" where
  "emitted E res \<longleftrightarrow> (case res of Inl e \<Rightarrow> True | Inr ((o2, g2), p', r') \<Rightarrow> E o2)"

lemma emitted_Inl [simp]: "emitted E (Inl e)"
  by (simp add: emitted_def)

lemma emitted_Inr [simp]: "emitted E (Inr ((o2, g2), p', r')) \<longleftrightarrow> E o2"
  by (simp add: emitted_def)

lemma emitted_nil_op [simp]: "emitted E (Inr (nil_op, p', r')) \<longleftrightarrow> E (Operation_of_type kNil)"
  by (simp add: nil_op_def)

lemma emitted_forward [simp]:
  "emitted E (bind_res m (\<lambda>(res, q, r'). Inr (res, f q r', h r'))) \<longleftrightarrow> emitted E m"
  by (cases m) (auto simp: emitted_def split: prod.splits)

definition emits ::
  "(int \<Rightarrow> bool) \<Rightarrow> (gen \<Rightarrow> bool) \<Rightarrow> (ctx \<Rightarrow> operation \<Rightarrow> bool) \<Rightarrow> op_fun \<Rightarrow> bool" where
  "emits U N E rec \<longleftrightarrow>
     (\<forall>p c r. ctx_at U c \<longrightarrow> all_ptr N p \<longrightarrow> emitted (E c) (rec p c r))"

text \<open>The outcome of a nested call, with what is known of it.\<close>

lemma emits_call:
  assumes "emits U N E rec" and "rec_good U N rec" and "ctx_at U c"
    and "all_ptr N p"
  obtains (fault) e where "rec p c r = Inl e"
  | (ok) o2 g2 p' r' where "rec p c r = Inr ((o2, g2), p', r')" and "E c o2"
      and "all_ptr N g2" and "all_ptr N p'" and "p' = None \<longleftrightarrow> p = None"
proof -
  have em: "emitted (E c) (rec p c r)" using assms unfolding emits_def by blast
  from assms(2-4) show thesis
  proof (cases rule: rec_goodE [where r = r])
    case (fault e)
    then show thesis by (intro that(1))
  next
    case (ok o2 g2 p' r')
    then show thesis using em by (intro that(2) [of o2 g2 p' r']) auto
  qed
qed

section \<open>From raw to emitted operations\<close>

locale timed_emission = timed_nodes U N for U N +
  fixes E :: "ctx \<Rightarrow> operation \<Rightarrow> bool"
  assumes e_fill: "ctx_at U c \<Longrightarrow> N (OperationGenerator o1) \<Longrightarrow> q \<in> free_procs c \<Longrightarrow> E c (filled c q o1)"
    and e_pending: "N (OperationGenerator o1) \<Longrightarrow> E c (o1\<lparr>op_type := kPending\<rparr>)"
    and e_nil: "E c (Operation_of_type kNil)"
    and e_stagger: "ctx_at U c \<Longrightarrow> N (Stagger d x p) \<Longrightarrow> E c o1 \<Longrightarrow>
      t = (if x = kInvalidTime then ctx_time c else x) \<Longrightarrow> op_time o1 < t \<Longrightarrow> E c (o1\<lparr>op_time := t\<rparr>)"
    and e_restrict: "ctx_at U c \<Longrightarrow> E (onThreadsContext f c) o1 \<Longrightarrow> E c o1"
begin

lemma emits_operation:
  assumes c: "ctx_at U c" and P: "N (OperationGenerator o1)"
  shows "emitted (E c) (op_operation o1 c r)"
proof (cases "free_threads c = []")
  case True
  then show ?thesis
    using e_pending [OF P]
    by (simp add: op_operation_def fillInOperation_eq randomFreeProcess_none)
next
  case False
  with ctx_at_wf [OF c] obtain p where "randomFreeProcess c r = Inr (p, snd (draw r))" "p \<in> free_procs c"
    "p \<noteq> kInvalidProcess"
    by (rule randomFreeProcess_some)
  then show ?thesis
    using e_fill [OF c P] by (simp add: op_operation_def fillInOperation_eq)
qed

lemma emits_validate:
  assumes "emits U N E rec" "rec_good U N rec" "ctx_at U c" "all_ptr N p"
  shows "emitted (E c) (op_validate rec p c r)"
  using assms by (cases rule: emits_call [where r = r]) (auto simp: op_validate_def)

lemma emits_on_threads:
  assumes "emits U N E rec" "rec_good U N rec" "ctx_at U c" "all_ptr N p"
  shows "emitted (E c) (op_on_threads rec p f c r)"
  using assms(1,2) ctx_at_onThreadsContext [OF assms(3), of f] assms(4)
proof (cases rule: emits_call [where r = r])
  case (ok o2 g2 p' r')
  then show ?thesis using e_restrict [OF assms(3) ok(2)] e_nil by (simp add: op_on_threads_def)
qed (simp add: op_on_threads_def)

lemma emits_time_limit:
  assumes "emits U N E rec" "rec_good U N rec" "ctx_at U c" "all_ptr N p"
  shows "emitted (E c) (op_time_limit rec l t p c r)"
  using assms e_nil
  by (cases rule: emits_call [where r = r]) (simp_all add: op_time_limit_def add_i64_def)

lemma emits_stagger:
  assumes "emits U N E rec" "rec_good U N rec" "ctx_at U c" "all_ptr N p"
    and stagger: "N (Stagger d t q)"
  shows "emitted (E c) (op_stagger rec d t p c r)"
  using assms(1-4)
proof (cases rule: emits_call [where r = r])
  case (ok o2 g2 p' r')
  then show ?thesis
    using e_stagger [OF assms(3) stagger ok(2) refl] e_nil
    by (auto simp: op_stagger_def add_i64_def rand_mod_def Let_def)
qed (simp add: op_stagger_def)

lemma emits_function:
  assumes "emits U N E rec" "rec_good U N rec" "ctx_at U c"
    and fn: "N (FunctionGenerator fn)"
  shows "emitted (E c) (op_function rec fn c r)"
proof -
  obtain o1 r1 where f: "gen_func_apply fn c r = (o1, r1)" by force
  then have "all_ptr N
    (Some (ListGenerator [Some (OperationGenerator o1), Some (FunctionGenerator fn)]))"
    using n_call [OF fn, of c r] n_call_list [OF fn] fn by simp
  from assms(1-3) this show ?thesis
    by (cases rule: emits_call [where r = r1])
      (auto simp: op_function_def f factory_defs Let_def)
qed

lemma emits_list:
  assumes rec: "emits U N E rec" "rec_good U N rec" "ctx_at U c"
    and list: "all_nodes N (ListGenerator (g # rest))"
  shows "emitted (E c) (op_list rec (g # rest) c r)"
proof -
  have g: "all_ptr N g" and gs: "all_ptrs N (g # rest)" using list by simp_all
  from rec g show ?thesis
  proof (cases rule: emits_call [where r = r])
    case (fault e)
    then show ?thesis by (simp add: op_list_def)
  next
    case (ok o2 g2 p' r')
    obtain x hs where copy: "copy_ptrs (p' # rest) = Inr (x # hs)" "all_ptrs N hs"
      "length hs = length rest"
      using copy_ok(2) [of "p' # rest"] ok(4) gs by (auto simp: length_Suc_conv)
    have tail: "emitted (E c) (rec (Some (ListGenerator hs)) c s)" for s
    proof (cases "hs = []")
      case True
      have "rec (Some (ListGenerator [])) c s
        \<in> {Inl StackOverflow, Inr (nil_op, Some (ListGenerator []), s)}"
        using rec(2) by (simp add: rec_good_def)
      then show ?thesis using True e_nil by auto
    next
      case False
      then have "all_ptr N (Some (ListGenerator hs))"
        using copy list n_list [of "g # rest" hs] by simp
      then show ?thesis using rec(1,3) unfolding emits_def by blast
    qed
    show ?thesis
      using tail [of r'] ok(1,2) copy(1) by (simp add: op_list_def)
  qed
qed

lemma emits_mix:
  assumes rec: "emits U N E rec" "rec_good U N rec" "ctx_at U c"
    and gs: "all_nodes N (Mix i gs)"
  shows "emitted (E c) (op_mix rec i gs c r)"
proof -
  have i: "i < length gs" "None \<notin> set gs" "all_ptrs N gs" "N (Mix i gs)"
    using gs n_wf [of "Mix i gs"] by auto
  then have g: "all_ptr N (gs ! i)" by (simp add: all_ptrs_iff)
  from rec g show ?thesis
  proof (cases rule: emits_call [where r = r])
    case (fault e)
    then show ?thesis using i by (auto simp: op_mix_def)
  next
    case (ok o2 g2 p' r')
    let ?gs = "gs[i := p']"
    let ?os = "take i ?gs @ drop (Suc i) ?gs"
    have gs': "all_ptrs N ?gs" "None \<notin> set ?gs"
      using all_ptrs_list_update [OF i(3) ok(4)] None_in_list_update [OF i(1) ok(5) i(2)] by auto
    have os: "all_ptrs N ?os" "None \<notin> set ?os"
      using all_ptrs_subset [OF gs'(1) set_remove_nth] gs'(2) set_remove_nth [of i ?gs] by blast+
    obtain hs where hs: "copy_derefs ?os = Inr hs" "all_ptrs N hs"
      "length hs = length ?os" "None \<notin> set hs"
      using copy_ok(3) [OF os] by auto
    have len: "length hs \<le> length gs" using hs(3) i(1) by simp
    show ?thesis
    proof (cases "notNil o2 g2")
      case True
      have "emitted (E c) (bind_res m (\<lambda>copy. bind_res (k copy) (\<lambda>(q, r2).
              Inr ((o2, q), s, r2))))" for m :: "gen_ptr list res" and k s
      proof (cases m)
        case (Inr x)
        then show ?thesis using ok(2) by (cases "k x") auto
      qed simp
      then show ?thesis using i ok(1) True by (auto simp: op_mix_def Let_def)
    next
      case False
      show ?thesis
      proof (rule mix_good [OF i(4) hs(2) len hs(4), of r'])
        assume "mix hs r' = Inl DivByZero"
        then show ?thesis using hs(1) i ok(1) False by (auto simp: op_mix_def Let_def)
      next
        fix j r2
        assume m: "mix hs r' = Inr (Some (Mix j hs), r2)" "all_nodes N (Mix j hs)"
        then have "all_ptr N (Some (Mix j hs))" by simp
        then have "emitted (E c) (rec (Some (Mix j hs)) c r2)"
          using rec(1,3) unfolding emits_def by blast
        then show ?thesis using hs(1) i ok(1) False m(1) by (auto simp: op_mix_def Let_def)
      qed
    qed
  qed
qed

lemma emits_any_loop:
  assumes rec: "emits U N E rec" "rec_good U N rec" "ctx_at U c"
  shows "all_ptrs N gs \<Longrightarrow> E c (fst (snd (snd acc))) \<Longrightarrow>
    (case any_loop rec c i gs acc r of
       Inl e \<Rightarrow> True | Inr (acc', gs', r') \<Rightarrow> E c (fst (snd (snd acc'))))"
proof (induction gs arbitrary: i acc r)
  case Nil
  then show ?case by simp
next
  case (Cons g gs)
  have g: "all_ptr N g" and gs: "all_ptrs N gs" using Cons.prems by auto
  from rec g show ?case
  proof (cases rule: emits_call [where r = r])
    case (fault e)
    then show ?thesis by simp
  next
    case (ok o2 g2 p' r1)
    obtain acc' r2 where step: "any_step i acc o2 g2 r1 = Inr (acc', r2)"
      by (rule any_step_total)
    have "fst (snd (snd acc')) \<in> {o2, fst (snd (snd acc))}"
      using step by (auto simp: any_step_def res_simps split: prod.splits if_splits)
    then have "E c (fst (snd (snd acc')))" using ok(2) Cons.prems by auto
    then have "case any_loop rec c (Suc i) gs acc' r2 of
        Inl e \<Rightarrow> True | Inr (acc', gs', r') \<Rightarrow> E c (fst (snd (snd acc')))"
      by (rule Cons.IH [OF gs])
    then show ?thesis
      using ok(1) step by (cases "any_loop rec c (Suc i) gs acc' r2") auto
  qed
qed

lemma emits_any:
  assumes rec: "emits U N E rec" "rec_good U N rec" "ctx_at U c"
    and gs: "all_ptrs N gs"
  shows "emitted (E c) (op_any rec gs c r)"
proof (cases "any_loop rec c 0 gs any_init r")
  case (Inl e)
  then show ?thesis by (simp add: op_any_def)
next
  case (Inr x)
  obtain cur rg ro ri gs' r' where x: "x = ((cur, rg, ro, ri), gs', r')" by (cases x) auto
  have "E c ro"
    using emits_any_loop [OF rec gs, of any_init 0 r] Inr x e_nil by (simp add: any_init_def)
  then show ?thesis
    using Inr x e_nil by (cases "copy_derefs gs'") (auto simp: op_any_def)
qed

lemma emits_op_step:
  assumes rec: "emits U N E rec" "rec_good U N rec" "ctx_at U c"
    and p: "all_ptr N p"
  shows "emitted (E c) (op_step rec p c r)"
proof (cases p)
  case None
  then show ?thesis using e_nil by simp
next
  case (Some g)
  show ?thesis
  proof (cases g)
    case (OperationGenerator o1)
    then show ?thesis using emits_operation [OF rec(3), of o1 r] p Some by simp
  next
    case (FunctionGenerator fn)
    then show ?thesis using emits_function [OF rec, of fn r] p Some by simp
  next
    case (ListGenerator gs)
    then obtain q qs where "gs = q # qs" using p Some n_wf [of g] by (cases gs) auto
    then show ?thesis using emits_list [OF rec, of q qs r] p Some ListGenerator by simp
  next
    case (Mix i gs)
    then show ?thesis using emits_mix [OF rec, of i gs r] p Some by simp
  next
    case (Any gs)
    then show ?thesis using emits_any [OF rec, of gs r] p Some by simp
  qed (use p Some rec in \<open>auto simp: emits_validate emits_on_threads emits_time_limit
    e_nil intro: emits_stagger\<close>)
qed

lemma gen_op_emits: "emits U N E (gen_op n)"
proof (induction n)
  case 0
  then show ?case by (simp add: emits_def)
next
  case (Suc n)
  then show ?case
    using emits_op_step [OF Suc gen_op_rec_good] by (simp add: emits_def)
qed

lemma gen_op_emitted:
  "ctx_at U c \<Longrightarrow> all_ptr N p \<Longrightarrow> gen_op n p c r = Inr ((o2, g2), p', r') \<Longrightarrow> E c o2"
  using gen_op_emits [of n] unfolding emits_def by (metis emitted_Inr)

end

text \<open>The same for conditions on raw operations that do not depend on time.\<close>

locale emission =
  fixes P :: "operation \<Rightarrow> bool" and E :: "ctx \<Rightarrow> operation \<Rightarrow> bool"
  assumes e_fill: "ctx_wf c \<Longrightarrow> P o1 \<Longrightarrow> p \<in> free_procs c \<Longrightarrow> E c (filled c p o1)"
    and e_pending: "P o1 \<Longrightarrow> E c (o1\<lparr>op_type := kPending\<rparr>)"
    and e_nil: "E c (Operation_of_type kNil)"
    and e_time: "E c o1 \<Longrightarrow> op_time o1 < t \<Longrightarrow> E c (o1\<lparr>op_time := t\<rparr>)"
    and e_restrict: "ctx_wf c \<Longrightarrow> E (onThreadsContext f c) o1 \<Longrightarrow> E c o1"

sublocale emission \<subseteq> timed: timed_emission "\<lambda>_. True" "raw_node P" E
  by unfold_locales (auto intro: e_fill e_pending e_nil e_time e_restrict)

context emission
begin

lemma gen_op_emitted:
  "ctx_wf c \<Longrightarrow> all_ptr (raw_node P) p \<Longrightarrow> gen_op n p c r = Inr ((o2, g2), p', r') \<Longrightarrow> E c o2"
  using timed.gen_op_emitted by simp

end

section \<open>Instances\<close>

text \<open>
  Addressing. A raw operation names no process, or one of the set \<open>Q\<close>; the operation that
  comes out goes to a free process of the context or to one of \<open>Q\<close>.
\<close>

definition is_real :: "operation \<Rightarrow> bool" where
  "is_real o1 \<longleftrightarrow> op_type o1 \<noteq> kNil \<and> op_type o1 \<noteq> kPending"

definition addressed :: "int set \<Rightarrow> ctx \<Rightarrow> operation \<Rightarrow> bool" where
  "addressed Q c o1 \<longleftrightarrow> is_real o1 \<longrightarrow> op_process o1 \<in> free_procs c \<union> Q"

interpretation addressing:
  emission "\<lambda>o1. op_process o1 \<in> insert kInvalidProcess Q" "addressed Q" for Q
  by unfold_locales
    (auto simp: addressed_def is_real_def Operation_of_type_def free_procs_onThreadsContext)

text \<open>Raw operations are fresh or invocations; what comes out is an invocation or no operation.\<close>

interpretation typing:
  emission "\<lambda>o1. op_type o1 \<in> {kInit, kInvoke}"
    "\<lambda>c o1. op_type o1 \<in> {kInvoke, kNil, kPending}"
  by unfold_locales (auto simp: Operation_of_type_def)

text \<open>The function and the payload of an operation are those of a raw operation.\<close>

interpretation payload:
  emission "\<lambda>o1. (op_func o1, op_info o1, op_helper o1) \<in> S"
    "\<lambda>c o1. is_real o1 \<longrightarrow> (op_func o1, op_info o1, op_helper o1) \<in> S" for S
  by unfold_locales (auto simp: is_real_def Operation_of_type_def)

text \<open>
  Raw operations without a time of their own are emitted at the time of asking, also through
  \<open>Stagger\<close>, unless one of the times it keeps is still to come.
\<close>

fun timely_node :: "int \<Rightarrow> gen \<Rightarrow> bool" where
  "timely_node t (OperationGenerator o1) = (op_time o1 = 0)"
| "timely_node t (FunctionGenerator fn) = (\<forall>c r. op_time (fst (gen_func_apply fn c r)) = 0)"
| "timely_node t (Stagger d x p) = (p \<noteq> None \<and> (x \<le> t \<or> x = kInvalidTime))"
| "timely_node t g = wf_node g"

lemma timely_node_wf: "timely_node t g \<Longrightarrow> wf_node g"
  by (cases g) auto

interpretation timely: timed_emission "\<lambda>x. x = t" "timely_node t"
    "\<lambda>c o1. is_real o1 \<longrightarrow> op_time o1 = ctx_time c" for t
  by unfold_locales (auto simp: timely_node_wf is_real_def Operation_of_type_def ctx_at_def)

lemma timely_node_mono: "timely_node t g \<Longrightarrow> t \<le> t' \<Longrightarrow> timely_node t' g"
  by (cases g) auto

text \<open>In any case they are emitted no earlier.\<close>

interpretation timing:
  emission "\<lambda>o1. op_time o1 = 0" "\<lambda>c o1. is_real o1 \<longrightarrow> ctx_time c \<le> op_time o1"
  by unfold_locales (auto simp: is_real_def Operation_of_type_def)

end
