(* ===== verification/Generator_Properties.thy ===== *)
theory Generator_Properties
  imports Generator_Emission
begin

text \<open>
  The properties of \<open>generator::op\<close> and \<open>generator::update\<close> that hold for every generator:
  which faults they can end with, how deep they call, where the operations that come out go,
  when, and what they carry.
\<close>

section \<open>A context and a generator to evaluate on\<close>

definition ctx3 :: ctx where
  "ctx3 = \<lparr>ctx_time = 50, free_threads = [- 1, 0, 1], workers = [(0, 2), (1, 1), (- 1, - 1)]\<rparr>"

definition read_op :: operation where
  "read_op = Operation_of ''read'' nullValue kInit"

lemmas eval_op =
  op_operation_def fillInOperation_eq randomFreeProcess_def map_at_def uniform_def filled_def
  factory_defs read_op_def Operation_of_def ctx3_def

lemma ctx3_wf: "ctx_wf ctx3"
  by (simp add: ctx3_def ctx_wf_def ascending_def)

section \<open>Faults and depth\<close>

text \<open>
  C19. Asking a well-formed generator in a well-formed context can fail in three ways only:
  the call depth runs out, a remainder by zero (an exhausted \<open>Mix\<close>, a stagger of 0), a signed
  overflow. No null pointer is dereferenced and no thread without a process looked up, and
  every generator that comes back, and the receiver, is well-formed again.
\<close>

theorem op_safe:
  assumes "ctx_wf c" and "all_ptr wf_node p"
  shows "case gen_op d p c r of
      Inl e \<Rightarrow> e \<in> {StackOverflow, DivByZero, SignedOverflow}
    | Inr ((o2, g2), p', r') \<Rightarrow> all_ptr wf_node g2 \<and> all_ptr wf_node p' \<and> (p' = None \<longleftrightarrow> p = None)"
  using wf.gen_op_good [OF assms, of d r]
  by (auto simp: op_good_def op_faults_def split: sum.splits prod.splits)

theorem op_safe_witness:
  "case gen_op 9 (Some (Stagger 0 7 (createGenerator_ops [read_op, read_op]))) ctx3 [] of
      Inl e \<Rightarrow> e \<in> {StackOverflow, DivByZero, SignedOverflow}
    | Inr ((o2, g2), p', r') \<Rightarrow> all_ptr wf_node g2 \<and> all_ptr wf_node p' \<and>
        (p' = None \<longleftrightarrow> Some (Stagger 0 7 (createGenerator_ops [read_op, read_op])) = None)"
  by (rule op_safe [OF ctx3_wf]) (simp add: factory_defs)

text \<open>
  Telling a well-formed generator about an event never fails and gives a well-formed
  generator.
\<close>

theorem update_total:
  assumes "all_ptr wf_node p"
  shows "\<exists>q. gen_update p c e = Inr q \<and> all_ptr wf_node q \<and> (q = None \<longleftrightarrow> p = None)"
  by (rule wf.update_ok(1) [OF assms])

theorem update_total_witness:
  "\<exists>q. gen_update (createAny [createGenerator_op read_op, createGenerator_ops [read_op]]) ctx3 read_op
       = Inr q \<and> all_ptr wf_node q \<and>
     (q = None \<longleftrightarrow> createAny [createGenerator_op read_op, createGenerator_ops [read_op]] = None)"
  by (rule update_total) (simp add: factory_defs)

text \<open>
  C23. A generator whose functions never answer with a nil operation is answered within a call
  depth bounded by its size, and any larger stack gives the same answer.
\<close>

theorem op_terminates:
  assumes "all_ptr live_node p" and "psize p \<le> n"
  shows "gen_op n p c r \<noteq> Inl StackOverflow \<and> (\<forall>m \<ge> n. gen_op m p c r = gen_op n p c r)"
  using gen_op_depth [OF assms] gen_op_mono by blast

theorem op_terminates_witness:
  "gen_op 6 (createMix 1 [createGenerator_op read_op, createGenerator_fun (kBase (\<lambda>r. (read_op, r)))])
       ctx3 [] \<noteq> Inl StackOverflow \<and>
     gen_op 900 (createMix 1 [createGenerator_op read_op,
          createGenerator_fun (kBase (\<lambda>r. (read_op, r)))]) ctx3 [] =
        gen_op 6 (createMix 1 [createGenerator_op read_op,
          createGenerator_fun (kBase (\<lambda>r. (read_op, r)))]) ctx3 []"
proof -
  let ?p = "createMix 1 [createGenerator_op read_op, createGenerator_fun (kBase (\<lambda>r. (read_op, r)))]"
  have "all_ptr live_node ?p" "psize ?p \<le> 6"
    by (simp_all add: factory_defs read_op_def Operation_of_def gen_func_apply_def)
  note ans = op_terminates [OF this, of ctx3 "[]"]
  have "(6 :: nat) \<le> 900" by simp
  with ans show ?thesis by blast
qed

lemma nil_filled:
  assumes "ctx_wf c" and "free_threads c \<noteq> []" and "op_type o1 = kNil"
  obtains o2 r' where "op_operation o1 c r = Inr ((o2, None), Some (OperationGenerator o1), r')"
    and "op_type o2 = kNil"
proof -
  obtain p where "randomFreeProcess c r = Inr (p, snd (draw r))" "p \<noteq> kInvalidProcess"
    using assms(1,2) by (rule randomFreeProcess_some)
  then show thesis
    using that [of "filled c p o1" "snd (draw r)"] assms(3)
    by (simp add: op_operation_def fillInOperation_eq)
qed

text \<open>
  C32. A function generator whose function answers with a nil operation, asked in a context with a
  free thread, is never answered: the code drops the nil and asks the function again, without end,
  whatever the stack. (The same answer ends a generator of the original. Without a free thread the
  question is answered with \<open>kPending\<close>.)
\<close>

theorem nil_function_diverges:
  assumes "ctx_wf c" and "free_threads c \<noteq> []"
    and nil: "\<And>r. op_type (fst (gen_func_apply fn c r)) = kNil"
  shows "gen_op n (createGenerator_fun fn) c r = Inl StackOverflow"
proof -
  let ?F = "Some (FunctionGenerator fn)"
  have single: "gen_op n (Some (ListGenerator [?F])) c r = Inl StackOverflow"
    if "\<And>m r. m < n \<Longrightarrow> gen_op m ?F c r = Inl StackOverflow" for n r
    using that by (cases n) (auto simp: op_list_def)
  have "gen_op n ?F c r = Inl StackOverflow"
  proof (induction n arbitrary: r rule: less_induct)
    case (less n)
    show ?case
    proof (cases n)
      case 0
      then show ?thesis by simp
    next
      case (Suc m)
      obtain o1 r1 where f: "gen_func_apply fn c r = (o1, r1)" by force
      have "gen_op m (Some (ListGenerator [Some (OperationGenerator o1), ?F])) c r1 = Inl StackOverflow"
      proof (cases m)
        case 0
        then show ?thesis by simp
      next
        case m: (Suc k)
        show ?thesis
        proof (cases k)
          case 0
          then show ?thesis using m by (simp add: op_list_def)
        next
          case k: (Suc j)
          have "op_type o1 = kNil" using nil [of r] f by simp
          then obtain o2 r2 where op: "op_operation o1 c r1 =
              Inr ((o2, None), Some (OperationGenerator o1), r2)" "op_type o2 = kNil"
            by (rule nil_filled [OF assms(1,2)])
          have "gen_op k (Some (ListGenerator [?F])) c r2 = Inl StackOverflow"
            using less.IH Suc m by (intro single) simp
          then show ?thesis using op m k by (simp add: op_list_def)
        qed
      qed
      then show ?thesis using f Suc by (simp add: op_function_def factory_defs Let_def)
    qed
  qed
  then show ?thesis by (simp add: createGenerator_fun_def)
qed

theorem nil_function_diverges_witness:
  "gen_op 1000 (createGenerator_fun (kBase (\<lambda>r. (Operation_of_type kNil, r)))) ctx3 [] =
     Inl StackOverflow"
  by (rule nil_function_diverges [OF ctx3_wf])
    (simp_all add: ctx3_def gen_func_apply_def Operation_of_type_def)

section \<open>What comes out\<close>

text \<open>
  C20. An operation that comes out of a generator goes to a process that is free in the context
  the generator was asked in, or to one that a raw operation of the generator names itself.
\<close>

theorem op_goes_to_free_process:
  assumes "ctx_wf c" and "all_ptr (raw_node (\<lambda>o1. op_process o1 \<in> insert kInvalidProcess Q)) p"
    and "gen_op d p c r = Inr ((o2, g2), p', r')"
    and "op_type o2 \<noteq> kNil" and "op_type o2 \<noteq> kPending"
  shows "op_process o2 \<in> free_procs c \<union> Q"
  using addressing.gen_op_emitted [OF assms(1-3)] assms(4,5)
  by (simp add: addressed_def is_real_def)

theorem op_goes_to_free_process_witness:
  "\<exists>o2 g2 p' r'. gen_op (Suc 0) (createGenerator_op read_op) ctx3 [2] = Inr ((o2, g2), p', r') \<and>
     op_process o2 \<in> free_procs ctx3 \<union> {}"
proof -
  have eq: "gen_op (Suc 0) (createGenerator_op read_op) ctx3 [2] =
      Inr ((read_op\<lparr>op_type := kInvoke, op_time := 50, op_process := 1\<rparr>, None),
        createGenerator_op read_op, [])"
    by (simp add: eval_op)
  show ?thesis
    by (intro exI, rule conjI, rule eq, rule op_goes_to_free_process [OF ctx3_wf _ eq])
      (simp_all add: factory_defs read_op_def Operation_of_def)
qed

text \<open>
  An operation that comes out of a generator whose raw operations carry no time is never
  earlier than the context it was asked in.
\<close>

theorem op_not_in_the_past:
  assumes "ctx_wf c" and "all_ptr (raw_node (\<lambda>o1. op_time o1 = 0)) p"
    and "gen_op d p c r = Inr ((o2, g2), p', r')"
    and "op_type o2 \<noteq> kNil" and "op_type o2 \<noteq> kPending"
  shows "ctx_time c \<le> op_time o2"
  using timing.gen_op_emitted [OF assms(1-3)] assms(4,5) by (simp add: is_real_def)

theorem op_not_in_the_past_witness:
  "\<exists>o2 g2 p' r'. gen_op (Suc 0) (createGenerator_op read_op) ctx3 [0] = Inr ((o2, g2), p', r') \<and>
     ctx_time ctx3 \<le> op_time o2"
proof -
  have eq: "gen_op (Suc 0) (createGenerator_op read_op) ctx3 [0] =
      Inr ((read_op\<lparr>op_type := kInvoke, op_time := 50, op_process := - 1\<rparr>, None),
        createGenerator_op read_op, [])"
    by (simp add: eval_op)
  show ?thesis
    by (intro exI, rule conjI, rule eq, rule op_not_in_the_past [OF ctx3_wf _ eq])
      (simp_all add: factory_defs read_op_def Operation_of_def)
qed

text \<open>
  A generator invents no operations: function and payload of what comes out are those of
  one of its raw operations, and the type is an invocation.
\<close>

theorem op_from_raw_operations:
  assumes "ctx_wf c"
    and "all_ptr (raw_node (\<lambda>o1. (op_func o1, op_info o1, op_helper o1) \<in> S)) p"
    and "all_ptr (raw_node (\<lambda>o1. op_type o1 \<in> {kInit, kInvoke})) p"
    and "gen_op d p c r = Inr ((o2, g2), p', r')"
    and "op_type o2 \<noteq> kNil" and "op_type o2 \<noteq> kPending"
  shows "op_type o2 = kInvoke \<and> (op_func o2, op_info o2, op_helper o2) \<in> S"
  using payload.gen_op_emitted [OF assms(1,2,4)] typing.gen_op_emitted [OF assms(1,3,4)] assms(5,6)
  by (auto simp: is_real_def)

theorem op_from_raw_operations_witness:
  "\<exists>o2 g2 p' r'. gen_op (Suc 0) (createGenerator_op read_op) ctx3 [1] = Inr ((o2, g2), p', r') \<and>
     op_type o2 = kInvoke \<and> (op_func o2, op_info o2, op_helper o2) \<in> {(''read'', nullValue, nullValue)}"
proof -
  have eq: "gen_op (Suc 0) (createGenerator_op read_op) ctx3 [1] =
      Inr ((read_op\<lparr>op_type := kInvoke, op_time := 50, op_process := 2\<rparr>, None),
        createGenerator_op read_op, [])"
    by (simp add: eval_op)
  show ?thesis
    by (intro exI, rule conjI, rule eq, rule op_from_raw_operations [OF ctx3_wf _ _ eq])
      (simp_all add: factory_defs read_op_def Operation_of_def)
qed

end
