(* ===== verification/Generator_Classes.thy ===== *)
theory Generator_Classes
  imports Generator_Properties
begin

text \<open>
  Lists of generators: a nested list of operations refines a queue, and what it emits is the
  operations in order, each once.
\<close>

lemma ctx3_free: "free_threads ctx3 \<noteq> []"
  by (simp add: ctx3_def)

section \<open>Lists of operations\<close>

fun ops_node :: "gen \<Rightarrow> bool" where
  "ops_node (OperationGenerator o1) = (op_type o1 \<in> {kInit, kInvoke})"
| "ops_node (ListGenerator gs) = True"
| "ops_node g = False"

text \<open>The abstract value of such a generator: the operations still to come.\<close>

fun gen_ops :: "gen \<Rightarrow> operation list"
  and ptr_ops :: "gen_ptr \<Rightarrow> operation list"
  and ptrs_ops :: "gen_ptr list \<Rightarrow> operation list"
where
  "gen_ops (OperationGenerator o1) = [o1]"
| "gen_ops (ListGenerator gs) = ptrs_ops gs"
| "gen_ops g = []"
| "ptr_ops None = []"
| "ptr_ops (Some g) = gen_ops g"
| "ptrs_ops [] = []"
| "ptrs_ops (p # ps) = ptr_ops p @ ptrs_ops ps"

lemma ops_copy:
  "all_nodes ops_node g \<Longrightarrow> copyOne g = Inr (Some g)"
  "all_ptrs ops_node ps \<Longrightarrow> copy_ptrs ps = Inr ps"
  "all_ptrs ops_node ps \<Longrightarrow> None \<notin> set ps \<Longrightarrow> copy_derefs ps = Inr ps"
  by (induction g and ps and ps rule: copyOne_copy_ptrs_copy_derefs.induct) auto

lemma ops_update:
  "all_ptr ops_node p \<Longrightarrow> \<exists>q. gen_update p c e = Inr q \<and> all_ptr ops_node q \<and>
     ptr_ops q = ptr_ops p \<and> psize q \<le> psize p"
  "all_ptrs ops_node ps \<Longrightarrow> True"
proof (induction p c e and ps c e rule: gen_update_update_all.induct)
  case (6 g gs c e)
  then obtain q where "gen_update g c e = Inr q" "all_ptr ops_node q" "ptr_ops q = ptr_ops g"
    "psize q \<le> psize g" by auto
  moreover have "copy_ptrs (g # gs) = Inr (g # gs)"
    using 6 by (intro ops_copy) simp
  ultimately show ?case using 6 by auto
qed auto

text \<open>The answer of such a generator, as an operation on the queue.\<close>

definition queue_answer :: "gen_ptr \<Rightarrow> ctx \<Rightarrow> rng \<Rightarrow> op_result \<Rightarrow> bool" where
  "queue_answer p c r res \<longleftrightarrow>
     (case ptr_ops p of
        [] \<Rightarrow> res = Inr (nil_op, p, r)
      | o1 # os \<Rightarrow>
          if free_threads c = [] then
            \<exists>g2. res = Inr ((o1\<lparr>op_type := kPending\<rparr>, g2), p, r) \<and> all_ptr ops_node g2 \<and>
              ptr_ops g2 = o1 # os \<and> psize g2 \<le> psize p
          else
            \<exists>g2 q. res = Inr ((filled c q o1, g2), p, snd (draw r)) \<and> q \<in> free_procs c \<and>
              q \<noteq> kInvalidProcess \<and> all_ptr ops_node g2 \<and> ptr_ops g2 = os \<and> psize g2 \<le> psize p)"

lemma queue_operation:
  assumes "ctx_wf c" and "op_type o1 \<in> {kInit, kInvoke}"
  shows "queue_answer (Some (OperationGenerator o1)) c r (op_operation o1 c r)"
proof (cases "free_threads c = []")
  case True
  then show ?thesis
    using assms(2)
    by (simp add: queue_answer_def op_operation_def fillInOperation_eq randomFreeProcess_none
        createGenerator_op_def)
next
  case False
  with assms(1) obtain q where "randomFreeProcess c r = Inr (q, snd (draw r))"
    "q \<in> free_procs c" "q \<noteq> kInvalidProcess"
    by (rule randomFreeProcess_some)
  then show ?thesis
    using assms(2) False
    by (auto simp: queue_answer_def op_operation_def fillInOperation_eq)
qed

lemma queue_answer_empty:
  "ptr_ops p = [] \<Longrightarrow> queue_answer p c r res \<longleftrightarrow> res = Inr (nil_op, p, r)"
  by (simp add: queue_answer_def)

lemma queue_answer_Cons:
  assumes "queue_answer p c r res" and "ptr_ops p = o1 # os" and "op_type o1 \<in> {kInit, kInvoke}"
  obtains o2 g2 r' where "res = Inr ((o2, g2), p, r')" and "op_type o2 \<noteq> kNil"
    and "all_ptr ops_node g2" and "psize g2 \<le> psize p"
    and "free_threads c = [] \<longrightarrow> o2 = o1\<lparr>op_type := kPending\<rparr> \<and> r' = r \<and> ptr_ops g2 = o1 # os"
    and "free_threads c \<noteq> [] \<longrightarrow> ptr_ops g2 = os \<and> r' = snd (draw r) \<and>
      (\<exists>q. o2 = filled c q o1 \<and> q \<in> free_procs c \<and> q \<noteq> kInvalidProcess)"
proof (cases "free_threads c = []")
  case True
  then obtain g2 where "res = Inr ((o1\<lparr>op_type := kPending\<rparr>, g2), p, r)" "all_ptr ops_node g2"
    "ptr_ops g2 = o1 # os" "psize g2 \<le> psize p"
    using assms by (auto simp: queue_answer_def)
  then show thesis using that [of "o1\<lparr>op_type := kPending\<rparr>" g2 r] True by simp
next
  case False
  then obtain g2 q where "res = Inr ((filled c q o1, g2), p, snd (draw r))" "q \<in> free_procs c"
    "q \<noteq> kInvalidProcess" "all_ptr ops_node g2" "ptr_ops g2 = os" "psize g2 \<le> psize p"
    using assms by (auto simp: queue_answer_def)
  moreover from this have "\<exists>q'. filled c q o1 = filled c q' o1 \<and> q' \<in> free_procs c \<and> q' \<noteq> kInvalidProcess"
    by blast
  ultimately show thesis
    using False assms(3) by (intro that [of "filled c q o1" g2 "snd (draw r)"]) auto
qed

lemma queue_list:
  assumes c: "ctx_wf c" and ops: "all_ptrs ops_node (g # rest)"
    and first: "\<And>r. queue_answer g c r (rec g c r)"
    and tail: "\<And>r. queue_answer (Some (ListGenerator rest)) c r (rec (Some (ListGenerator rest)) c r)"
    and types: "\<And>o1. o1 \<in> set (ptr_ops g) \<Longrightarrow> op_type o1 \<in> {kInit, kInvoke}"
  shows "queue_answer (Some (ListGenerator (g # rest))) c r (op_list rec (g # rest) c r)"
proof -
  have copy: "copy_ptrs (g # rest) = Inr (g # rest)" using ops by (intro ops_copy) simp
  show ?thesis
  proof (cases "ptr_ops g")
    case Nil
    then have "rec g c r = Inr (nil_op, g, r)" using first [of r] by (simp add: queue_answer_empty)
    then have "op_list rec (g # rest) c r =
        bind_res (rec (Some (ListGenerator rest)) c r)
          (\<lambda>(res, _, r2). Inr (res, Some (ListGenerator (g # rest)), r2))"
      using copy by (simp add: op_list_def nil_op_def Operation_of_type_def)
    then show ?thesis
      using tail [of r] Nil
      by (auto simp: queue_answer_def nil_op_def split: list.splits if_splits)
  next
    case (Cons o1 os)
    have "op_type o1 \<in> {kInit, kInvoke}" using types Cons by simp
    with first [of r] Cons obtain o2 g2 r' where ans: "rec g c r = Inr ((o2, g2), g, r')"
      "op_type o2 \<noteq> kNil" "all_ptr ops_node g2" "psize g2 \<le> psize g"
      "free_threads c = [] \<longrightarrow> o2 = o1\<lparr>op_type := kPending\<rparr> \<and> r' = r \<and> ptr_ops g2 = o1 # os"
      "free_threads c \<noteq> [] \<longrightarrow> ptr_ops g2 = os \<and> r' = snd (draw r) \<and>
        (\<exists>q. o2 = filled c q o1 \<and> q \<in> free_procs c \<and> q \<noteq> kInvalidProcess)"
      by (rule queue_answer_Cons)
    have rest: "all_ptrs ops_node rest" using ops by simp
    have eq: "op_list rec (g # rest) c r =
        Inr ((o2, if rest = [] then g2 else Some (ListGenerator (g2 # rest))),
             Some (ListGenerator (g # rest)), r')"
      using ans(1,2) copy by (simp add: op_list_def)
    show ?thesis
      using ans(3-6) rest Cons by (auto simp: eq queue_answer_def)
  qed
qed

lemma ops_types:
  "all_nodes ops_node g \<Longrightarrow> o1 \<in> set (gen_ops g) \<Longrightarrow> op_type o1 \<in> {kInit, kInvoke}"
  "all_ptr ops_node p \<Longrightarrow> o1 \<in> set (ptr_ops p) \<Longrightarrow> op_type o1 \<in> {kInit, kInvoke}"
  "all_ptrs ops_node ps \<Longrightarrow> o1 \<in> set (ptrs_ops ps) \<Longrightarrow> op_type o1 \<in> {kInit, kInvoke}"
  by (induction g and p and ps rule: gen_ops_ptr_ops_ptrs_ops.induct) auto

lemma queue_gen_op:
  "ctx_wf c \<Longrightarrow> all_ptr ops_node p \<Longrightarrow> psize p \<le> n \<Longrightarrow> queue_answer p c r (gen_op n p c r)"
proof (induction n arbitrary: p r)
  case 0
  then show ?case using psize_pos [of p] by simp
next
  case (Suc n)
  show ?case
  proof (cases p)
    case None
    then show ?thesis by (simp add: queue_answer_empty)
  next
    case (Some g)
    show ?thesis
    proof (cases g)
      case (OperationGenerator o1)
      then show ?thesis using queue_operation [OF Suc.prems(1), of o1 r] Suc.prems(2) Some by simp
    next
      case (ListGenerator gs)
      show ?thesis
      proof (cases gs)
        case Nil
        obtain m where "n = Suc m" using Suc.prems(3) Some ListGenerator Nil by (cases n) auto
        then show ?thesis
          using Some ListGenerator Nil
          by (simp add: queue_answer_empty op_list_def createNullptrGenerator_def nil_op_def)
      next
        case (Cons q qs)
        have ops: "all_ptrs ops_node (q # qs)" and size: "psize q \<le> n"
          "psize (Some (ListGenerator qs)) \<le> n"
          using Suc.prems Some ListGenerator Cons psize_pos [of q] by auto
        have "queue_answer (Some (ListGenerator (q # qs))) c r (op_list (gen_op n) (q # qs) c r)"
        proof (rule queue_list [OF Suc.prems(1) ops])
          show "queue_answer q c r (gen_op n q c r)" for r
            using Suc.IH [OF Suc.prems(1) _ size(1)] ops by simp
          show "queue_answer (Some (ListGenerator qs)) c r (gen_op n (Some (ListGenerator qs)) c r)" for r
            using Suc.IH [OF Suc.prems(1) _ size(2)] ops by simp
          show "op_type o1 \<in> {kInit, kInvoke}" if "o1 \<in> set (ptr_ops q)" for o1
            using ops_types(2) [of q o1] ops that by simp
        qed
        then show ?thesis using Some ListGenerator Cons by simp
      qed
    qed (use Suc.prems Some in auto)
  qed
qed

text \<open>
  C22. \<open>generator::op\<close> on a (nested) list of operations is the head of a queue: it answers nil
  when the queue is empty; when no thread is free it answers pending and the queue stays; else
  it answers with the first operation, addressed to a free process, and the rest of the queue
  remains.
\<close>

theorem list_op_refines_queue:
  assumes "ctx_wf c" and "all_ptr ops_node p" and "psize p \<le> n"
  shows "queue_answer p c r (gen_op n p c r)"
  by (rule queue_gen_op [OF assms])

theorem list_op_refines_queue_witness:
  "queue_answer (createGenerator_ops [read_op, read_op]) ctx3 [1]
     (gen_op 4 (createGenerator_ops [read_op, read_op]) ctx3 [1])"
  by (rule list_op_refines_queue [OF ctx3_wf])
    (simp_all add: factory_defs read_op_def Operation_of_def)

text \<open>The operations dispatched when the answers are adopted and updated one after the other.\<close>

fun emit_all :: "nat \<Rightarrow> gen_ptr \<Rightarrow> (ctx \<times> rng) list \<Rightarrow> operation list" where
  "emit_all n p [] = []"
| "emit_all n p ((c, r) # cs) =
     (case gen_op n p c r of
        Inl e \<Rightarrow> []
      | Inr ((o1, g2), p', r') \<Rightarrow>
          if op_type o1 = kInvoke then
            o1 # (case gen_update g2 c o1 of Inl e \<Rightarrow> [] | Inr g3 \<Rightarrow> emit_all n g3 cs)
          else [])"

text \<open>
  A list of operations is dispatched in order, each operation once, whatever free processes
  are drawn and whatever the times are, and after the last one nothing comes.
\<close>

theorem list_emits_in_order:
  assumes "all_ptr ops_node p" and "psize p \<le> n"
    and "\<And>c r. (c, r) \<in> set cs \<Longrightarrow> ctx_wf c \<and> free_threads c \<noteq> []"
  shows "map (\<lambda>o1. (op_func o1, op_info o1, op_helper o1)) (emit_all n p cs) =
    take (length cs) (map (\<lambda>o1. (op_func o1, op_info o1, op_helper o1)) (ptr_ops p))"
  using assms
proof (induction cs arbitrary: p)
  case Nil
  then show ?case by simp
next
  case (Cons x cs)
  obtain c r where x: "x = (c, r)" by force
  have c: "ctx_wf c" "free_threads c \<noteq> []" using Cons.prems(3) [of c r] x by simp_all
  have ans: "queue_answer p c r (gen_op n p c r)"
    using c(1) Cons.prems(1,2) by (rule queue_gen_op)
  show ?case
  proof (cases "ptr_ops p")
    case Nil
    then show ?thesis
      using ans x by (simp add: queue_answer_empty nil_op_def Operation_of_type_def)
  next
    case (Cons o1 os)
    have type: "op_type o1 \<in> {kInit, kInvoke}"
      using ops_types(2) [OF Cons.prems(1), of o1] Cons by simp
    obtain g2 q where g2: "gen_op n p c r = Inr ((filled c q o1, g2), p, snd (draw r))"
      "all_ptr ops_node g2" "ptr_ops g2 = os" "psize g2 \<le> psize p"
      using ans Cons c(2) by (auto simp: queue_answer_def)
    obtain g3 where g3: "gen_update g2 c (filled c q o1) = Inr g3" "all_ptr ops_node g3"
      "ptr_ops g3 = os" "psize g3 \<le> psize g2"
      using ops_update(1) [OF g2(2)] g2(3) by metis
    have "map (\<lambda>o1. (op_func o1, op_info o1, op_helper o1)) (emit_all n g3 cs) =
        take (length cs) (map (\<lambda>o1. (op_func o1, op_info o1, op_helper o1)) os)"
      using Cons.IH [OF g3(2)] g3(3,4) g2(4) Cons.prems(2,3) by fastforce
    then show ?thesis
      using g2(1) g3(1) type Cons x by auto
  qed
qed

theorem list_emits_in_order_witness:
  "map (\<lambda>o1. (op_func o1, op_info o1, op_helper o1))
       (emit_all 4 (createGenerator_ops [read_op, Operation_of ''cas'' nullValue kInvoke])
         [(ctx3, [0]), (ctx3, [1]), (ctx3, [2])]) =
     take (length [(ctx3, [0]), (ctx3, [1]), (ctx3, [2 :: nat])])
       (map (\<lambda>o1. (op_func o1, op_info o1, op_helper o1))
         (ptr_ops (createGenerator_ops [read_op, Operation_of ''cas'' nullValue kInvoke])))"
  by (rule list_emits_in_order)
    (auto simp: factory_defs read_op_def Operation_of_def ctx3_wf ctx3_free)

end
