(* ===== verification/Generator_Wrappers.thy ===== *)
theory Generator_Wrappers
  imports Generator_Classes
begin

text \<open>
  The generators that wrap others: what \<open>TimeLimit\<close>, \<open>Any\<close>, \<open>FunctionGenerator\<close> and \<open>OnThreads\<close>
  guarantee, and what the wrappers lose.
\<close>

section \<open>What the wrappers lose\<close>

text \<open>
  C34. The last operation of a finite generator is lost in every wrapper but \<open>Validate\<close>. An
  exhausted generator is the null pointer, and so is what \<open>op\<close> returns with the last
  operation; \<open>notNil\<close> takes the pair for the end, and the operation is dropped.
\<close>

theorem wrappers_drop_last:
  assumes "gen_op n g c r = Inr ((o1, None), g', r')"
  shows "gen_op (Suc n) (Some (TimeLimit l t g)) c r = Inr (nil_op, Some (TimeLimit l t g'), r') \<and>
    gen_op (Suc n) (Some (Stagger dt x g)) c r = Inr (nil_op, Some (Stagger dt x g'), r') \<and>
    gen_op (Suc n) (Some (Any [g])) c r = Inr (nil_op, Some (Any [g']), r') \<and>
    (c = onThreadsContext f c0 \<longrightarrow>
       gen_op (Suc n) (Some (OnThreads g f)) c0 r = Inr (nil_op, Some (OnThreads g' f), r'))"
  using assms
  by (auto simp: op_time_limit_def op_stagger_def op_any_def op_on_threads_def notNil_def
      any_step_def any_init_def)

lemma ask_read3:
  "gen_op (Suc 0) (createGenerator_op read_op) ctx3 [2] =
     Inr ((read_op\<lparr>op_type := kInvoke, op_time := 50, op_process := 1\<rparr>, None),
       createGenerator_op read_op, [])"
  by (simp add: eval_op)

theorem wrappers_drop_last_witness:
  "gen_op 2 (createTimeLimit2 1000 (createGenerator_op read_op)) ctx3 [2] =
     Inr (nil_op, createTimeLimit2 1000 (createGenerator_op read_op), [])"
  using wrappers_drop_last [OF ask_read3, of 1000 kInvalidTime]
  by (simp add: factory_defs numeral_2_eq_2)

text \<open>
  A \<open>Mix\<close> whose last generator is exhausted divides by zero: \<open>mix\<close> draws an index from the
  empty list of the remaining generators. This includes every \<open>Mix\<close> of a single operation,
  the first time it is asked.
\<close>

theorem mix_exhausted_traps:
  assumes "gen_op n g c r = Inr ((o1, None), g', r')"
  shows "gen_op (Suc n) (createMix 0 [g]) c r = Inl DivByZero"
  using assms by (simp add: createMix_def op_mix_def notNil_def mix_def rand_mod_def)

theorem mix_exhausted_traps_witness:
  "gen_op 2 (createMix 0 [createGenerator_op read_op]) ctx3 [2] = Inl DivByZero"
  using mix_exhausted_traps [OF ask_read3] by (simp add: numeral_2_eq_2)

text \<open>
  C35. \<open>Stagger\<close> keeps no schedule. The generator it returns with an operation was built by the
  constructor that ignores its \<open>nextTime\<close>: the delay that was drawn is forgotten, and the time
  of every operation that comes out is that of the wrapped generator, or the time of asking.
\<close>

theorem stagger_forgets_schedule:
  assumes ask: "gen_op n g c r = Inr ((o1, g2), g', r1)"
    and op: "op_type o1 \<noteq> kNil" "op_type o1 \<noteq> kPending" "g2 \<noteq> None"
    and res: "gen_op (Suc n) (createStagger3 dt next_time g) c r = Inr ((o2, g3), p', r2)"
  shows "op_time o2 = max (op_time o1) (ctx_time c) \<and> g3 = Some (Stagger dt kInvalidTime g2) \<and>
    gen_update g3 c0 e = bind_res (gen_update g2 c0 e) (\<lambda>h. Inr (Some (Stagger dt kInvalidTime h)))"
proof -
  have eq: "gen_op (Suc n) (createStagger3 dt next_time g) c r =
    bind_res (rand_mod (nat \<bar>dt\<bar>) r1) (\<lambda>(x, r2).
      bind_res (add_i64 (ctx_time c) (int x)) (\<lambda>next.
        Inr ((if ctx_time c > op_time o1 then o1\<lparr>op_time := ctx_time c\<rparr> else o1,
              Some (Stagger dt kInvalidTime g2)), Some (Stagger dt (ctx_time c) g'), r2)))"
    unfolding gen_op.simps(2) createStagger3_def Stagger_ctor3_def op_step.simps op_stagger_def
      ask bind_res_Inr prod.case
    using op by (simp add: notNil_def Let_def)
  show ?thesis
  proof (cases "rand_mod (nat \<bar>dt\<bar>) r1")
    case (Inl e)
    then show ?thesis using res unfolding eq by simp
  next
    case (Inr y)
    obtain x r3 where y: "y = (x, r3)" by (cases y)
    define o3 where "o3 = (if ctx_time c > op_time o1 then o1\<lparr>op_time := ctx_time c\<rparr> else o1)"
    have time: "op_time o3 = max (op_time o1) (ctx_time c)" by (simp add: o3_def)
    have "in_i64 (ctx_time c + int x)"
      using res Inr y unfolding eq by (cases "in_i64 (ctx_time c + int x)") (simp_all add: add_i64_def)
    then have "((o3, Some (Stagger dt kInvalidTime g2)), Some (Stagger dt (ctx_time c) g'), r3) =
        ((o2, g3), p', r2)"
      using res Inr y unfolding eq o3_def [symmetric] by (simp add: add_i64_def)
    then have o2: "o2 = o3" and g3: "g3 = Some (Stagger dt kInvalidTime g2)" by auto
    show ?thesis
      unfolding o2 g3 using time by (simp add: createStagger3_def Stagger_ctor3_def)
  qed
qed

lemma ask_reads3:
  "gen_op 3 (createGenerator_ops [read_op, read_op]) ctx3 [2, 7] =
     Inr ((read_op\<lparr>op_type := kInvoke, op_time := 50, op_process := 1\<rparr>,
         createGenerator_list [None, createGenerator_op read_op]),
       createGenerator_ops [read_op, read_op], [7])"
proof -
  have first: "gen_op (Suc (Suc 0)) (createGenerator_op read_op) ctx3 [2, 7] =
      Inr ((read_op\<lparr>op_type := kInvoke, op_time := 50, op_process := 1\<rparr>, None),
        createGenerator_op read_op, [7])"
    by (simp add: eval_op)
  have copy: "copy_ptrs [createGenerator_op read_op, createGenerator_op read_op] =
      Inr [createGenerator_op read_op, createGenerator_op read_op]"
    by (simp add: createGenerator_op_def)
  show ?thesis
    unfolding createGenerator_ops_def list.map numeral_3_eq_3 gen_op.simps(2) [of "Suc (Suc 0)"]
      op_step.simps op_list_def list.case first bind_res_Inr prod.case copy
    by (simp add: createGenerator_list_def)
qed

lemma stagger_reads3:
  "gen_op (Suc 3) (createStagger3 10 500 (createGenerator_ops [read_op, read_op])) ctx3 [2, 7] =
     Inr ((read_op\<lparr>op_type := kInvoke, op_time := 50, op_process := 1\<rparr>,
         Some (Stagger 10 kInvalidTime (createGenerator_list [None, createGenerator_op read_op]))),
       Some (Stagger 10 50 (createGenerator_ops [read_op, read_op])), [])"
proof -
  have time: "ctx_time ctx3 = 50" by (simp add: ctx3_def)
  show ?thesis
    unfolding gen_op.simps(2) createStagger3_def Stagger_ctor3_def op_step.simps op_stagger_def
      ask_reads3 bind_res_Inr prod.case
    by (simp add: time notNil_def createGenerator_list_def rand_mod_def rand_def RAND_MAX_def
        add_i64_def in_i64_def Let_def createStagger3_def Stagger_ctor3_def)
qed

theorem stagger_forgets_schedule_witness:
  "op_time (read_op\<lparr>op_type := kInvoke, op_time := 50, op_process := 1\<rparr>) = max 50 (ctx_time ctx3)"
  using stagger_forgets_schedule [OF ask_reads3 _ _ _ stagger_reads3]
  by (simp add: createGenerator_list_def)

section \<open>Functions\<close>

text \<open>The steps of the calls, over any function for the nested ones.\<close>

lemma op_list_skip_null:
  assumes "rec None c r = Inr (nil_op, None, r)"
  shows "op_list rec [None, Some (FunctionGenerator fn)] c r =
    bind_res (rec (Some (ListGenerator [Some (FunctionGenerator fn)])) c r)
      (\<lambda>(res, _, r2). Inr (res, Some (ListGenerator [None, Some (FunctionGenerator fn)]), r2))"
  using assms by (simp add: op_list_def nil_op_def Operation_of_type_def)

lemma op_list_single:
  assumes "rec (Some (FunctionGenerator fn)) c r =
      Inr ((o2, g2), Some (FunctionGenerator fn), r')" and "op_type o2 \<noteq> kNil"
  shows "op_list rec [Some (FunctionGenerator fn)] c r =
    Inr ((o2, g2), Some (ListGenerator [Some (FunctionGenerator fn)]), r')"
  using assms by (simp add: op_list_def)

lemma op_list_head:
  assumes "rec (Some (OperationGenerator o1)) c r =
      Inr ((o2, None), Some (OperationGenerator o1), r')" and "op_type o2 \<noteq> kNil"
  shows "op_list rec [Some (OperationGenerator o1), Some (FunctionGenerator fn)] c r =
    Inr ((o2, Some (ListGenerator [None, Some (FunctionGenerator fn)])),
         Some (ListGenerator [Some (OperationGenerator o1), Some (FunctionGenerator fn)]), r')"
  using assms by (simp add: op_list_def)

lemma ask_function:
  assumes "op_operation o1 c r1 = Inr ((o2, None), Some (OperationGenerator o1), r2)"
    and "gen_func_apply fn c r = (o1, r1)" and "op_type o2 \<noteq> kNil"
  shows "gen_op (Suc (Suc (Suc n))) (Some (FunctionGenerator fn)) c r =
      Inr ((o2, Some (ListGenerator [None, Some (FunctionGenerator fn)])),
           Some (FunctionGenerator fn), r2)"
proof -
  have "gen_op (Suc n) (Some (OperationGenerator o1)) c r1 =
      Inr ((o2, None), Some (OperationGenerator o1), r2)"
    using assms(1) by simp
  then have "op_list (gen_op (Suc n)) [Some (OperationGenerator o1), Some (FunctionGenerator fn)] c r1 =
      Inr ((o2, Some (ListGenerator [None, Some (FunctionGenerator fn)])),
           Some (ListGenerator [Some (OperationGenerator o1), Some (FunctionGenerator fn)]), r2)"
    using assms(3) by (rule op_list_head)
  then show ?thesis
    unfolding gen_op.simps(2) [of "Suc (Suc n)"] op_step.simps op_function_def assms(2)
    by (simp add: factory_defs del: gen_op.simps) simp
qed

lemma ask_function_again:
  assumes "gen_op m (Some (FunctionGenerator fn)) c r =
      Inr ((o2, g2), Some (FunctionGenerator fn), r2)" and "op_type o2 \<noteq> kNil" and "m \<noteq> 0"
  shows "gen_op (Suc (Suc m)) (Some (ListGenerator [None, Some (FunctionGenerator fn)])) c r =
      Inr ((o2, g2), Some (ListGenerator [None, Some (FunctionGenerator fn)]), r2)"
proof -
  have null: "gen_op (Suc m) None c r = Inr (nil_op, None, r)" by simp
  have "gen_op (Suc m) (Some (ListGenerator [Some (FunctionGenerator fn)])) c r =
      Inr ((o2, g2), Some (ListGenerator [Some (FunctionGenerator fn)]), r2)"
    unfolding gen_op.simps(2) op_step.simps using assms(1,2) by (rule op_list_single)
  then show ?thesis
    unfolding gen_op.simps(2) [of "Suc m"] op_step.simps
      op_list_skip_null [of "gen_op (Suc m)", OF null]
    by (simp del: gen_op.simps)
qed

text \<open>
  A function generator is inexhaustible: with a free thread it answers with the operation
  its function returns for the context, filled in; what it returns is a list of the null
  pointer and the function, which \<open>update\<close> leaves alone and which answers like the function
  again.
\<close>

theorem function_inexhaustible:
  assumes c: "ctx_wf c" "free_threads c \<noteq> []" and fn: "gen_func_apply fn c r = (o1, r1)"
    and type: "op_type o1 \<in> {kInit, kInvoke}"
  shows "\<exists>q r2. q \<in> free_procs c \<and>
    gen_op (3 + n) (Some (FunctionGenerator fn)) c r =
      Inr ((filled c q o1, Some (ListGenerator [None, Some (FunctionGenerator fn)])),
           Some (FunctionGenerator fn), r2) \<and>
    gen_update (Some (ListGenerator [None, Some (FunctionGenerator fn)])) c0 e =
      Inr (Some (ListGenerator [None, Some (FunctionGenerator fn)])) \<and>
    gen_op (5 + n) (Some (ListGenerator [None, Some (FunctionGenerator fn)])) c r =
      Inr ((filled c q o1, Some (ListGenerator [None, Some (FunctionGenerator fn)])),
           Some (ListGenerator [None, Some (FunctionGenerator fn)]), r2)"
proof -
  obtain q where q: "randomFreeProcess c r1 = Inr (q, snd (draw r1))" "q \<in> free_procs c"
    "q \<noteq> kInvalidProcess"
    using c by (rule randomFreeProcess_some)
  have op: "op_operation o1 c r1 =
      Inr ((filled c q o1, None), Some (OperationGenerator o1), snd (draw r1))"
    using q type by (auto simp: op_operation_def fillInOperation_eq)
  have nil: "op_type (filled c q o1) \<noteq> kNil" using type by auto
  have n: "Suc (Suc (Suc n)) = 3 + n" "Suc (Suc (3 + n)) = 5 + n" by simp_all
  have ask: "gen_op (3 + n) (Some (FunctionGenerator fn)) c r =
      Inr ((filled c q o1, Some (ListGenerator [None, Some (FunctionGenerator fn)])),
           Some (FunctionGenerator fn), snd (draw r1))"
    using ask_function [OF op fn nil, of n] unfolding n .
  have again: "gen_op (5 + n) (Some (ListGenerator [None, Some (FunctionGenerator fn)])) c r =
      Inr ((filled c q o1, Some (ListGenerator [None, Some (FunctionGenerator fn)])),
           Some (ListGenerator [None, Some (FunctionGenerator fn)]), snd (draw r1))"
    using ask_function_again [OF ask nil] unfolding n by simp
  have "gen_update (Some (ListGenerator [None, Some (FunctionGenerator fn)])) c0 e =
      Inr (Some (ListGenerator [None, Some (FunctionGenerator fn)]))"
    by simp
  with q(2) ask again show ?thesis by blast
qed

theorem function_inexhaustible_witness:
  "\<exists>q r2. q \<in> free_procs ctx3 \<and>
    gen_op (3 + 0) (Some (FunctionGenerator (kBase (\<lambda>r. (read_op, r))))) ctx3 [1] =
      Inr ((filled ctx3 q read_op, Some (ListGenerator [None, Some (FunctionGenerator (kBase (\<lambda>r. (read_op, r))))])),
           Some (FunctionGenerator (kBase (\<lambda>r. (read_op, r)))), r2)"
  using function_inexhaustible [OF ctx3_wf ctx3_free, of "kBase (\<lambda>r. (read_op, r))" "[1]" read_op "[1]" 0]
  by (auto simp: gen_func_apply_def read_op_def Operation_of_def)

section \<open>Threads\<close>

lemma on_threads_emitted:
  assumes c: "ctx_wf c" and raw: "all_ptr (raw_node (\<lambda>o1. op_process o1 = kInvalidProcess)) g"
    and res: "gen_op n (createOnThreads g f) c r = Inr ((o2, g2), p', r')"
    and real: "op_type o2 \<noteq> kNil" "op_type o2 \<noteq> kPending"
  shows "op_process o2 \<in> free_procs c \<and> f (processToThread c (op_process o2))"
proof -
  obtain m where n: "n = Suc m" using res by (cases n) (auto simp: createOnThreads_def)
  have raw': "all_ptr (raw_node (\<lambda>o1. op_process o1 \<in> insert kInvalidProcess {})) g"
    using raw by simp
  show ?thesis
  proof (cases "gen_op m g (onThreadsContext f c) r")
    case (Inl e)
    then show ?thesis using res n by (simp add: createOnThreads_def op_on_threads_def)
  next
    case (Inr y)
    obtain o3 g3 p3 r3 where y: "y = ((o3, g3), p3, r3)" by (cases y) auto
    have "notNil o3 g3 \<and> o2 = o3"
      using res n Inr y real
      by (cases "notNil o3 g3")
        (auto simp: createOnThreads_def op_on_threads_def nil_op_def Operation_of_type_def)
    then have "addressed {} (onThreadsContext f c) o2"
      using addressing.gen_op_emitted [OF ctx_wf_onThreadsContext [OF c] raw' Inr [unfolded y]]
      by simp
    then show ?thesis
      using real free_procs_onThreadsContext [OF c, of f] by (simp add: addressed_def is_real_def)
  qed
qed

text \<open>
  What comes out of \<open>OnThreads\<close> goes to a free process, and to one whose thread the filter
  accepts; \<open>clients\<close> and \<open>nemesis\<close> are the two instances the library offers.
\<close>

theorem on_threads_addresses:
  assumes c: "ctx_wf c" and raw: "all_ptr (raw_node (\<lambda>o1. op_process o1 = kInvalidProcess)) g"
    and res: "gen_op n (createOnThreads g f) c r = Inr ((o2, g2), p', r')"
    and real: "op_type o2 \<noteq> kNil" "op_type o2 \<noteq> kPending"
  shows "op_process o2 \<in> free_procs c \<and> f (processToThread c (op_process o2))"
  by (rule on_threads_emitted [OF assms])

lemma ask_on_threads:
  assumes c: "onThreadsContext f ctx3 = \<lparr>ctx_time = 50, free_threads = [t], workers = [(t, q)]\<rparr>"
    and q: "q \<noteq> - 2"
  shows "gen_op (Suc (Suc (Suc (Suc 0))))
     (createOnThreads (createGenerator_ops [read_op, read_op]) f) ctx3 [0] =
     Inr ((read_op\<lparr>op_type := kInvoke, op_time := 50, op_process := q\<rparr>,
         createOnThreads (createGenerator_list [None, createGenerator_op read_op]) f),
       createOnThreads (createGenerator_ops [read_op, read_op]) f, [])"
proof -
  have first: "gen_op (Suc (Suc 0)) (createGenerator_op read_op) (onThreadsContext f ctx3) [0] =
      Inr ((read_op\<lparr>op_type := kInvoke, op_time := 50, op_process := q\<rparr>, None),
        createGenerator_op read_op, [])"
    unfolding c using q by (simp add: eval_op)
  have copy: "copy_ptrs [createGenerator_op read_op, createGenerator_op read_op] =
      Inr [createGenerator_op read_op, createGenerator_op read_op]"
    by (simp add: createGenerator_op_def)
  show ?thesis
    unfolding createOnThreads_def createGenerator_ops_def list.map
      gen_op.simps(2) [of "Suc (Suc (Suc 0))"] op_step.simps op_on_threads_def
      gen_op.simps(2) [of "Suc (Suc 0)"] op_list_def list.case first bind_res_Inr prod.case copy
    by (simp add: createGenerator_list_def notNil_def createOnThreads_def)
qed

lemma ask_clients3:
  "gen_op (Suc (Suc (Suc (Suc 0))))
     (createOnThreads (createGenerator_ops [read_op, read_op]) (\<lambda>t. t = 1)) ctx3 [0] =
     Inr ((read_op\<lparr>op_type := kInvoke, op_time := 50, op_process := 1\<rparr>,
         createOnThreads (createGenerator_list [None, createGenerator_op read_op]) (\<lambda>t. t = 1)),
       createOnThreads (createGenerator_ops [read_op, read_op]) (\<lambda>t. t = 1), [])"
  by (rule ask_on_threads) (simp_all add: onThreadsContext_def ctx3_def)

theorem on_threads_addresses_witness:
  "op_process (read_op\<lparr>op_type := kInvoke, op_time := 50, op_process := 1\<rparr>) \<in> free_procs ctx3 \<and>
     processToThread ctx3 (op_process (read_op\<lparr>op_type := kInvoke, op_time := 50, op_process := 1\<rparr>)) = 1"
  using on_threads_addresses [OF ctx3_wf _ ask_clients3]
  by (simp add: factory_defs read_op_def Operation_of_def)

section \<open>Time limits\<close>

text \<open>
  How the runner drives a generator: it asks; it adopts the answer of a due invocation and
  updates it, or it keeps the receiver; and it tells the generator about completions. The
  list is what was dispatched.
\<close>

inductive gen_trace :: "nat \<Rightarrow> gen_ptr \<Rightarrow> operation list \<Rightarrow> gen_ptr \<Rightarrow> bool" for n g where
  start: "gen_trace n g [] g"
| dispatched:
    "gen_trace n g os g1 \<Longrightarrow> gen_op n g1 c r = Inr ((o1, g2), g', r') \<Longrightarrow>
     op_type o1 = kInvoke \<Longrightarrow> gen_update g2 c1 o1 = Inr g3 \<Longrightarrow> gen_trace n g (os @ [o1]) g3"
| kept:
    "gen_trace n g os g1 \<Longrightarrow> gen_op n g1 c r = Inr ((o1, g2), g', r') \<Longrightarrow> gen_trace n g os g'"
| told:
    "gen_trace n g os g1 \<Longrightarrow> gen_update g1 c e = Inr g3 \<Longrightarrow> gen_trace n g os g3"

definition limited :: "int \<Rightarrow> int \<Rightarrow> gen_ptr \<Rightarrow> bool" where
  "limited l t p \<longleftrightarrow> p = None \<or> (\<exists>h. p = Some (TimeLimit l t h))"

lemma limited_ask:
  assumes lim: "limited l t p" and set: "t \<noteq> kInvalidTime"
    and res: "gen_op n p c r = Inr ((o1, g2), p', r')"
  shows "limited l t g2 \<and> limited l t p' \<and> (op_type o1 = kInvoke \<longrightarrow> op_time o1 < t)"
proof (cases p)
  case None
  then show ?thesis
    using res by (cases n) (auto simp: limited_def nil_op_def Operation_of_type_def)
next
  case (Some g)
  then obtain h where p: "p = Some (TimeLimit l t h)" using lim by (auto simp: limited_def)
  obtain m where n: "n = Suc m" using res by (cases n) auto
  show ?thesis
  proof (cases "gen_op m h c r")
    case (Inl e)
    then show ?thesis using res n p by (simp add: op_time_limit_def)
  next
    case (Inr y)
    obtain o3 g3 p3 r3 where y: "y = ((o3, g3), p3, r3)" by (cases y) auto
    have eq: "gen_op n p c r =
      (if notNil o3 g3 then
         if op_type o3 = kPending
         then Inr ((o3, createTimeLimit3 l t g3), Some (TimeLimit l t p3), r3)
         else if op_time o3 < t
         then Inr ((o3, createTimeLimit3 l t g3), Some (TimeLimit l t p3), r3)
         else Inr (nil_op, Some (TimeLimit l t p3), r3)
       else Inr (nil_op, Some (TimeLimit l t p3), r3))"
      using Inr y n p set by (simp add: op_time_limit_def)
    show ?thesis
      using res unfolding eq
      by (auto simp: limited_def nil_op_def Operation_of_type_def createTimeLimit3_def
          TimeLimit_ctor3_def split: if_splits)
  qed
qed

lemma limited_update:
  "limited l t p \<Longrightarrow> gen_update p c e = Inr q \<Longrightarrow> limited l t q"
  by (auto simp: limited_def res_simps createTimeLimit3_def TimeLimit_ctor3_def)

lemma trace_limited:
  assumes "gen_trace n p os q" and "limited l t p" and "t \<noteq> kInvalidTime"
  shows "limited l t q \<and> (\<forall>o1 \<in> set os. op_time o1 < t)"
  using assms(1)
proof induction
  case start
  then show ?case using assms(2) by simp
next
  case (dispatched os g1 c r o1 g2 g' r' c1 g3)
  have "limited l t g2" "op_time o1 < t"
    using limited_ask [OF _ assms(3) dispatched.hyps(2)] dispatched.IH dispatched.hyps(3) by blast+
  then show ?case
    using limited_update [OF _ dispatched.hyps(4)] dispatched.IH by simp
next
  case (kept os g1 c r o1 g2 g' r')
  then show ?case using limited_ask [OF _ assms(3) kept.hyps(2)] by blast
next
  case (told os g1 c e g3)
  then show ?case using limited_update by blast
qed

text \<open>
  The cutoff of a time limit is a deadline along every run: however the generator is
  asked, adopted, kept and updated, no operation of that time or later is dispatched.
\<close>

theorem time_limit_deadline:
  assumes "gen_trace n (createTimeLimit3 l t g) os q" and "t \<noteq> kInvalidTime"
  shows "\<forall>o1 \<in> set os. op_time o1 < t"
  using trace_limited [OF assms(1) _ assms(2), of l]
  by (simp add: limited_def createTimeLimit3_def TimeLimit_ctor3_def)

lemma limit_reads3:
  "gen_op (Suc 3) (createTimeLimit3 10 60 (createGenerator_ops [read_op, read_op])) ctx3 [2, 7] =
     Inr ((read_op\<lparr>op_type := kInvoke, op_time := 50, op_process := 1\<rparr>,
         createTimeLimit3 10 60 (createGenerator_list [None, createGenerator_op read_op])),
       createTimeLimit3 10 60 (createGenerator_ops [read_op, read_op]), [7])"
  unfolding gen_op.simps(2) createTimeLimit3_def TimeLimit_ctor3_def op_step.simps
    op_time_limit_def ask_reads3 bind_res_Inr prod.case
  by (simp add: notNil_def createGenerator_list_def createTimeLimit3_def TimeLimit_ctor3_def)

theorem time_limit_deadline_witness:
  "\<exists>os q. gen_trace (Suc 3) (createTimeLimit3 10 60 (createGenerator_ops [read_op, read_op])) os q \<and>
     os = [read_op\<lparr>op_type := kInvoke, op_time := 50, op_process := 1\<rparr>] \<and>
     list_all (\<lambda>o1. op_time o1 < 60) os"
proof -
  have "gen_update (createTimeLimit3 10 60 (createGenerator_list [None, createGenerator_op read_op]))
      ctx3 (read_op\<lparr>op_type := kInvoke, op_time := 50, op_process := 1\<rparr>) =
      Inr (createTimeLimit3 10 60 (createGenerator_list [None, createGenerator_op read_op]))"
    by (simp add: factory_defs)
  then have trace: "gen_trace (Suc 3) (createTimeLimit3 10 60 (createGenerator_ops [read_op, read_op]))
      ([] @ [read_op\<lparr>op_type := kInvoke, op_time := 50, op_process := 1\<rparr>])
      (createTimeLimit3 10 60 (createGenerator_list [None, createGenerator_op read_op]))"
    by (intro gen_trace.dispatched [OF gen_trace.start limit_reads3]) simp_all
  have "list_all (\<lambda>o1. op_time o1 < 60)
      ([] @ [read_op\<lparr>op_type := kInvoke, op_time := 50, op_process := 1\<rparr>])"
    using time_limit_deadline [OF trace] by (simp add: list_all_iff)
  then show ?thesis using trace by auto
qed

text \<open>
  A time limit starts with the first operation that is offered: its time plus the limit
  becomes the cutoff of the generator returned and of the receiver alike. With a limit that
  is not positive, or a cutoff that is not representable, no operation gets through.
\<close>

theorem time_limit_starts:
  assumes ask: "gen_op n g c r = Inr ((o1, g2), g', r')"
    and op: "op_type o1 \<noteq> kNil" "op_type o1 \<noteq> kPending" "g2 \<noteq> None"
  shows "gen_op (Suc n) (createTimeLimit2 l g) c r =
    (if \<not> in_i64 (op_time o1 + l) then Inl SignedOverflow
     else if 0 < l then
       Inr ((o1, createTimeLimit3 l (op_time o1 + l) g2), createTimeLimit3 l (op_time o1 + l) g', r')
     else Inr (nil_op, createTimeLimit3 l (op_time o1 + l) g', r'))"
  unfolding gen_op.simps(2) createTimeLimit2_def TimeLimit_ctor2_def op_step.simps
    op_time_limit_def ask bind_res_Inr prod.case
  using op by (simp add: notNil_def add_i64_def createTimeLimit3_def TimeLimit_ctor3_def)

theorem time_limit_starts_witness:
  "gen_op (Suc 3) (createTimeLimit2 10 (createGenerator_ops [read_op, read_op])) ctx3 [2, 7] =
     Inr ((read_op\<lparr>op_type := kInvoke, op_time := 50, op_process := 1\<rparr>,
         createTimeLimit3 10 60 (createGenerator_list [None, createGenerator_op read_op])),
       createTimeLimit3 10 60 (createGenerator_ops [read_op, read_op]), [7])"
  using time_limit_starts [OF ask_reads3, of 10]
  by (simp add: in_i64_def createGenerator_list_def)

section \<open>Any\<close>

definition acc_ok :: "nat \<Rightarrow> any_acc \<Rightarrow> bool" where
  "acc_ok i acc \<longleftrightarrow>
     (case acc of ((o1, w, idx), rg, ro, ri) \<Rightarrow> o1 = ro \<and> idx = ri \<and> ri < int i)"

text \<open>\<open>o1\<close> is at least as soon as \<open>o2\<close>, if \<open>o2\<close> is an operation to run at all.\<close>

definition as_soon :: "operation \<Rightarrow> operation \<Rightarrow> bool" where
  "as_soon o1 o2 \<longleftrightarrow> (is_real o2 \<longrightarrow> is_real o1 \<and> op_time o1 \<le> op_time o2)"

lemma as_soon_refl [simp]: "as_soon o1 o1"
  by (simp add: as_soon_def)

lemma as_soon_trans: "as_soon o1 o2 \<Longrightarrow> as_soon o2 o3 \<Longrightarrow> as_soon o1 o3"
  by (auto simp: as_soon_def)

lemma soonestOpMap_choice:
  assumes "soonestOpMap (o1, w1, i1) (o2, Suc 0, i2) r = Inr ((o3, w3, i3), r')"
  shows "(o3, i3) = (o1, i1) \<and> as_soon o1 o2 \<or> (o3, i3) = (o2, i2) \<and> as_soon o2 o1"
  using assms
  by (auto simp: soonestOpMap_def Let_def as_soon_def is_real_def rand_mod_def split: if_splits)

lemma any_step_choice:
  assumes ok: "acc_ok i (cur, rg, ro, ri)"
    and step: "any_step i (cur, rg, ro, ri) o2 g2 r = Inr ((cur', rg', ro', ri'), r')"
  shows "acc_ok (Suc i) (cur', rg', ro', ri') \<and> as_soon ro' ro \<and>
    (notNil o2 g2 \<longrightarrow> as_soon ro' o2) \<and>
    ((rg', ro', ri') = (rg, ro, ri) \<or> (rg', ro', ri') = (g2, o2, int i) \<and> notNil o2 g2)"
proof (cases "notNil o2 g2")
  case False
  then show ?thesis using ok step by (auto simp: any_step_def acc_ok_def)
next
  case True
  obtain w where cur: "cur = (ro, w, ri)" and ri: "ri < int i"
    using ok by (auto simp: acc_ok_def)
  obtain cur1 r1 where soon: "soonestOpMap cur (o2, Suc 0, int i) r = Inr (cur1, r1)"
    by (rule soonestOpMap_total)
  obtain o3 w3 i3 where cur1: "cur1 = (o3, w3, i3)" by (cases cur1) auto
  have choice: "(o3, i3) = (ro, ri) \<and> as_soon ro o2 \<or> (o3, i3) = (o2, int i) \<and> as_soon o2 ro"
    using soon unfolding cur cur1 by (rule soonestOpMap_choice)
  show ?thesis
  proof (cases "i3 = int i")
    case new: True
    then have "cur' = cur1" "rg' = g2" "ro' = o2" "ri' = int i"
      using step True soon cur1 by (auto simp: any_step_def)
    then show ?thesis using choice new ri True cur1 by (auto simp: acc_ok_def)
  next
    case old: False
    then have "cur' = cur1" "rg' = rg" "ro' = ro" "ri' = ri"
      using step True soon cur1 by (auto simp: any_step_def)
    then show ?thesis using choice old ri True cur1 by (auto simp: acc_ok_def)
  qed
qed

text \<open>
  A round: every generator is asked in its turn, from the stream the one before it left, or from the
  next of that stream when a tie has been drawn in between. An answer is the operation, the
  successor and the generator asked as the call leaves it.
\<close>

type_synonym any_answer = "operation \<times> gen_ptr \<times> gen_ptr"

fun asked :: "op_fun \<Rightarrow> ctx \<Rightarrow> gen_ptr list \<Rightarrow> rng \<Rightarrow> any_answer list \<Rightarrow> rng \<Rightarrow> bool" where
  "asked rec c [] r as r' = (as = [] \<and> r' = r)"
| "asked rec c (g # gs) r as r' =
     (case as of
        [] \<Rightarrow> False
      | (o2, g2, p2) # as' \<Rightarrow>
          \<exists>r1. rec g c r = Inr ((o2, g2), p2, r1) \<and>
            (asked rec c gs r1 as' r' \<or> asked rec c gs (snd (draw r1)) as' r'))"

text \<open>\<open>o1\<close> is at least as soon as this answer, if the answer counts.\<close>

definition not_beaten :: "operation \<Rightarrow> any_answer \<Rightarrow> bool" where
  "not_beaten o1 x = (case x of (o2, g2, p2) \<Rightarrow> notNil o2 g2 \<longrightarrow> as_soon o1 o2)"

lemma not_beaten_trans: "as_soon o1 o2 \<Longrightarrow> not_beaten o2 x \<Longrightarrow> not_beaten o1 x"
  by (cases x) (auto simp: not_beaten_def intro: as_soon_trans)

definition receivers :: "any_answer list \<Rightarrow> gen_ptr list" where
  "receivers = map (\<lambda>(o2, g2, p2). p2)"

lemma asked_length: "asked rec c gs r as r' \<Longrightarrow> length as = length gs"
  by (induction rec c gs r as r' rule: asked.induct) (auto split: list.splits)

lemma any_step_stream:
  "any_step i acc o2 g2 r = Inr (acc', r') \<Longrightarrow> r' = r \<or> r' = snd (draw r)"
  by (auto simp: any_step_def soonestOpMap_def rand_mod_def rand_def Let_def bind_res_eq_Inr
      split: prod.splits if_splits)

lemma any_loop_choice:
  assumes "any_loop rec c i gs (cur, rg, ro, ri) r = Inr ((cur', rg', ro', ri'), gs', r')"
    and "acc_ok i (cur, rg, ro, ri)"
  shows "\<exists>as. asked rec c gs r as r' \<and> gs' = receivers as \<and> as_soon ro' ro \<and>
    list_all (not_beaten ro') as \<and>
    ((rg', ro', ri') = (rg, ro, ri) \<or>
     (\<exists>k p. k < length gs \<and> ri' = int (i + k) \<and> as ! k = (ro', rg', p) \<and> notNil ro' rg'))"
  using assms
proof (induction gs arbitrary: i cur rg ro ri r gs')
  case Nil
  then show ?case by (simp add: receivers_def)
next
  case (Cons g gs)
  obtain o2 g2 p2 r1 where y: "rec g c r = Inr ((o2, g2), p2, r1)"
    using Cons.prems(1) by (auto simp: bind_res_eq_Inr)
  obtain cur1 rg1 ro1 ri1 r2 where step: "any_step i (cur, rg, ro, ri) o2 g2 r1 = Inr ((cur1, rg1, ro1, ri1), r2)"
    using any_step_total [of i "(cur, rg, ro, ri)" o2 g2 r1] by (metis prod.collapse)
  note one = any_step_choice [OF Cons.prems(2) step]
  obtain gs1 where rest: "any_loop rec c (Suc i) gs (cur1, rg1, ro1, ri1) r2 = Inr ((cur', rg', ro', ri'), gs1, r')"
    and gs': "gs' = p2 # gs1"
    using Cons.prems(1) y step by (auto simp: bind_res_eq_Inr)
  from Cons.IH [OF rest conjunct1 [OF one]] obtain as where as: "asked rec c gs r2 as r'"
    "gs1 = receivers as" "as_soon ro' ro1" "list_all (not_beaten ro') as"
    "(rg', ro', ri') = (rg1, ro1, ri1) \<or>
     (\<exists>k p. k < length gs \<and> ri' = int (Suc i + k) \<and> as ! k = (ro', rg', p) \<and> notNil ro' rg')"
    by blast
  let ?as = "(o2, g2, p2) # as"
  have round: "asked rec c (g # gs) r ?as r'" "gs' = receivers ?as"
    using y as(1,2) gs' any_step_stream [OF step] by (auto simp: receivers_def)
  have soon: "as_soon ro' ro" "list_all (not_beaten ro') ?as"
    using as(3,4) one as_soon_trans by (auto simp: not_beaten_def)
  have "(rg', ro', ri') = (rg, ro, ri) \<or>
    (\<exists>k p. k < length (g # gs) \<and> ri' = int (i + k) \<and> ?as ! k = (ro', rg', p) \<and> notNil ro' rg')"
    using as(5)
  proof (elim disjE exE conjE)
    assume "(rg', ro', ri') = (rg1, ro1, ri1)"
    then have "(rg', ro', ri') = (rg, ro, ri) \<or> (rg', ro', ri') = (g2, o2, int i) \<and> notNil o2 g2"
      using one by auto
    then show ?thesis by (auto intro: exI [of _ 0])
  next
    fix k p
    assume "k < length gs" "ri' = int (Suc i + k)" "as ! k = (ro', rg', p)" "notNil ro' rg'"
    then show ?thesis by (intro disjI2 exI [of _ "Suc k"] exI [of _ p]) auto
  qed
  then show ?case using round soon by blast
qed


lemma any_reads3:
  "gen_op (Suc 3) (createAny [createGenerator_ops [read_op, read_op]]) ctx3 [2, 7] =
     Inr ((read_op\<lparr>op_type := kInvoke, op_time := 50, op_process := 1\<rparr>,
         createAny [createGenerator_list [None, createGenerator_op read_op]]),
       createAny [createGenerator_ops [read_op, read_op]], [7])"
proof -
  have copy: "copy_derefs [createGenerator_ops [read_op, read_op]] =
      Inr [createGenerator_ops [read_op, read_op]]"
    by (simp add: createGenerator_ops_def createGenerator_op_def)
  have loop: "any_loop (gen_op 3) ctx3 0 [createGenerator_ops [read_op, read_op]] any_init [2, 7] =
    Inr (((read_op\<lparr>op_type := kInvoke, op_time := 50, op_process := 1\<rparr>, 1, 0),
        createGenerator_list [None, createGenerator_op read_op],
        read_op\<lparr>op_type := kInvoke, op_time := 50, op_process := 1\<rparr>, 0),
      [createGenerator_ops [read_op, read_op]], [7])"
    unfolding any_loop.simps ask_reads3 bind_res_Inr prod.case
    by (simp add: any_step_def any_init_def notNil_def createGenerator_list_def soonestOpMap_def
        Operation_of_type_def)
  show ?thesis
    unfolding createAny_def gen_op.simps(2) op_step.simps op_any_def loop bind_res_Inr prod.case copy
    by (simp add: notNil_def createGenerator_list_def createAny_def updateOne_def)
qed


end
