(* ===== verification/Workers.thy ===== *)
theory Workers
  imports Operations
begin

text \<open>
  Clients, the nemesis and the workers that run them (\<open>src/jepsen/Client.h\<close>,
  \<open>Nemesis.h\<close>, \<open>Nemesis.cpp\<close>, \<open>Worker.h\<close>, \<open>Worker.cpp\<close>).

  A class derived from \<open>Client\<close> is a record of its virtual methods over the object's
  state \<open>'c\<close> and a world \<open>'w\<close> that every call can read and change; the registered class
  (\<open>cur_client_type\<close>) is an argument of the definitions that create and use clients. The input
  queue of a worker has one producer and one consumer and is a list in queue order. One
  iteration of the loop of \<open>runAsync\<close> is \<open>runAsync_iter\<close>; an exception ends the thread and
  stays in its future.
\<close>

section \<open>Clients\<close>

record ('c, 'w) client_class =
  cl_create :: "('w, 'c) act"
  cl_open :: "string \<Rightarrow> 'c \<Rightarrow> ('w, bool \<times> 'c) act"
  cl_close :: "'c \<Rightarrow> ('w, bool \<times> 'c) act"
  cl_setup :: "'c \<Rightarrow> ('w, bool \<times> 'c) act"
  cl_invoke :: "operation \<Rightarrow> 'c \<Rightarrow> ('w, bool \<times> operation \<times> 'c) act"
  cl_teardown :: "'c \<Rightarrow> ('w, bool \<times> 'c) act"

text \<open>\<open>c0\<close> is the state of an object without members of its own.\<close>

definition NoopClient :: "'c \<Rightarrow> ('c, 'w) client_class" where
  "NoopClient c0 =
     \<lparr>cl_create = act_return c0,
      cl_open = (\<lambda>node c. act_return (True, c)),
      cl_close = (\<lambda>c. act_return (True, c)),
      cl_setup = (\<lambda>c. act_return (True, c)),
      cl_invoke = (\<lambda>op c. act_return (True, op, c)),
      cl_teardown = (\<lambda>c. act_return (True, c))\<rparr>"

text \<open>The bodies \<open>Nemesis\<close> gives its pure virtual methods.\<close>

definition Nemesis_base :: "'c \<Rightarrow> ('c, 'w) client_class" where
  "Nemesis_base c0 =
     \<lparr>cl_create = act_return c0,
      cl_open = (\<lambda>node c. act_return (True, c)),
      cl_close = (\<lambda>c. act_return (True, c)),
      cl_setup = (\<lambda>c. act_return (True, c)),
      cl_invoke = (\<lambda>op c. act_return (True, op, c)),
      cl_teardown = (\<lambda>c. act_return (True, c))\<rparr>"

definition NoopNemesis :: "'c \<Rightarrow> ('c, 'w) client_class" where
  "NoopNemesis c0 =
     \<lparr>cl_create = act_return c0,
      cl_open = (\<lambda>node c. act_return (True, c)),
      cl_close = (\<lambda>c. act_return (True, c)),
      cl_setup = (\<lambda>c. act_return (True, c)),
      cl_invoke = (\<lambda>op c. act_return (True, op\<lparr>op_type := kSuccess\<rparr>, c)),
      cl_teardown = (\<lambda>c. act_return (True, c))\<rparr>"

text \<open>
  The classes the objects are made of, which are global variables: until one is registered, clients and
  nemesis do nothing.
\<close>

record ('c, 'w) registry =
  cur_client_type :: "('c, 'w) client_class"
  cur_nemesis_type :: "('c, 'w) client_class"

definition initial_registry :: "'c \<Rightarrow> ('c, 'w) registry" where
  "initial_registry c0 = \<lparr>cur_client_type = NoopClient c0, cur_nemesis_type = NoopNemesis c0\<rparr>"

definition Client_Register :: "('c, 'w) client_class \<Rightarrow> ('c, 'w) registry \<Rightarrow> ('c, 'w) registry" where
  "Client_Register K g = g\<lparr>cur_client_type := K\<rparr>"

definition Nemesis_Register :: "('c, 'w) client_class \<Rightarrow> ('c, 'w) registry \<Rightarrow> ('c, 'w) registry" where
  "Nemesis_Register N g = g\<lparr>cur_nemesis_type := N\<rparr>"

section \<open>Workers\<close>

datatype worker_kind = ClientKind | NemesisKind

datatype worker_status = Running | Finished | Crashed fault

record 'c worker =
  w_kind :: worker_kind
  w_id :: int
  w_node :: string
  w_process :: int
  w_client :: "'c option"
  w_in :: "operation list"
  w_status :: worker_status

definition ClientWorker :: "int \<Rightarrow> string \<Rightarrow> 'c worker" where
  "ClientWorker i node =
     \<lparr>w_kind = ClientKind, w_id = i, w_node = node, w_process = kInvalidProcess,
      w_client = None, w_in = [], w_status = Running\<rparr>"

definition NemesisWorker :: "('c, 'w) client_class \<Rightarrow> int \<Rightarrow> ('w, 'c worker) act" where
  "NemesisWorker N i =
     act_bind (cl_create N) (\<lambda>c.
       act_return
         \<lparr>w_kind = NemesisKind, w_id = i, w_node = [], w_process = kInvalidProcess,
          w_client = Some c, w_in = [], w_status = Running\<rparr>)"

definition putOp :: "operation \<Rightarrow> 'c worker \<Rightarrow> 'c worker" where
  "putOp op w = w\<lparr>w_in := w_in w @ [op]\<rparr>"

definition ClientWorker_close ::
  "('c, 'w) client_class \<Rightarrow> 'c worker \<Rightarrow> ('w, bool \<times> 'c worker) act" where
  "ClientWorker_close K w =
     (case w_client w of
        None \<Rightarrow> act_return (True, w)
      | Some c \<Rightarrow> act_bind (cl_close K c) (\<lambda>(_, c'). act_return (True, w\<lparr>w_client := None\<rparr>)))"

definition ClientWorker_invoke ::
  "('c, 'w) client_class \<Rightarrow> operation \<Rightarrow> 'c worker \<Rightarrow> ('w, bool \<times> operation \<times> 'c worker) act"
where
  "ClientWorker_invoke K op w =
     act_bind
       (if w_process w = kInvalidProcess \<or> w_process w \<noteq> op_process op then
          act_bind (ClientWorker_close K w) (\<lambda>(_, w1).
            act_bind (cl_create K) (\<lambda>c.
              act_bind (cl_open K (w_node w1) c) (\<lambda>(_, c').
                act_return (w1\<lparr>w_client := Some c', w_process := op_process op\<rparr>))))
        else act_return w)
       (\<lambda>w2.
         case w_client w2 of
           None \<Rightarrow> act_raise NullDeref
         | Some c \<Rightarrow>
             act_bind (cl_invoke K op c) (\<lambda>(b, op', c').
               act_return (b, op', w2\<lparr>w_client := Some c'\<rparr>)))"

definition NemesisWorker_invoke ::
  "('c, 'w) client_class \<Rightarrow> operation \<Rightarrow> 'c worker \<Rightarrow> ('w, bool \<times> operation \<times> 'c worker) act"
where
  "NemesisWorker_invoke N op w =
     (case w_client w of
        None \<Rightarrow> act_raise NullDeref
      | Some c \<Rightarrow>
          act_bind (cl_invoke N op c) (\<lambda>(b, op', c').
            act_return (b, op', w\<lparr>w_client := Some c'\<rparr>)))"

text \<open>The virtual methods.\<close>

definition Worker_invoke ::
  "('c, 'w) client_class \<Rightarrow> ('c, 'w) client_class \<Rightarrow> operation \<Rightarrow> 'c worker
     \<Rightarrow> ('w, bool \<times> operation \<times> 'c worker) act" where
  "Worker_invoke K N op w =
     (case w_kind w of
        ClientKind \<Rightarrow> ClientWorker_invoke K op w
      | NemesisKind \<Rightarrow> NemesisWorker_invoke N op w)"

definition Worker_close :: "('c, 'w) client_class \<Rightarrow> 'c worker \<Rightarrow> ('w, bool \<times> 'c worker) act" where
  "Worker_close K w =
     (case w_kind w of
        ClientKind \<Rightarrow> ClientWorker_close K w
      | NemesisKind \<Rightarrow> act_return (True, w))"

definition getName :: "'c worker \<Rightarrow> string" where
  "getName w =
     (case w_kind w of
        ClientKind \<Rightarrow> ''worker'' @ int_to_string (w_id w)
      | NemesisKind \<Rightarrow> ''nemesis'')"

text \<open>
  One iteration: the worker after it, what it put into the completion queue, and the world.
\<close>

definition runAsync_iter ::
  "('c, 'w) client_class \<Rightarrow> ('c, 'w) client_class \<Rightarrow> 'c worker \<Rightarrow> 'w
     \<Rightarrow> 'c worker \<times> operation list \<times> 'w" where
  "runAsync_iter K N w s =
     (case w_in w of
        [] \<Rightarrow> (w, [], s)
      | op # q \<Rightarrow>
          let w1 = w\<lparr>w_in := q\<rparr> in
          if op_type op = kExit then
            (case Worker_close K w1 s of
               (Inl e, s') \<Rightarrow> (w1\<lparr>w_status := Crashed e\<rparr>, [], s')
             | (Inr (b, w2), s') \<Rightarrow> (w2\<lparr>w_status := Finished\<rparr>, [], s'))
          else
            (case Worker_invoke K N op w1 s of
               (Inl e, s') \<Rightarrow> (w1\<lparr>w_status := Crashed e\<rparr>, [], s')
             | (Inr (b, op', w2), s') \<Rightarrow> (w2, [op'], s')))"

section \<open>What an iteration does\<close>

lemma ClientWorker_close_cases:
  assumes "ClientWorker_close K w s = (Inr (b, w'), s')"
  shows "w' = w\<lparr>w_client := None\<rparr>"
  using assms
  by (cases "w_client w") (auto simp: ClientWorker_close_def res_simps)

lemma Worker_invoke_frame:
  assumes "Worker_invoke K N op w s = (Inr (b, op', w'), s')"
  shows "w_kind w' = w_kind w" "w_id w' = w_id w" "w_node w' = w_node w"
    "w_in w' = w_in w" "w_status w' = w_status w" "w_client w' \<noteq> None"
  using assms
  by (auto simp: Worker_invoke_def ClientWorker_invoke_def NemesisWorker_invoke_def res_simps
      split: worker_kind.splits option.splits if_splits dest!: ClientWorker_close_cases)

lemma runAsync_iter_idle [simp]: "w_in w = [] \<Longrightarrow> runAsync_iter K N w s = (w, [], s)"
  by (simp add: runAsync_iter_def)

lemma runAsync_iter_exit:
  assumes "w_in w = op # q" and "op_type op = kExit"
  obtains w' st s' where "runAsync_iter K N w s = (w', [], s')" and "w_in w' = q"
    and "w_status w' = st" and "st \<noteq> Running"
    and "w_kind w' = w_kind w" and "w_id w' = w_id w"
proof (cases "Worker_close K (w\<lparr>w_in := q\<rparr>) s")
  case (Pair res s')
  show thesis
  proof (cases res)
    case (Inl e)
    then show thesis
      using that [of "w\<lparr>w_in := q, w_status := Crashed e\<rparr>" s' "Crashed e"] assms Pair
      by (simp add: runAsync_iter_def)
  next
    case (Inr x)
    obtain b w2 where x: "x = (b, w2)" by force
    then have "w2 \<in> {w\<lparr>w_in := q\<rparr>, w\<lparr>w_in := q, w_client := None\<rparr>}"
      using Pair Inr
      by (auto simp: Worker_close_def res_simps split: worker_kind.splits
          dest!: ClientWorker_close_cases)
    then show thesis
      using that [of "w2\<lparr>w_status := Finished\<rparr>" s' Finished] assms Pair Inr x
      by (auto simp: runAsync_iter_def)
  qed
qed

lemma runAsync_iter_invoke:
  assumes "w_in w = op # q" and "op_type op \<noteq> kExit"
  obtains (crash) e s' where
      "Worker_invoke K N op (w\<lparr>w_in := q\<rparr>) s = (Inl e, s')"
      "runAsync_iter K N w s = (w\<lparr>w_in := q, w_status := Crashed e\<rparr>, [], s')"
  | (ok) b op' w' s' where
      "Worker_invoke K N op (w\<lparr>w_in := q\<rparr>) s = (Inr (b, op', w'), s')"
      "runAsync_iter K N w s = (w', [op'], s')"
      "w_in w' = q" "w_status w' = w_status w" "w_kind w' = w_kind w" "w_id w' = w_id w"
proof (cases "Worker_invoke K N op (w\<lparr>w_in := q\<rparr>) s")
  case (Pair res s')
  show thesis
  proof (cases res)
    case (Inl e)
    then show thesis using crash [of e s'] assms Pair by (simp add: runAsync_iter_def)
  next
    case (Inr x)
    obtain b op' w' where x: "x = (b, op', w')" by (cases x) auto
    then show thesis
      using ok [of b op' w' s'] assms Pair Inr Worker_invoke_frame [of K N op "w\<lparr>w_in := q\<rparr>" s b op' w' s']
      by (simp add: runAsync_iter_def)
  qed
qed

section \<open>What the runner relies on in a client\<close>

text \<open>
  A client leaves the process of an operation alone; \<open>C\<close> is the set of types an invocation
  can come back with. A completing client never hands an invocation back as it was.
\<close>

locale client_contract =
  fixes K :: "('c, 'w) client_class" and C :: "op_kind set"
  assumes keeps_process:
    "cl_invoke K op c s = (Inr (b, op', c'), s') \<Longrightarrow> op_process op' = op_process op"
    and outcome:
    "cl_invoke K op c s = (Inr (b, op', c'), s') \<Longrightarrow> op_type op = kInvoke \<Longrightarrow> op_type op' \<in> C"
begin

lemma ClientWorker_invoke_outcome:
  assumes "ClientWorker_invoke K op w s = (Inr (b, op', w'), s')"
  shows "op_process op' = op_process op" and "op_type op = kInvoke \<Longrightarrow> op_type op' \<in> C"
  using assms
  by (auto simp: ClientWorker_invoke_def res_simps split: option.splits
      dest: keeps_process outcome)

lemma NemesisWorker_invoke_outcome:
  assumes "NemesisWorker_invoke K op w s = (Inr (b, op', w'), s')"
  shows "op_process op' = op_process op" and "op_type op = kInvoke \<Longrightarrow> op_type op' \<in> C"
  using assms
  by (auto simp: NemesisWorker_invoke_def res_simps split: option.splits
      dest: keeps_process outcome)

end

definition completion_types :: "op_kind set" where
  "completion_types = {kSuccess, kFailed, kInfo}"

locale completing_client = client_contract +
  assumes completes: "C \<subseteq> completion_types"
begin

lemma not_left_open:
  "cl_invoke K op c s = (Inr (b, op', c'), s') \<Longrightarrow> op_type op = kInvoke \<Longrightarrow> op_type op' \<noteq> kInvoke"
  using outcome completes by (fastforce simp: completion_types_def)

end

interpretation noop_client: client_contract "NoopClient c0" "{kInvoke}" for c0 :: 'c
  by unfold_locales (auto simp: NoopClient_def res_simps)

interpretation base_nemesis: client_contract "Nemesis_base c0" "{kInvoke}" for c0 :: 'c
  by unfold_locales (auto simp: Nemesis_base_def res_simps)

interpretation noop_nemesis: completing_client "NoopNemesis c0" "{kSuccess}" for c0 :: 'c
  by unfold_locales (auto simp: NoopNemesis_def res_simps completion_types_def)

section \<open>The life of a client\<close>

text \<open>
  The calls a worker makes to its client, recorded by a class that delegates to another one
  and appends every call to a log in the world.
\<close>

datatype client_call =
    CreateCall
  | OpenCall string
  | CloseCall
  | SetupCall
  | InvokeCall int
  | TeardownCall

definition log_call ::
  "client_call \<Rightarrow> ('w, 'a) act \<Rightarrow> ('w \<times> client_call list, 'a) act" where
  "log_call e m s = (case m (fst s) of (x, w') \<Rightarrow> (x, (w', snd s @ [e])))"

definition traced ::
  "('c, 'w) client_class \<Rightarrow> ('c, 'w \<times> client_call list) client_class" where
  "traced K =
     \<lparr>cl_create = log_call CreateCall (cl_create K),
      cl_open = (\<lambda>node c. log_call (OpenCall node) (cl_open K node c)),
      cl_close = (\<lambda>c. log_call CloseCall (cl_close K c)),
      cl_setup = (\<lambda>c. log_call SetupCall (cl_setup K c)),
      cl_invoke = (\<lambda>op c. log_call (InvokeCall (op_process op)) (cl_invoke K op c)),
      cl_teardown = (\<lambda>c. log_call TeardownCall (cl_teardown K c))\<rparr>"

text \<open>
  The protocol as an automaton: a client is created, opened on the worker's node, invoked for
  one process only, and closed before another one is created.
\<close>

datatype session = NoSession | Created | Opened "int option"

fun session_step :: "string \<Rightarrow> session \<Rightarrow> client_call \<Rightarrow> session option" where
  "session_step node NoSession CreateCall = Some Created"
| "session_step node Created (OpenCall n) = (if n = node then Some (Opened None) else None)"
| "session_step node (Opened None) (InvokeCall p) = Some (Opened (Some p))"
| "session_step node (Opened (Some p)) (InvokeCall q) =
     (if p = q then Some (Opened (Some p)) else None)"
| "session_step node (Opened x) CloseCall = Some NoSession"
| "session_step node _ _ = None"

fun session_run :: "string \<Rightarrow> session \<Rightarrow> client_call list \<Rightarrow> session option" where
  "session_run node x [] = Some x"
| "session_run node x (e # es) =
     (case session_step node x e of None \<Rightarrow> None | Some y \<Rightarrow> session_run node y es)"

text \<open>The worker after \<open>n\<close> iterations, in a world of its own.\<close>

fun worker_iters ::
  "('c, 'w) client_class \<Rightarrow> ('c, 'w) client_class \<Rightarrow> nat \<Rightarrow> 'c worker \<Rightarrow> 'w
     \<Rightarrow> 'c worker \<times> operation list \<times> 'w" where
  "worker_iters K N 0 w s = (w, [], s)"
| "worker_iters K N (Suc n) w s =
     (if w_status w \<noteq> Running then (w, [], s)
      else case runAsync_iter K N w s of (w1, out1, s1) \<Rightarrow>
        case worker_iters K N n w1 s1 of (w2, out2, s2) \<Rightarrow> (w2, out1 @ out2, s2))"

lemma session_run_append:
  "session_run node x (xs @ ys) =
     (case session_run node x xs of None \<Rightarrow> None | Some y \<Rightarrow> session_run node y ys)"
  by (induction xs arbitrary: x) (auto split: option.splits)

text \<open>The session a worker is in, read off its fields.\<close>

definition worker_session :: "'c worker \<Rightarrow> session" where
  "worker_session w =
     (if w_client w = None then NoSession else Opened (Some (w_process w)))"

definition log_state :: "string \<Rightarrow> 'w \<times> client_call list \<Rightarrow> session option" where
  "log_state node s = session_run node NoSession (snd s)"

abbreviation log_ok :: "string \<Rightarrow> 'w \<times> client_call list \<Rightarrow> bool" where
  "log_ok node s \<equiv> log_state node s \<noteq> None"

text \<open>One logged call followed by the rest.\<close>

lemma log_call_bind:
  assumes "session_step node x e = Some y"
    and "\<And>r. act_spec (\<lambda>s. log_state node s = Some y) (f r) Q (log_ok node)"
  shows "act_spec (\<lambda>s. log_state node s = Some x) (act_bind (log_call e m) f) Q (log_ok node)"
  by (rule act_spec_bind [where I = "\<lambda>_ s. log_state node s = Some y"])
    (use assms in \<open>auto simp: act_spec_def log_call_def log_state_def session_run_append
      split: prod.splits sum.splits\<close>)

lemma traced_calls:
  "cl_create (traced K) = log_call CreateCall (cl_create K)"
  "cl_open (traced K) node c = log_call (OpenCall node) (cl_open K node c)"
  "cl_close (traced K) c = log_call CloseCall (cl_close K c)"
  "cl_invoke (traced K) op c = log_call (InvokeCall (op_process op)) (cl_invoke K op c)"
  by (simp_all add: traced_def)

lemma ClientWorker_close_session:
  "act_spec (\<lambda>s. log_state node s = Some (worker_session w)) (ClientWorker_close (traced K) w)
     (\<lambda>(b, w') s. log_state node s = Some NoSession \<and> w' = w\<lparr>w_client := None\<rparr>) (log_ok node)"
proof (cases "w_client w")
  case None
  then show ?thesis
    by (auto simp: ClientWorker_close_def worker_session_def intro!: act_spec_return)
next
  case (Some c)
  then have session: "worker_session w = Opened (Some (w_process w))"
    by (simp add: worker_session_def)
  show ?thesis
    unfolding ClientWorker_close_def traced_calls Some option.case session
    by (rule log_call_bind [where y = NoSession]) (auto intro!: act_spec_return)
qed

lemma client_invoke_session:
  assumes "w_client w = Some c" and "x = Opened None \<or> x = Opened (Some (op_process op))"
    and "w_process w = op_process op"
  shows "act_spec (\<lambda>s. log_state node s = Some x)
     (act_bind (cl_invoke (traced K) op c) (\<lambda>(b, op', c').
        act_return (b, op', w\<lparr>w_client := Some c'\<rparr>)))
     (\<lambda>(b, op', w') s. log_state node s = Some (worker_session w')) (log_ok node)"
  unfolding traced_calls
  by (rule log_call_bind [where y = "Opened (Some (op_process op))"])
    (use assms in \<open>auto simp: worker_session_def intro!: act_spec_return\<close>)

lemma ClientWorker_invoke_session:
  assumes "w_node w = node"
  shows "act_spec (\<lambda>s. log_state node s = Some (worker_session w))
     (ClientWorker_invoke (traced K) op w)
     (\<lambda>(b, op', w') s. log_state node s = Some (worker_session w')) (log_ok node)"
proof -
  let ?p = "op_process op"
  have fresh: "act_spec (\<lambda>s. log_state node s = Some NoSession)
     (act_bind (cl_create (traced K)) (\<lambda>c.
          act_bind (cl_open (traced K) (w_node w) c) (\<lambda>(_, c').
            act_return (v\<lparr>w_client := Some c', w_process := ?p\<rparr>))))
     (\<lambda>w2 s. log_state node s = Some (Opened None) \<and>
        (\<exists>c. w2 = v\<lparr>w_client := Some c, w_process := ?p\<rparr>))
     (log_ok node)" for v :: "'a worker"
    unfolding traced_calls
    by (rule log_call_bind [where y = Created], simp,
        rule log_call_bind [where y = "Opened None"], simp add: assms)
      (auto intro!: act_spec_return)
  show ?thesis
  proof (cases "w_process w = kInvalidProcess \<or> w_process w \<noteq> ?p")
    case True
    have "act_spec (\<lambda>s. log_state node s = Some (worker_session w))
       (act_bind (ClientWorker_close (traced K) w) (\<lambda>(_, w1).
          act_bind (cl_create (traced K)) (\<lambda>c.
            act_bind (cl_open (traced K) (w_node w1) c) (\<lambda>(_, c').
              act_return (w1\<lparr>w_client := Some c', w_process := ?p\<rparr>)))))
       (\<lambda>w2 s. log_state node s = Some (Opened None) \<and>
          (\<exists>c. w2 = w\<lparr>w_client := Some c, w_process := ?p\<rparr>))
       (log_ok node)"
      by (rule act_spec_bind [OF ClientWorker_close_session])
        (use fresh [of "w\<lparr>w_client := None\<rparr>"] in \<open>auto simp: act_spec_pure\<close>)
    then show ?thesis
      unfolding ClientWorker_invoke_def if_P [OF True]
    proof (rule act_spec_bind)
      fix w2
      show "act_spec (\<lambda>s. log_state node s = Some (Opened None) \<and>
          (\<exists>c. w2 = w\<lparr>w_client := Some c, w_process := ?p\<rparr>))
        (case w_client w2 of None \<Rightarrow> act_raise NullDeref
         | Some c \<Rightarrow> act_bind (cl_invoke (traced K) op c)
             (\<lambda>(b, op', c'). act_return (b, op', w2\<lparr>w_client := Some c'\<rparr>)))
        (\<lambda>(b, op', w') s. log_state node s = Some (worker_session w')) (log_ok node)"
        unfolding act_spec_pure
      proof
        assume "\<exists>c. w2 = w\<lparr>w_client := Some c, w_process := ?p\<rparr>"
        then obtain c where w2: "w_client w2 = Some c" "w_process w2 = ?p" by auto
        show "act_spec (\<lambda>s. log_state node s = Some (Opened None))
          (case w_client w2 of None \<Rightarrow> act_raise NullDeref
           | Some c \<Rightarrow> act_bind (cl_invoke (traced K) op c)
               (\<lambda>(b, op', c'). act_return (b, op', w2\<lparr>w_client := Some c'\<rparr>)))
          (\<lambda>(b, op', w') s. log_state node s = Some (worker_session w')) (log_ok node)"
          unfolding w2(1) option.case by (rule client_invoke_session) (use w2 in auto)
      qed
    qed
  next
    case False
    show ?thesis
      unfolding ClientWorker_invoke_def if_not_P [OF False]
    proof (rule act_spec_bind [where I =
          "\<lambda>w2 s. log_state node s = Some (worker_session w) \<and> w2 = w"])
      fix w2
      show "act_spec (\<lambda>s. log_state node s = Some (worker_session w) \<and> w2 = w)
        (case w_client w2 of None \<Rightarrow> act_raise NullDeref
         | Some c \<Rightarrow> act_bind (cl_invoke (traced K) op c)
             (\<lambda>(b, op', c'). act_return (b, op', w2\<lparr>w_client := Some c'\<rparr>)))
        (\<lambda>(b, op', w') s. log_state node s = Some (worker_session w')) (log_ok node)"
      proof (cases "w_client w")
        case None
        then show ?thesis by (auto simp: act_spec_pure intro!: act_spec_raise)
      next
        case (Some c)
        then have "worker_session w = Opened (Some ?p)"
          using False by (simp add: worker_session_def)
        then show ?thesis
          using client_invoke_session [OF Some, of "worker_session w" op node K] False Some
          by (auto simp: act_spec_pure)
      qed
    qed (auto intro: act_spec_return)
  qed
qed

text \<open>
  However often a client worker goes through its loop, and whichever of the calls raise, the
  calls its clients receive follow the protocol.
\<close>

lemma runAsync_iter_session:
  assumes "w_kind w = ClientKind" and "w_node w = node"
    and "log_state node s = Some (worker_session w)"
    and it: "runAsync_iter (traced K) N w s = (w', out1, s')"
  shows "log_ok node s'"
    and "w_status w' = Running \<Longrightarrow> log_state node s' = Some (worker_session w')"
proof -
  have *: "log_ok node s' \<and>
    (w_status w' = Running \<longrightarrow> log_state node s' = Some (worker_session w'))"
  proof (cases "w_in w")
    case Nil
    then show ?thesis using assms by auto
  next
    case (Cons op q)
    let ?w = "w\<lparr>w_in := q\<rparr>"
    have session: "log_state node s = Some (worker_session ?w)"
      using assms(3) by (simp add: worker_session_def)
    show ?thesis
    proof (cases "op_type op = kExit")
      case True
      obtain res s1 where close: "ClientWorker_close (traced K) ?w s = (res, s1)"
        by (cases "ClientWorker_close (traced K) ?w s")
      have "log_ok node s1"
        using act_specD [OF ClientWorker_close_session session, of K] close
        by (cases res) auto
      then show ?thesis
        using it Cons True close assms(1)
        by (auto simp: runAsync_iter_def Worker_close_def Let_def split: sum.splits)
    next
      case False
      obtain res s1 where inv: "ClientWorker_invoke (traced K) op ?w s = (res, s1)"
        by (cases "ClientWorker_invoke (traced K) op ?w s")
      note spec = act_specD [OF ClientWorker_invoke_session [of ?w node K op] session]
      show ?thesis
      proof (cases res)
        case (Inl e)
        then show ?thesis
          using it Cons False inv assms(1,2) spec(2)
          by (auto simp: runAsync_iter_def Worker_invoke_def Let_def)
      next
        case (Inr x)
        obtain b op' w2 where "x = (b, op', w2)" by (cases x) auto
        then show ?thesis
          using it Cons False inv assms(1,2) spec(1) Inr
          by (auto simp: runAsync_iter_def Worker_invoke_def Let_def)
      qed
    qed
  qed
  show "log_ok node s'" using * by blast
  show "w_status w' = Running \<Longrightarrow> log_state node s' = Some (worker_session w')" using * by blast
qed

lemma runAsync_iter_frame:
  assumes "runAsync_iter K N w s = (w', out1, s')" and "w_kind w = ClientKind"
  shows "w_kind w' = w_kind w" and "w_node w' = w_node w"
  using assms
  by (auto simp: runAsync_iter_def Let_def Worker_close_def
      split: list.splits if_splits prod.splits sum.splits
      dest: ClientWorker_close_cases Worker_invoke_frame(1,3))

lemma worker_iters_session:
  assumes "w_kind w = ClientKind" and "w_node w = node"
    and "log_state node s = Some (worker_session w)"
    and "worker_iters (traced K) N n w s = (w', out1, s')"
  shows "log_ok node s'"
  using assms
proof (induction n arbitrary: w s out1)
  case 0
  then show ?case by auto
next
  case (Suc n)
  show ?case
  proof (cases "w_status w = Running")
    case False
    then show ?thesis using Suc.prems by auto
  next
    case True
    obtain w1 o1 s1 where it: "runAsync_iter (traced K) N w s = (w1, o1, s1)"
      by (cases "runAsync_iter (traced K) N w s") auto
    obtain o2 where rest: "worker_iters (traced K) N n w1 s1 = (w', o2, s')"
      using Suc.prems(4) it True by (auto split: prod.splits)
    note one = runAsync_iter_session [OF Suc.prems(1-3) it]
    note frame = runAsync_iter_frame [OF it Suc.prems(1)]
    show ?thesis
    proof (cases "w_status w1 = Running")
      case True
      then show ?thesis
        using Suc.IH [of w1 s1 o2] one(2) frame rest Suc.prems(1,2) by simp
    next
      case False
      then show ?thesis using rest one(1) by (cases n) auto
    qed
  qed
qed

end
