(* ===== verification/Runner.thy ===== *)
theory Runner
  imports Generator_Emission Workers
begin

text \<open>
  The scheduler (\<open>Runner::runCases\<close> of \<open>src/jepsen/Runner.cpp\<close>) together with the worker
  threads it starts.

  \<^item> \<open>run_state\<close> is what the loop keeps between iterations; an iteration either takes a
    completed operation (\<open>run_complete\<close>) or asks the generator (\<open>run_poll\<close>). The clock and
    the draws of an iteration are arguments. The runner is written over a generator interface
    \<open>gop\<close>, \<open>gupd\<close>, for which the program puts \<open>generator::op\<close> and \<open>generator::update\<close>.
  \<^item> \<open>sys\<close> adds the workers, the completion queue and the world of the clients;
    \<open>sys_step\<close> interleaves the loop with the iterations of the workers. The completion queue
    is a concurrent queue of a third-party library: an iteration may take any element of it,
    and may find nothing even when there is one.
\<close>

section \<open>The state\<close>

datatype phase = Polling | Joining | Done | Aborted fault

record run_state =
  r_ctx :: ctx
  r_gen :: gen_ptr
  r_outstanding :: int
  r_timeout :: int
  r_history :: "operation list"
  r_phase :: phase

record ('c, 'w) sys =
  s_run :: run_state
  s_workers :: "(int \<times> 'c worker) list"
  s_completions :: "operation list"
  s_world :: 'w

type_synonym upd_fun = "gen_ptr \<Rightarrow> ctx \<Rightarrow> operation \<Rightarrow> gen_ptr res"

definition kMaxPendingInterval :: int where
  "kMaxPendingInterval = 1000"

section \<open>Initialisation\<close>

definition init_workers ::
  "('c, 'w) client_class \<Rightarrow> string list \<Rightarrow> int \<Rightarrow> ('w, (int \<times> 'c worker) list) act" where
  "init_workers N nodes n =
     (if 0 < n \<and> nodes = [] then act_raise DivByZero
      else act_bind (NemesisWorker N kNemesisProcess) (\<lambda>nw.
        act_return
          (map (\<lambda>i. (i, ClientWorker i (nodes ! nat (i mod int (length nodes))))) [0..n - 1]
             @ [(kNemesisProcess, nw)])))"

definition init_ctx :: "int \<Rightarrow> int \<Rightarrow> ctx" where
  "init_ctx now n =
     (Context_init now n)
       \<lparr>workers := map (\<lambda>i. (i, i)) [0..n - 1] @ [(kNemesisProcess, kNemesisProcess)]\<rparr>"

definition setGenerator :: "gen_ptr \<Rightarrow> gen_ptr" where
  "setGenerator g = createValidate g"

definition runCases_init ::
  "('c, 'w) client_class \<Rightarrow> string list \<Rightarrow> int \<Rightarrow> int \<Rightarrow> gen_ptr \<Rightarrow> 'w \<Rightarrow> ('c, 'w) sys res" where
  "runCases_init N nodes n now g s =
     (case init_workers N nodes n s of
        (Inl e, s') \<Rightarrow> Inl e
      | (Inr ws, s') \<Rightarrow>
          Inr \<lparr>s_run = \<lparr>r_ctx = init_ctx now n, r_gen = g, r_outstanding = 0, r_timeout = 0,
                        r_history = [], r_phase = Polling\<rparr>,
               s_workers = ws, s_completions = [], s_world = s'\<rparr>)"

section \<open>An iteration of the loop\<close>

text \<open>A completed operation has been taken from the queue.\<close>

definition run_complete :: "upd_fun \<Rightarrow> int \<Rightarrow> operation \<Rightarrow> run_state \<Rightarrow> run_state res" where
  "run_complete gupd now op0 rs =
     (let thread = processToThread (r_ctx rs) (op_process op0);
          op1 = op0\<lparr>op_time := now\<rparr>;
          c1 = (r_ctx rs)\<lparr>ctx_time := now,
                          free_threads := set_insert thread (free_threads (r_ctx rs))\<rparr> in
      bind_res (gupd (r_gen rs) c1 op1) (\<lambda>g.
        bind_res
          (if op_process op1 \<noteq> kNemesisProcess \<and> op_type op1 = kInfo then
             bind_res (nextProcess c1 thread) (\<lambda>(p, c2).
               Inr (c2\<lparr>workers := AList.update thread p (workers c2)\<rparr>))
           else Inr c1)
          (\<lambda>c3. bind_res (add_i32 (r_outstanding rs) (- 1)) (\<lambda>out.
            Inr (rs\<lparr>r_ctx := c3, r_gen := g, r_history := r_history rs @ [op1],
                    r_outstanding := out, r_timeout := 0\<rparr>)))))"

text \<open>The generator answered with an operation that is due.\<close>

definition dispatch ::
  "upd_fun \<Rightarrow> operation \<Rightarrow> gen_ptr \<Rightarrow> run_state \<Rightarrow> (int \<times> 'c worker) list
     \<Rightarrow> (run_state \<times> (int \<times> 'c worker) list) res" where
  "dispatch gupd op1 gen2 rs ws =
     (let thread = processToThread (r_ctx rs) (op_process op1) in
      case map_of ws thread of
        None \<Rightarrow> Inl NullDeref
      | Some w \<Rightarrow>
          let c1 = (r_ctx rs)\<lparr>ctx_time := op_time op1,
                              free_threads := set_erase thread (free_threads (r_ctx rs))\<rparr> in
          bind_res (gupd gen2 c1 op1) (\<lambda>g.
            bind_res (add_i32 (r_outstanding rs) 1) (\<lambda>out.
              Inr (rs\<lparr>r_ctx := c1, r_gen := g, r_history := r_history rs @ [op1],
                      r_outstanding := out, r_timeout := 0\<rparr>,
                   AList.update thread (putOp op1 w) ws))))"

definition run_poll ::
  "op_fun \<Rightarrow> upd_fun \<Rightarrow> int \<Rightarrow> rng \<Rightarrow> run_state \<Rightarrow> (int \<times> 'c worker) list
     \<Rightarrow> (run_state \<times> (int \<times> 'c worker) list) res" where
  "run_poll gop gupd now r rs ws =
     (let c0 = (r_ctx rs)\<lparr>ctx_time := now\<rparr> in
      bind_res (gop (r_gen rs) c0 r) (\<lambda>((op1, gen2), g', _).
        let rs1 = rs\<lparr>r_ctx := c0, r_gen := g'\<rparr> in
        if op_type op1 = kNil \<or> op_type op1 = kExit then
          if r_outstanding rs > 0 then Inr (rs1\<lparr>r_timeout := kMaxPendingInterval\<rparr>, ws)
          else Inr (rs1\<lparr>r_phase := Joining\<rparr>, map (\<lambda>(t, w). (t, putOp factory_exit w)) ws)
        else if op_type op1 = kPending then Inr (rs1\<lparr>r_timeout := kMaxPendingInterval\<rparr>, ws)
        else if now < op_time op1 then
          bind_res (add_i64 (op_time op1) (- now)) (\<lambda>d. Inr (rs1\<lparr>r_timeout := d div 1000\<rparr>, ws))
        else dispatch gupd op1 gen2 rs1 ws))"

section \<open>The system\<close>

inductive sys_step ::
  "op_fun \<Rightarrow> upd_fun \<Rightarrow> ('c, 'w) client_class \<Rightarrow> ('c, 'w) client_class
     \<Rightarrow> ('c, 'w) sys \<Rightarrow> ('c, 'w) sys \<Rightarrow> bool"
  for gop gupd K N
where
  complete:
    "r_phase (s_run s) = Polling \<Longrightarrow> s_completions s = xs @ op1 # ys \<Longrightarrow>
     run_complete gupd now op1 (s_run s) = Inr rs \<Longrightarrow>
     sys_step gop gupd K N s (s\<lparr>s_run := rs, s_completions := xs @ ys\<rparr>)"
| complete_fault:
    "r_phase (s_run s) = Polling \<Longrightarrow> s_completions s = xs @ op1 # ys \<Longrightarrow>
     run_complete gupd now op1 (s_run s) = Inl e \<Longrightarrow>
     sys_step gop gupd K N s (s\<lparr>s_run := (s_run s)\<lparr>r_phase := Aborted e\<rparr>\<rparr>)"
| poll:
    "r_phase (s_run s) = Polling \<Longrightarrow>
     run_poll gop gupd now r (s_run s) (s_workers s) = Inr (rs, ws) \<Longrightarrow>
     sys_step gop gupd K N s (s\<lparr>s_run := rs, s_workers := ws\<rparr>)"
| poll_fault:
    "r_phase (s_run s) = Polling \<Longrightarrow>
     run_poll gop gupd now r (s_run s) (s_workers s) = Inl e \<Longrightarrow>
     sys_step gop gupd K N s (s\<lparr>s_run := (s_run s)\<lparr>r_phase := Aborted e\<rparr>\<rparr>)"
| work:
    "r_phase (s_run s) \<in> {Polling, Joining} \<Longrightarrow> map_of (s_workers s) t = Some w \<Longrightarrow>
     w_status w = Running \<Longrightarrow> runAsync_iter K N w (s_world s) = (w', out, v) \<Longrightarrow>
     sys_step gop gupd K N s
       (s\<lparr>s_workers := AList.update t w' (s_workers s),
          s_completions := s_completions s @ out, s_world := v\<rparr>)"
| join:
    "r_phase (s_run s) = Joining \<Longrightarrow> \<forall>(t, w) \<in> set (s_workers s). w_status w = Finished \<Longrightarrow>
     sys_step gop gupd K N s (s\<lparr>s_run := (s_run s)\<lparr>r_phase := Done\<rparr>\<rparr>)"
| join_fault:
    "r_phase (s_run s) = Joining \<Longrightarrow> (t, w) \<in> set (s_workers s) \<Longrightarrow> w_status w = Crashed e \<Longrightarrow>
     sys_step gop gupd K N s (s\<lparr>s_run := (s_run s)\<lparr>r_phase := Aborted e\<rparr>\<rparr>)"

definition sys_steps ::
  "op_fun \<Rightarrow> upd_fun \<Rightarrow> ('c, 'w) client_class \<Rightarrow> ('c, 'w) client_class
     \<Rightarrow> ('c, 'w) sys \<Rightarrow> ('c, 'w) sys \<Rightarrow> bool" where
  "sys_steps gop gupd K N = (sys_step gop gupd K N)\<^sup>*\<^sup>*"

text \<open>
  The same as a function of a schedule: which element of the completion queue is taken and
  when, when the generator is asked and with which draws, which worker goes on.
\<close>

datatype action = Take nat int | Ask int rng | Work int | JoinAll

fun sys_exec ::
  "op_fun \<Rightarrow> upd_fun \<Rightarrow> ('c, 'w) client_class \<Rightarrow> ('c, 'w) client_class \<Rightarrow> action
     \<Rightarrow> ('c, 'w) sys \<Rightarrow> ('c, 'w) sys option" where
  "sys_exec gop gupd K N (Take i now) s =
     (if r_phase (s_run s) = Polling \<and> i < length (s_completions s) then
        (case run_complete gupd now (s_completions s ! i) (s_run s) of
           Inl e \<Rightarrow> Some (s\<lparr>s_run := (s_run s)\<lparr>r_phase := Aborted e\<rparr>\<rparr>)
         | Inr rs \<Rightarrow> Some (s\<lparr>s_run := rs, s_completions :=
               take i (s_completions s) @ drop (Suc i) (s_completions s)\<rparr>))
      else None)"
| "sys_exec gop gupd K N (Ask now r) s =
     (if r_phase (s_run s) = Polling then
        (case run_poll gop gupd now r (s_run s) (s_workers s) of
           Inl e \<Rightarrow> Some (s\<lparr>s_run := (s_run s)\<lparr>r_phase := Aborted e\<rparr>\<rparr>)
         | Inr (rs, ws) \<Rightarrow> Some (s\<lparr>s_run := rs, s_workers := ws\<rparr>))
      else None)"
| "sys_exec gop gupd K N (Work t) s =
     (if r_phase (s_run s) = Polling \<or> r_phase (s_run s) = Joining then
        (case map_of (s_workers s) t of
           None \<Rightarrow> None
         | Some w \<Rightarrow>
             if w_status w = Running then
               (case runAsync_iter K N w (s_world s) of (w', out, v) \<Rightarrow>
                  Some (s\<lparr>s_workers := AList.update t w' (s_workers s),
                          s_completions := s_completions s @ out, s_world := v\<rparr>))
             else None)
      else None)"
| "sys_exec gop gupd K N JoinAll s =
     (if r_phase (s_run s) = Joining \<and> list_all (\<lambda>(t, w). w_status w = Finished) (s_workers s)
      then Some (s\<lparr>s_run := (s_run s)\<lparr>r_phase := Done\<rparr>\<rparr>) else None)"

fun sys_execs ::
  "op_fun \<Rightarrow> upd_fun \<Rightarrow> ('c, 'w) client_class \<Rightarrow> ('c, 'w) client_class \<Rightarrow> action list
     \<Rightarrow> ('c, 'w) sys \<Rightarrow> ('c, 'w) sys option" where
  "sys_execs gop gupd K N [] s = Some s"
| "sys_execs gop gupd K N (a # as) s =
     (case sys_exec gop gupd K N a s of None \<Rightarrow> None | Some s' \<Rightarrow> sys_execs gop gupd K N as s')"

lemma sys_exec_step: "sys_exec gop gupd K N a s = Some s' \<Longrightarrow> sys_step gop gupd K N s s'"
proof (induction gop gupd K N a s rule: sys_exec.induct)
  case (1 gop gupd K N i now s)
  then have polling: "r_phase (s_run s) = Polling" and i: "i < length (s_completions s)"
    by (auto split: if_splits)
  note split = id_take_nth_drop [OF i]
  show ?case
    using 1 polling i sys_step.complete [OF polling split, of gupd now _ gop K N]
      sys_step.complete_fault [OF polling split, of gupd now _ gop K N]
    by (auto split: sum.splits)
next
  case (4 gop gupd K N s)
  then show ?case
    by (auto simp: list_all_iff intro: sys_step.join split: if_splits)
qed (auto intro: sys_step.intros split: if_splits sum.splits option.splits prod.splits)

lemma sys_execs_steps: "sys_execs gop gupd K N as s = Some s' \<Longrightarrow> sys_steps gop gupd K N s s'"
proof (induction as arbitrary: s)
  case Nil
  then show ?case by (simp add: sys_steps_def)
next
  case (Cons a as)
  then obtain s1 where s1: "sys_exec gop gupd K N a s = Some s1"
    "sys_execs gop gupd K N as s1 = Some s'"
    by (auto split: option.splits)
  then have "sys_step gop gupd K N s s1" "sys_steps gop gupd K N s1 s'"
    using sys_exec_step Cons.IH by auto
  then show ?case unfolding sys_steps_def by (rule converse_rtranclp_into_rtranclp)
qed

section \<open>Histories of a process\<close>

definition proc_ops :: "int \<Rightarrow> operation list \<Rightarrow> operation list" where
  "proc_ops p h = filter (\<lambda>o1. op_process o1 = p) h"

text \<open>
  Read from left to right, invocations and completions take turns; the result says whether
  an invocation is still open. \<open>C\<close> is the set of types a completion can have.
\<close>

fun open_after :: "op_kind set \<Rightarrow> bool \<Rightarrow> operation list \<Rightarrow> bool option" where
  "open_after C b [] = Some b"
| "open_after C b (o1 # os) =
     (if b then if op_type o1 \<in> C then open_after C False os else None
      else if op_type o1 = kInvoke then open_after C True os else None)"

lemma open_after_append:
  "open_after C b (xs @ ys) =
     (case open_after C b xs of None \<Rightarrow> None | Some b' \<Rightarrow> open_after C b' ys)"
  by (induction C b xs rule: open_after.induct) auto

lemma proc_ops_append [simp]: "proc_ops p (xs @ ys) = proc_ops p xs @ proc_ops p ys"
  by (simp add: proc_ops_def)

lemma proc_ops_Cons [simp]:
  "proc_ops p (o1 # os) = (if op_process o1 = p then o1 # proc_ops p os else proc_ops p os)"
  by (simp add: proc_ops_def)

lemma proc_ops_Nil [simp]: "proc_ops p [] = []"
  by (simp add: proc_ops_def)

end
