(* ===== verification/Runner_Invariant.thy ===== *)
theory Runner_Invariant
  imports Runner
begin

text \<open>
  The invariant of the scheduler and its preservation by every step of the system.

  \<^item> \<open>generator_iface\<close> is what the loop needs of a generator, interpreted on
    \<open>generator::op\<close>/\<open>update\<close>; \<open>runner_system\<close> adds the registered client and nemesis.
  \<^item> \<open>accounts\<close> relates the context, the workers and the completion queue: every client
    thread that is not free has exactly one operation under way, for the process the thread
    runs now, and \<open>outstanding\<close> counts what is under way.
  \<^item> \<open>histories\<close> relates the history to the context, process by process.
\<close>

section \<open>What the loop needs of a generator\<close>

locale generator_iface =
  fixes gop :: op_fun and gupd :: upd_fun and ginv :: "gen_ptr \<Rightarrow> bool"
  assumes g_op: "ctx_wf c \<Longrightarrow> ginv g \<Longrightarrow> gop g c r = Inr ((o1, g2), g', r') \<Longrightarrow>
      ginv g2 \<and> ginv g' \<and> op_type o1 \<in> {kInvoke, kNil, kPending} \<and>
      (op_type o1 = kInvoke \<longrightarrow> op_process o1 \<in> insert kNemesisProcess (free_procs c))"
    and g_upd: "ginv g \<Longrightarrow> \<exists>g'. gupd g c e = Inr g' \<and> ginv g'"
    and g_fault: "ctx_wf c \<Longrightarrow> ginv g \<Longrightarrow> gop g c r = Inl x \<Longrightarrow> x \<in> op_faults"
begin

lemma g_nil: "ginv g \<Longrightarrow> gupd g c e \<noteq> Inl x"
  using g_upd [of g c e] by auto

end

text \<open>
  The operations a test may put into a generator: fresh or invocations, without a process or
  for the nemesis.
\<close>

definition schedulable :: "operation \<Rightarrow> bool" where
  "schedulable o1 \<longleftrightarrow> op_type o1 \<in> {kInit, kInvoke} \<and>
     op_process o1 \<in> {kInvalidProcess, kNemesisProcess}"

definition good_gen :: "gen_ptr \<Rightarrow> bool" where
  "good_gen g \<longleftrightarrow> all_ptr (raw_node schedulable) g"

lemma good_gen_op:
  assumes "ctx_wf c" and "good_gen g" and "gen_op d g c r = Inr ((o1, g2), g', r')"
  shows "good_gen g2" "good_gen g'" "op_type o1 \<in> {kInvoke, kNil, kPending}"
    "is_real o1 \<Longrightarrow> op_process o1 \<in> insert kNemesisProcess (free_procs c)"
proof -
  have all: "all_ptr (raw_node schedulable) g" using assms(2) by (simp add: good_gen_def)
  show "good_gen g2" "good_gen g'"
    using raw.gen_op_keeps [OF assms(1) all assms(3)] by (simp_all add: good_gen_def)
  have P: "all_ptr (raw_node (\<lambda>o1. op_type o1 \<in> {kInit, kInvoke})) g"
    "all_ptr (raw_node (\<lambda>o1. op_process o1 \<in> insert kInvalidProcess {kNemesisProcess})) g"
    by (rule all_nodes_mono(2) [OF _ all],
        auto simp: schedulable_def intro: raw_node_mono [of schedulable])+
  show "op_type o1 \<in> {kInvoke, kNil, kPending}"
    by (rule typing.gen_op_emitted [OF assms(1) P(1) assms(3)])
  show "is_real o1 \<Longrightarrow> op_process o1 \<in> insert kNemesisProcess (free_procs c)"
    using addressing.gen_op_emitted [OF assms(1) P(2) assms(3)] by (simp add: addressed_def)
qed

interpretation scheduling: generator_iface "gen_op d" gen_update good_gen for d
proof unfold_locales
  fix c g r o1 g2 g' r'
  assume "ctx_wf c" "good_gen g" "gen_op d g c r = Inr ((o1, g2), g', r')"
  note facts = good_gen_op [OF this]
  show "good_gen g2 \<and> good_gen g' \<and> op_type o1 \<in> {kInvoke, kNil, kPending} \<and>
    (op_type o1 = kInvoke \<longrightarrow> op_process o1 \<in> insert kNemesisProcess (free_procs c))"
    using facts by (auto simp: is_real_def)
next
  fix g c e
  show "good_gen g \<Longrightarrow> \<exists>g'. gen_update g c e = Inr g' \<and> good_gen g'"
    using raw.update_ok(1) [of schedulable g c e] by (auto simp: good_gen_def)
next
  fix c g r and e :: fault
  show "ctx_wf c \<Longrightarrow> good_gen g \<Longrightarrow> gen_op d g c r = Inl e \<Longrightarrow> e \<in> op_faults"
    using raw.gen_op_fault [of c schedulable g d r e] by (simp add: good_gen_def)
qed

section \<open>The invariant\<close>

definition load :: "'c worker \<Rightarrow> nat" where
  "load w = length (w_in w) + (if w_status w = Running then 0 else 1)"

text \<open>Worker \<open>t\<close> only holds invocations of the process its thread runs.\<close>

definition worker_ok :: "ctx \<Rightarrow> int \<Rightarrow> 'c worker \<Rightarrow> bool" where
  "worker_ok c t w \<longleftrightarrow>
     (\<forall>o1 \<in> set (w_in w). op_type o1 = kInvoke \<and> map_of (workers c) t = Some (op_process o1)) \<and>
     w_status w \<noteq> Finished \<and> (w_kind w = ClientKind \<longleftrightarrow> t \<noteq> kNemesisProcess)"

definition completion_ok :: "op_kind set \<Rightarrow> ctx \<Rightarrow> operation \<Rightarrow> bool" where
  "completion_ok C c o1 \<longleftrightarrow>
     (\<exists>t. map_of (workers c) t = Some (op_process o1) \<and> (t \<noteq> kNemesisProcess \<longrightarrow> op_type o1 \<in> C))"

definition thread_ok :: "ctx \<Rightarrow> int \<Rightarrow> 'c worker \<Rightarrow> operation list \<Rightarrow> bool" where
  "thread_ok c t w cs \<longleftrightarrow>
     (\<forall>p. map_of (workers c) t = Some p \<longrightarrow> t \<noteq> kNemesisProcess \<longrightarrow>
        load w + length (proc_ops p cs) = (if t \<in> set (free_threads c) then 0 else 1))"

definition accounts ::
  "int \<Rightarrow> op_kind set \<Rightarrow> ctx \<Rightarrow> int \<Rightarrow> (int \<times> 'c worker) list \<Rightarrow> operation list \<Rightarrow> bool" where
  "accounts n C c out ws cs \<longleftrightarrow>
     ctx_inv n c \<and> distinct (map fst ws) \<and> set (map fst ws) = insert kNemesisProcess {0..<n} \<and>
     (\<forall>t w. map_of ws t = Some w \<longrightarrow> worker_ok c t w \<and> thread_ok c t w cs) \<and>
     (\<forall>o1 \<in> set cs. completion_ok C c o1) \<and>
     out = int (sum_list (map (\<lambda>(t, w). load w) ws) + length cs)"

text \<open>
  The history of a process: none for a process that is still to come; for the process a
  thread runs now, invocations and completions in turn, the last one open iff the thread is
  not free, and no indeterminate completion; for a process that has been given up, the same,
  closed, and the last completion is the only indeterminate one.
\<close>

definition retired :: "op_kind set \<Rightarrow> operation list \<Rightarrow> bool" where
  "retired C h \<longleftrightarrow> open_after C False h = Some False \<and> h \<noteq> [] \<and> op_type (last h) = kInfo \<and>
     (\<forall>o1 \<in> set (butlast h). op_type o1 \<noteq> kInfo)"

definition proc_ok :: "int \<Rightarrow> op_kind set \<Rightarrow> ctx \<Rightarrow> operation list \<Rightarrow> int \<Rightarrow> bool" where
  "proc_ok n C c h q \<longleftrightarrow>
     (\<forall>p. map_of (workers c) (q mod n) = Some p \<longrightarrow>
        (q < p \<longrightarrow> retired C (proc_ops q h)) \<and>
        (q = p \<longrightarrow>
           open_after C False (proc_ops q h) = Some (q mod n \<notin> set (free_threads c)) \<and>
           (\<forall>o1 \<in> set (proc_ops q h). op_type o1 \<noteq> kInfo)) \<and>
        (p < q \<longrightarrow> proc_ops q h = []))"

definition histories :: "int \<Rightarrow> op_kind set \<Rightarrow> ctx \<Rightarrow> operation list \<Rightarrow> bool" where
  "histories n C c h \<longleftrightarrow> (\<forall>q \<ge> 0. proc_ok n C c h q)"

lemma accountsD:
  assumes "accounts n C c out ws cs"
  shows "ctx_inv n c" "distinct (map fst ws)" "set (map fst ws) = insert kNemesisProcess {0..<n}"
    "\<And>t w. map_of ws t = Some w \<Longrightarrow> worker_ok c t w"
    "\<And>t w. map_of ws t = Some w \<Longrightarrow> thread_ok c t w cs"
    "\<And>o1. o1 \<in> set cs \<Longrightarrow> completion_ok C c o1"
    "out = int (sum_list (map (\<lambda>(t, w). load w) ws) + length cs)"
  using assms unfolding accounts_def by blast+

section \<open>Association lists of workers\<close>

lemma sum_list_update_key:
  assumes "map_of ws t = Some w"
  shows "sum_list (map (\<lambda>(t, w). f w) (AList.update t w' ws)) + f w =
    sum_list (map (\<lambda>(t, w). f w) ws) + (f w' :: nat)"
  using assms by (induction ws) (auto split: if_splits)

lemma update_present_keys:
  "map_of ws t = Some w \<Longrightarrow> set (map fst (AList.update t w' ws)) = set (map fst ws)"
  by (auto simp: dom_update dest: map_of_SomeD) (metis dom_update fst_conv image_eqI insert_absorb
      map_of_SomeD set_map)

lemma proc_ops_absent: "(\<And>o1. o1 \<in> set cs \<Longrightarrow> op_process o1 \<noteq> p) \<Longrightarrow> proc_ops p cs = []"
  by (auto simp: proc_ops_def filter_empty_conv)

lemma proc_ops_all: "(\<And>o1. o1 \<in> set cs \<Longrightarrow> op_process o1 = p) \<Longrightarrow> proc_ops p cs = cs"
  by (simp add: proc_ops_def)

section \<open>A worker goes through its loop\<close>

lemma accounts_worker:
  assumes acc: "accounts n C c out ws cs" and w: "map_of ws t = Some w"
    and w': "worker_ok c t w'" and load: "load w' + length os = load w"
    and os: "\<And>o1. o1 \<in> set os \<Longrightarrow> completion_ok C c o1 \<and> map_of (workers c) t = Some (op_process o1)"
  shows "accounts n C c out (AList.update t w' ws) (cs @ os)"
proof -
  note A = accountsD [OF acc]
  have thread: "thread_ok c u v (cs @ os)" if v: "map_of (AList.update t w' ws) u = Some v" for u v
    unfolding thread_ok_def
  proof (intro allI impI)
    fix p assume p: "map_of (workers c) u = Some p" "u \<noteq> kNemesisProcess"
    show "load v + length (proc_ops p (cs @ os)) = (if u \<in> set (free_threads c) then 0 else 1)"
    proof (cases "u = t")
      case True
      have "proc_ops p os = os" using os p True by (intro proc_ops_all) auto
      then show ?thesis
        using A(5) [OF w] p load v True by (simp add: thread_ok_def update_conv')
    next
      case False
      have "proc_ops p os = []"
      proof (rule proc_ops_absent)
        fix o1 assume "o1 \<in> set os"
        then have "map_of (workers c) t = Some (op_process o1)" using os by blast
        then show "op_process o1 \<noteq> p" using ctx_inv_process_inj [OF A(1) _ p(1)] False by blast
      qed
      then show ?thesis
        using A(5) [of u v] p v False by (simp add: thread_ok_def update_conv')
    qed
  qed
  have "worker_ok c u v" if "map_of (AList.update t w' ws) u = Some v" for u v
    using that A(4) [of u v] w' by (auto simp: update_conv' split: if_splits)
  moreover have "sum_list (map (\<lambda>(t, w). load w) (AList.update t w' ws)) + length (cs @ os) =
      sum_list (map (\<lambda>(t, w). load w) ws) + length cs"
    using sum_list_update_key [OF w, of load w'] load by simp
  moreover have "set (map fst (AList.update t w' ws)) = insert kNemesisProcess {0..<n}"
    using update_present_keys [OF w] A(3) by blast
  ultimately show ?thesis
    unfolding accounts_def using A thread os
    by (auto simp: AList.distinct_update simp del: set_map)
qed

section \<open>An operation is dispatched\<close>

definition dispatch_ctx :: "operation \<Rightarrow> int \<Rightarrow> ctx \<Rightarrow> ctx" where
  "dispatch_ctx op1 t c =
     c\<lparr>ctx_time := op_time op1, free_threads := set_erase t (free_threads c)\<rparr>"

lemma ctx_inv_dispatch: "ctx_inv n c \<Longrightarrow> ctx_inv n (dispatch_ctx op1 t c)"
  by (auto simp: ctx_inv_def dispatch_ctx_def ascending_set_erase)

lemma accounts_dispatch:
  assumes acc: "accounts n C c out ws cs" and w: "map_of ws t = Some w"
    and p: "map_of (workers c) t = Some (op_process op1)" and type: "op_type op1 = kInvoke"
    and free: "t = kNemesisProcess \<or> t \<in> set (free_threads c)"
  shows "accounts n C (dispatch_ctx op1 t c) (out + 1) (AList.update t (putOp op1 w) ws) cs"
proof -
  note A = accountsD [OF acc]
  let ?c = "dispatch_ctx op1 t c" and ?ws = "AList.update t (putOp op1 w) ws"
  have load: "load (putOp op1 w) = load w + 1" by (simp add: load_def putOp_def)
  have ws: "workers ?c = workers c" by (simp add: dispatch_ctx_def)
  have fr: "set (free_threads ?c) = set (free_threads c) - {t}" by (simp add: dispatch_ctx_def)
  have "worker_ok ?c u v \<and> thread_ok ?c u v cs" if v: "map_of ?ws u = Some v" for u v
  proof (cases "u = t")
    case True
    then show ?thesis
      using A(4,5) [OF w] v p type load free
      by (auto simp: worker_ok_def thread_ok_def ws fr update_conv' putOp_def)
  next
    case False
    then show ?thesis
      using A(4,5) [of u v] v by (auto simp: worker_ok_def thread_ok_def ws fr update_conv')
  qed
  moreover have "sum_list (map (\<lambda>(t, w). load w) ?ws) = sum_list (map (\<lambda>(t, w). load w) ws) + 1"
    using sum_list_update_key [OF w, of load "putOp op1 w"] load by simp
  moreover have "set (map fst ?ws) = insert kNemesisProcess {0..<n}"
    using update_present_keys [OF w] A(3) by blast
  moreover have "completion_ok C ?c o1" if "o1 \<in> set cs" for o1
    using A(6) [OF that] by (simp add: completion_ok_def ws)
  ultimately show ?thesis
    unfolding accounts_def using A(1,2,7) ctx_inv_dispatch [OF A(1), of op1 t]
    by (auto simp: AList.distinct_update simp del: set_map)
qed

lemma histories_dispatch:
  assumes inv: "ctx_inv n c" and hist: "histories n C c h"
    and p: "map_of (workers c) t = Some (op_process op1)" and type: "op_type op1 = kInvoke"
    and free: "t = kNemesisProcess \<or> t \<in> set (free_threads c)"
  shows "histories n C (dispatch_ctx op1 t c) (h @ [op1])"
  unfolding histories_def
proof (intro allI impI)
  fix q :: int assume q: "0 \<le> q"
  have ok: "proc_ok n C c h q" using hist q by (simp add: histories_def)
  have ws: "workers (dispatch_ctx op1 t c) = workers c" by (simp add: dispatch_ctx_def)
  have fr: "set (free_threads (dispatch_ctx op1 t c)) = set (free_threads c) - {t}"
    by (simp add: dispatch_ctx_def)
  show "proc_ok n C (dispatch_ctx op1 t c) (h @ [op1]) q"
  proof (cases "q = op_process op1")
    case True
    then have t: "t \<noteq> kNemesisProcess" "q mod n = t" "t \<in> set (free_threads c)"
      using ctx_inv_worker_range [OF inv p] q free by auto
    then show ?thesis
      using ok p True type
      by (auto simp: proc_ok_def ws fr open_after_append)
  next
    case False
    then have same: "proc_ops q (h @ [op1]) = proc_ops q h" by simp
    have other: "q mod n \<noteq> t" if "map_of (workers c) (q mod n) = Some q"
      using that p False by auto
    show ?thesis
      using ok other unfolding proc_ok_def ws fr same by auto
  qed
qed

section \<open>A completed operation is taken\<close>

definition complete_ctx :: "int \<Rightarrow> int \<Rightarrow> operation \<Rightarrow> int \<Rightarrow> ctx \<Rightarrow> ctx" where
  "complete_ctx n now op1 t c =
     (let c1 = c\<lparr>ctx_time := now, free_threads := set_insert t (free_threads c)\<rparr> in
      if t \<noteq> kNemesisProcess \<and> op_type op1 = kInfo
      then c1\<lparr>workers := AList.update t (op_process op1 + n) (workers c1)\<rparr> else c1)"

lemma complete_ctx_free [simp]:
  "set (free_threads (complete_ctx n now op1 t c)) = insert t (set (free_threads c))"
  by (simp add: complete_ctx_def Let_def)

lemma complete_ctx_workers:
  "map_of (workers (complete_ctx n now op1 t c)) u =
     (if u = t \<and> t \<noteq> kNemesisProcess \<and> op_type op1 = kInfo then Some (op_process op1 + n)
      else map_of (workers c) u)"
  by (simp add: complete_ctx_def Let_def update_conv')

lemma ctx_inv_complete:
  assumes inv: "ctx_inv n c" and n: "0 < n" and p: "map_of (workers c) t = Some (op_process op1)"
  shows "ctx_inv n (complete_ctx n now op1 t c)"
proof -
  let ?c = "c\<lparr>ctx_time := now, free_threads := set_insert t (free_threads c)\<rparr>"
  have "t \<in> insert kNemesisProcess {0..<n}"
    using ctx_inv_worker_range [OF inv p] by auto
  then have "ctx_inv n ?c"
    using inv by (auto simp: ctx_inv_def ascending_set_insert)
  moreover have "map_of (workers ?c) t = Some (op_process op1)" using p by simp
  ultimately show ?thesis
    using ctx_inv_assign_next [of n ?c t "op_process op1"] n
    by (simp add: complete_ctx_def Let_def)
qed

lemma run_complete_eval:
  assumes inv: "ctx_inv n (r_ctx rs)" and n: "0 < n"
    and p: "map_of (workers (r_ctx rs)) t = Some (op_process op1)"
    and g: "\<And>c e. \<exists>g'. gupd (r_gen rs) c e = Inr g'"
  obtains (overflow) "run_complete gupd now op1 rs = Inl SignedOverflow"
  | (ok) g2 where
      "run_complete gupd now op1 rs =
         Inr (rs\<lparr>r_ctx := complete_ctx n now op1 t (r_ctx rs), r_gen := g2,
                 r_history := r_history rs @ [op1\<lparr>op_time := now\<rparr>],
                 r_outstanding := r_outstanding rs - 1, r_timeout := 0\<rparr>)"
      "\<exists>c e. gupd (r_gen rs) c e = Inr g2"
proof -
  let ?c = "(r_ctx rs)\<lparr>ctx_time := now, free_threads := set_insert t (free_threads (r_ctx rs))\<rparr>"
  let ?op = "op1\<lparr>op_time := now\<rparr>"
  have t: "processToThread (r_ctx rs) (op_process op1) = t"
    by (rule processToThread_inverse [OF ctx_inv_wf [OF inv] p])
  have nem: "op_process op1 = kNemesisProcess \<longleftrightarrow> t = kNemesisProcess"
    using ctx_inv_worker_range [OF inv p] by auto
  have inv1: "ctx_inv n ?c"
  proof -
    have "t \<in> insert kNemesisProcess {0..<n}"
      using ctx_inv_worker_range [OF inv p] by auto
    then show ?thesis using inv by (auto simp: ctx_inv_def ascending_set_insert)
  qed
  have next1: "nextProcess ?c t = bind_res (add_i32 (op_process op1) n) (\<lambda>q. Inr (q, ?c))"
    if "t \<noteq> kNemesisProcess"
    using nextProcess_inv [OF inv1 _ that, of "op_process op1"] n p by simp
  obtain g2 where g2: "gupd (r_gen rs) ?c ?op = Inr g2" using g by blast
  define bump where "bump \<longleftrightarrow> t \<noteq> kNemesisProcess \<and> op_type op1 = kInfo"
  have eq: "run_complete gupd now op1 rs =
    bind_res
      (if bump then bind_res (add_i32 (op_process op1) n) (\<lambda>q.
           Inr (?c\<lparr>workers := AList.update t q (workers ?c)\<rparr>))
       else Inr ?c)
      (\<lambda>c3. bind_res (add_i32 (r_outstanding rs) (- 1)) (\<lambda>out.
         Inr (rs\<lparr>r_ctx := c3, r_gen := g2, r_history := r_history rs @ [?op],
                 r_outstanding := out, r_timeout := 0\<rparr>)))"
  proof (cases bump)
    case True
    then show ?thesis
      using g2 t nem next1
      by (cases "add_i32 (op_process op1) n")
        (auto simp: run_complete_def Let_def bump_def)
  next
    case False
    then show ?thesis using g2 t nem by (auto simp: run_complete_def Let_def bump_def)
  qed
  have ctx: "complete_ctx n now op1 t (r_ctx rs) =
    (if bump then ?c\<lparr>workers := AList.update t (op_process op1 + n) (workers ?c)\<rparr> else ?c)"
    by (simp add: complete_ctx_def bump_def)
  show thesis
  proof (cases "(bump \<longrightarrow> in_i32 (op_process op1 + n)) \<and> in_i32 (r_outstanding rs - 1)")
    case True
    then have "run_complete gupd now op1 rs =
        Inr (rs\<lparr>r_ctx := complete_ctx n now op1 t (r_ctx rs), r_gen := g2,
                r_history := r_history rs @ [?op],
                r_outstanding := r_outstanding rs - 1, r_timeout := 0\<rparr>)"
      unfolding eq ctx by (simp add: add_i32_def)
    then show thesis using ok g2 by blast
  next
    case False
    then have "run_complete gupd now op1 rs = Inl SignedOverflow"
      unfolding eq by (auto simp: add_i32_def)
    then show thesis by (rule overflow)
  qed
qed

text \<open>What the accounts say about the operation that completes.\<close>

lemma completing_thread:
  assumes acc: "accounts n C c out ws (xs @ op1 # ys)"
    and p: "map_of (workers c) t = Some (op_process op1)" and client: "t \<noteq> kNemesisProcess"
  obtains w where "map_of ws t = Some w" and "load w = 0" and "t \<notin> set (free_threads c)"
    and "proc_ops (op_process op1) (xs @ ys) = []" and "op_type op1 \<in> C"
proof -
  note A = accountsD [OF acc]
  have "t \<in> set (map fst ws)"
    using ctx_inv_worker_range [OF A(1) p] client unfolding A(3) by auto
  then obtain w where w: "map_of ws t = Some w" by (metis dom_map_of_keys domD)
  have "load w + length (proc_ops (op_process op1) (xs @ op1 # ys)) =
      (if t \<in> set (free_threads c) then 0 else 1)"
    using A(5) [OF w] p client by (simp add: thread_ok_def)
  then have "load w = 0" "t \<notin> set (free_threads c)"
    "proc_ops (op_process op1) (xs @ ys) = []"
    by (auto split: if_splits)
  moreover have "op_type op1 \<in> C"
  proof -
    have "completion_ok C c op1" using A(6) by simp
    then obtain u where u: "map_of (workers c) u = Some (op_process op1)"
      "u \<noteq> kNemesisProcess \<longrightarrow> op_type op1 \<in> C" by (auto simp: completion_ok_def)
    then have "u = t" using ctx_inv_process_inj [OF A(1) _ p] by blast
    then show ?thesis using u(2) client by blast
  qed
  ultimately show thesis using that w by blast
qed

lemma accounts_complete:
  assumes acc: "accounts n C c out ws (xs @ op1 # ys)" and n: "0 < n"
    and p: "map_of (workers c) t = Some (op_process op1)"
  shows "accounts n C (complete_ctx n now op1 t c) (out - 1) ws (xs @ ys)"
proof -
  note A = accountsD [OF acc]
  let ?c = "complete_ctx n now op1 t c" and ?p = "op_process op1"
  have range: "t = kNemesisProcess \<and> ?p = kNemesisProcess \<or> 0 \<le> t \<and> t < n \<and> t \<le> ?p \<and> ?p mod n = t"
    by (rule ctx_inv_worker_range [OF A(1) p])
  have comp: "completion_ok C ?c o1" if o1: "o1 \<in> set (xs @ ys)" for o1
  proof -
    have "completion_ok C c o1" using A(6) o1 by auto
    then obtain u where u: "map_of (workers c) u = Some (op_process o1)"
      "u \<noteq> kNemesisProcess \<longrightarrow> op_type o1 \<in> C" by (auto simp: completion_ok_def)
    have "map_of (workers ?c) u = map_of (workers c) u"
    proof (cases "u = t \<and> t \<noteq> kNemesisProcess")
      case True
      have "proc_ops ?p (xs @ ys) = []"
        by (rule completing_thread [OF acc p]) (use True in \<open>simp_all del: proc_ops_append\<close>)
      moreover have "op_process o1 = ?p" using True u p by simp
      ultimately show ?thesis using o1 by (auto simp: proc_ops_def filter_empty_conv)
    next
      case False
      then show ?thesis by (auto simp: complete_ctx_workers)
    qed
    then show ?thesis using u by (auto simp: completion_ok_def)
  qed
  have "worker_ok ?c u v \<and> thread_ok ?c u v (xs @ ys)" if v: "map_of ws u = Some v" for u v
  proof (cases "u = t \<and> t \<noteq> kNemesisProcess")
    case True
    then have "t \<noteq> kNemesisProcess" by simp
    then obtain w where w: "map_of ws t = Some w" "load w = 0" "proc_ops ?p (xs @ ys) = []"
      by (rule completing_thread [OF acc p])
    have v: "v = w" "load v = 0" "w_in v = []"
      using w True v by (auto simp: load_def)
    have new: "proc_ops (?p + n) (xs @ ys) = []"
    proof (rule proc_ops_absent)
      fix o1 assume "o1 \<in> set (xs @ ys)"
      then have "completion_ok C c o1" using A(6) by auto
      then obtain x where x: "map_of (workers c) x = Some (op_process o1)"
        by (auto simp: completion_ok_def)
      show "op_process o1 \<noteq> ?p + n"
      proof
        assume q: "op_process o1 = ?p + n"
        have "x = t" using ctx_inv_worker_range [OF A(1) x] range q True n by auto
        then show False using x p q n by simp
      qed
    qed
    then show ?thesis
      using A(4) [OF w(1)] v w True p
      by (auto simp: worker_ok_def thread_ok_def complete_ctx_workers)
  next
    case False
    have other: "?p \<noteq> q" if "map_of (workers c) u = Some q" "u \<noteq> kNemesisProcess" for q
      using ctx_inv_process_inj [OF A(1) that(1), of t] p that False by auto
    have same: "map_of (workers ?c) u = map_of (workers c) u"
      using False by (auto simp: complete_ctx_workers)
    show ?thesis
      using A(4) [OF v] A(5) [OF v] same other False
      by (auto simp: worker_ok_def thread_ok_def)
  qed
  then show ?thesis
    unfolding accounts_def using A(2,3,7) comp ctx_inv_complete [OF A(1) n p, of now] by auto
qed

lemma histories_complete:
  assumes acc: "accounts n C c out ws (xs @ op1 # ys)" and n: "0 < n"
    and hist: "histories n C c h" and p: "map_of (workers c) t = Some (op_process op1)"
    and op2: "op_process op2 = op_process op1" "op_type op2 = op_type op1"
  shows "histories n C (complete_ctx n now op1 t c) (h @ [op2])"
  unfolding histories_def
proof (intro allI impI)
  fix q :: int assume q: "0 \<le> q"
  note A = accountsD [OF acc]
  let ?c = "complete_ctx n now op1 t c" and ?p = "op_process op1"
  have range: "t = kNemesisProcess \<and> ?p = kNemesisProcess \<or> 0 \<le> t \<and> t < n \<and> t \<le> ?p \<and> ?p mod n = t"
    by (rule ctx_inv_worker_range [OF A(1) p])
  have ok: "proc_ok n C c h q" using hist q by (simp add: histories_def)
  show "proc_ok n C ?c (h @ [op2]) q"
  proof (cases "t \<noteq> kNemesisProcess \<and> q mod n = t")
    case False
    have "0 \<le> q mod n" using n by simp
    then have "q mod n \<noteq> t" "op_process op2 \<noteq> q" using False range q op2 by auto
    then show ?thesis
      using ok by (auto simp: proc_ok_def complete_ctx_workers)
  next
    case True
    then have "t \<noteq> kNemesisProcess" by simp
    then obtain busy: "t \<notin> set (free_threads c)" and type: "op_type op1 \<in> C"
      by (rule completing_thread [OF acc p])
    have gap: "q = ?p \<or> q < ?p \<or> ?p + n \<le> q"
    proof (rule ccontr)
      assume "\<not> ?thesis"
      then have "0 < q - ?p" "q - ?p < n" by auto
      moreover have "(q - ?p) mod n = 0" using True range by (simp add: mod_diff_eq [symmetric])
      ultimately show False by (metis less_irrefl mod_pos_pos_trivial order_less_le)
    qed
    show ?thesis
    proof (cases "q = ?p")
      case True
      have q': "q mod n = t" using range \<open>t \<noteq> kNemesisProcess \<and> q mod n = t\<close> by simp
      have old: "open_after C False (proc_ops q h) = Some True"
        "\<forall>o1 \<in> set (proc_ops q h). op_type o1 \<noteq> kInfo"
        using ok p True q' busy by (auto simp: proc_ok_def)
      then show ?thesis
        using op2 type True q' n p \<open>t \<noteq> kNemesisProcess \<and> q mod n = t\<close>
        by (auto simp: proc_ok_def complete_ctx_workers open_after_append retired_def)
    next
      case False
      then have same: "proc_ops q (h @ [op2]) = proc_ops q h" using op2 by simp
      then show ?thesis
        using ok p True False gap busy n
        unfolding proc_ok_def complete_ctx_workers same
        by (auto simp: retired_def)
    qed
  qed
qed

end
