(* ===== verification/Combinators.thy ===== *)
theory Combinators
  imports Generator_Wrappers Runner_Invariant
begin

text \<open>
  The functions a test builds its generator with (\<open>clients\<close>, \<open>nemesis\<close>, \<open>timeLimit\<close>,
  \<open>stagger\<close>, \<open>mix\<close>, \<open>any\<close> of \<open>generator/Generator.cpp\<close>) and the clock arithmetic they use
  (\<open>utils/TimeHelper.cpp\<close>).

  \<open>sec2nanos\<close> multiplies in \<open>double\<close>. The operands and the product are integers, and a double
  of magnitude at least \<open>2 ^ 53\<close> is an integer, so the two roundings are the rounding of an
  integer to 53 significant bits, to nearest with ties to even.
\<close>

section \<open>TimeHelper\<close>

fun bitlen :: "nat \<Rightarrow> nat" where
  "bitlen n = (if n = 0 then 0 else Suc (bitlen (n div 2)))"

declare bitlen.simps [simp del]

definition round53 :: "int \<Rightarrow> int" where
  "round53 x =
     (let n = nat \<bar>x\<bar>; e = bitlen n - 53; q = n div 2 ^ e; rm = n mod 2 ^ e in
      if e = 0 then x
      else sgn x * int ((if 2 * rm > 2 ^ e \<or> 2 * rm = 2 ^ e \<and> odd q then q + 1 else q) * 2 ^ e))"

definition sec2nanos :: "int \<Rightarrow> int res" where
  "sec2nanos seconds =
     (let d = round53 (round53 seconds * 1000000000) in
      if in_i64 d then Inr d else Inl SignedOverflow)"

lemma bitlen_le: "n < 2 ^ k \<Longrightarrow> bitlen n \<le> k"
proof (induction k arbitrary: n)
  case 0
  then show ?case by (simp add: bitlen.simps)
next
  case (Suc k)
  then have "n div 2 < 2 ^ k" by auto
  then have "bitlen (n div 2) \<le> k" by (rule Suc.IH)
  then show ?case by (subst bitlen.simps) simp
qed

lemma round53_exact:
  assumes "nat \<bar>x\<bar> < 2 ^ (53 + k)" and "2 ^ k dvd nat \<bar>x\<bar>"
  shows "round53 x = x"
proof -
  let ?n = "nat \<bar>x\<bar>"
  have e: "bitlen ?n - 53 \<le> k" using bitlen_le [OF assms(1)] by simp
  then have dvd: "2 ^ (bitlen ?n - 53) dvd ?n"
    using assms(2) power_le_dvd by blast
  then have "?n div 2 ^ (bitlen ?n - 53) * 2 ^ (bitlen ?n - 53) = ?n" by simp
  moreover have "?n mod 2 ^ (bitlen ?n - 53) = 0" using dvd by (simp add: mod_0_imp_dvd)
  moreover have "sgn x * int ?n = x" by (simp add: sgn_mult_abs)
  ultimately show ?thesis
    unfolding round53_def Let_def by (simp only: mult_zero_right if_split) auto
qed

section \<open>Combinators\<close>

definition clients1 :: "gen_ptr \<Rightarrow> gen_ptr" where
  "clients1 g = createOnThreads g (\<lambda>t. t \<noteq> kNemesisProcess)"

definition nemesis1 :: "gen_ptr \<Rightarrow> gen_ptr" where
  "nemesis1 g = createOnThreads g (\<lambda>t. t = kNemesisProcess)"

definition any_of :: "gen_ptr list \<Rightarrow> gen_ptr" where
  "any_of gs = (case gs of [] \<Rightarrow> None | [g] \<Rightarrow> g | _ \<Rightarrow> createAny gs)"

definition clients2 :: "gen_ptr \<Rightarrow> gen_ptr \<Rightarrow> gen_ptr" where
  "clients2 cg ng = any_of [clients1 cg, nemesis1 ng]"

definition nemesis2 :: "gen_ptr \<Rightarrow> gen_ptr \<Rightarrow> gen_ptr" where
  "nemesis2 ng cg = any_of [nemesis1 ng, clients1 cg]"

definition timeLimit :: "int \<Rightarrow> gen_ptr \<Rightarrow> gen_ptr res" where
  "timeLimit dt g = bind_res (sec2nanos dt) (\<lambda>l. Inr (createTimeLimit2 l g))"

definition stagger :: "int \<Rightarrow> int \<Rightarrow> gen_ptr \<Rightarrow> gen_ptr res" where
  "stagger junk dt g =
     bind_res (sec2nanos dt) (\<lambda>l.
       if in_i64 (2 * l) then Inr (createStagger2 junk (2 * l) g) else Inl SignedOverflow)"

definition mix_ops :: "operation list \<Rightarrow> rng \<Rightarrow> (gen_ptr \<times> rng) res" where
  "mix_ops os r = mix (map createGenerator_op os) r"

section \<open>Properties\<close>

text \<open>
  C37. \<open>sec2nanos\<close> is exact up to 4611686018 seconds (146 years) in both directions, although
  it computes in double precision.
\<close>

theorem sec2nanos_exact:
  assumes "\<bar>s\<bar> \<le> 4611686018"
  shows "sec2nanos s = Inr (s * 1000000000)"
proof -
  have "nat \<bar>s\<bar> \<le> 4611686018" using assms by linarith
  then have "nat \<bar>s\<bar> < 2 ^ (53 + 0)" by simp
  then have first: "round53 s = s" by (rule round53_exact) simp
  have n: "nat \<bar>s * 1000000000\<bar> = nat \<bar>s\<bar> * 1000000000" by (simp add: abs_mult nat_mult_distrib)
  have "nat \<bar>s\<bar> * 1000000000 \<le> 4611686018 * 1000000000"
    using \<open>nat \<bar>s\<bar> \<le> 4611686018\<close> by (rule mult_le_mono1)
  then have "nat \<bar>s * 1000000000\<bar> < 2 ^ (53 + 9)" unfolding n by simp
  moreover have "2 ^ 9 dvd nat \<bar>s * 1000000000\<bar>"
  proof -
    have "(1000000000 :: nat) = 2 ^ 9 * 1953125" by simp
    then show ?thesis unfolding n by (metis dvd_mult dvd_triv_left)
  qed
  ultimately have "round53 (s * 1000000000) = s * 1000000000" by (rule round53_exact)
  moreover have "in_i64 (s * 1000000000)" using assms by (auto simp: in_i64_def abs_le_iff)
  ultimately show ?thesis by (simp add: sec2nanos_def first)
qed

theorem sec2nanos_exact_witness: "sec2nanos (- 4611686018) = Inr (- 4611686018 * 1000000000)"
  by (rule sec2nanos_exact) simp

text \<open>
  In the context of a run, what comes out of \<open>clients\<close> goes to a free client process and
  what comes out of \<open>nemesis\<close> to the nemesis, which then is free.
\<close>

theorem clients_and_nemesis_address:
  assumes c: "ctx_inv n c" and raw: "all_ptr (raw_node (\<lambda>o1. op_process o1 = kInvalidProcess)) g"
    and real: "op_type o2 \<noteq> kNil" "op_type o2 \<noteq> kPending"
  shows "(gen_op d (clients1 g) c r = Inr ((o2, g2), p', r') \<longrightarrow>
      op_process o2 \<in> free_procs c \<and> 0 \<le> op_process o2) \<and>
    (gen_op d (nemesis1 g) c r = Inr ((o2, g2), p', r') \<longrightarrow>
      op_process o2 \<in> free_procs c \<and> op_process o2 = kNemesisProcess)"
proof (intro conjI impI)
  note wf = ctx_inv_wf [OF c]
  have process: "processToThread c p = t \<and> (t = kNemesisProcess \<and> p = kNemesisProcess \<or> 0 \<le> t \<and> t \<le> p)"
    if "map_of (workers c) t = Some p" for t p
    using processToThread_inverse [OF wf that] ctx_inv_worker_range [OF c that] by blast
  {
    assume "gen_op d (clients1 g) c r = Inr ((o2, g2), p', r')"
    then have "op_process o2 \<in> free_procs c \<and> processToThread c (op_process o2) \<noteq> kNemesisProcess"
      unfolding clients1_def by (rule on_threads_emitted [OF wf raw _ real])
    then show "op_process o2 \<in> free_procs c" "0 \<le> op_process o2"
      using process by (fastforce simp: free_procs_def)+
  next
    assume "gen_op d (nemesis1 g) c r = Inr ((o2, g2), p', r')"
    then have "op_process o2 \<in> free_procs c \<and> processToThread c (op_process o2) = kNemesisProcess"
      unfolding nemesis1_def by (rule on_threads_emitted [OF wf raw _ real])
    then show "op_process o2 \<in> free_procs c" "op_process o2 = kNemesisProcess"
      using process by (fastforce simp: free_procs_def)+
  }
qed

lemma ask_nemesis3:
  "gen_op (Suc (Suc (Suc (Suc 0)))) (nemesis1 (createGenerator_ops [read_op, read_op])) ctx3 [0] =
     Inr ((read_op\<lparr>op_type := kInvoke, op_time := 50, op_process := - 1\<rparr>,
         nemesis1 (createGenerator_list [None, createGenerator_op read_op])),
       nemesis1 (createGenerator_ops [read_op, read_op]), [])"
  unfolding nemesis1_def by (rule ask_on_threads) (simp_all add: onThreadsContext_def ctx3_def)

lemma ctx3_inv: "ctx_inv 2 ctx3"
  by (auto simp: ctx_inv_def ctx3_def ascending_def)

theorem clients_and_nemesis_address_witness:
  "op_process (read_op\<lparr>op_type := kInvoke, op_time := 50, op_process := - 1\<rparr>) \<in> free_procs ctx3"
  using clients_and_nemesis_address [OF ctx3_inv, of "createGenerator_ops [read_op, read_op]"
      "read_op\<lparr>op_type := kInvoke, op_time := 50, op_process := - 1\<rparr>" "Suc (Suc (Suc (Suc 0)))" "[0]"
      "nemesis1 (createGenerator_list [None, createGenerator_op read_op])"
      "nemesis1 (createGenerator_ops [read_op, read_op])" "[]"]
  by (simp add: ask_nemesis3 del: gen_op.simps) (simp add: factory_defs read_op_def Operation_of_def)

text \<open>
  \<open>mix\<close> of operations: without any, the remainder by zero traps; else the result is a
  well-formed \<open>Mix\<close> that holds exactly these operations, and each of them can be the one that
  is asked first.
\<close>

theorem mix_of_operations:
  assumes "length os \<le> RAND_MAX"
  shows "{x. \<exists>r r'. mix_ops os r = Inr (x, r')} =
      {Some (Mix k (map createGenerator_op os)) | k. k < length os} \<and>
    (mix_ops os r = Inl e \<longleftrightarrow> os = [] \<and> e = DivByZero) \<and>
    all_ptrs wf_node (map createGenerator_op os) \<and> None \<notin> set (map createGenerator_op os)"
proof (intro conjI)
  have eq: "mix_ops os r = bind_res (rand_mod (length os) r)
      (\<lambda>(k, r'). Inr (Some (Mix k (map createGenerator_op os)), r'))" for r
    by (simp add: mix_ops_def mix_def createMix_def)
  have "\<exists>r r'. rand_mod (length os) r = Inr (k, r')" if "k < length os" for k
    using that assms by (intro exI [of _ "[k]"] exI [of _ "[]"]) (auto simp: rand_mod_def rand_def)
  then show "{x. \<exists>r r'. mix_ops os r = Inr (x, r')} =
      {Some (Mix k (map createGenerator_op os)) | k. k < length os}"
    unfolding eq by (fastforce simp: res_simps dest: rand_mod_less)
  show "mix_ops os r = Inl e \<longleftrightarrow> os = [] \<and> e = DivByZero"
    unfolding eq by (auto simp: res_simps)
  show "all_ptrs wf_node (map createGenerator_op os)"
    by (auto simp: all_ptrs_iff createGenerator_op_def)
  show "None \<notin> set (map createGenerator_op os)" by (auto simp: createGenerator_op_def)
qed

theorem mix_of_operations_witness:
  "{x. \<exists>r r'. mix_ops [factory_pending, factory_exit] r = Inr (x, r')} =
     {Some (Mix k (map createGenerator_op [factory_pending, factory_exit])) | k. k < 2}"
  using mix_of_operations [of "[factory_pending, factory_exit]"]
  by (simp add: RAND_MAX_def numeral_2_eq_2)

section \<open>The generator of the shipped test\<close>

text \<open>
  The generator \<open>test/runner/test_runner.cpp\<close> hands to the runner: reads and writes of random
  keys in a mix, staggered, next to partitions by the nemesis, for five seconds. \<open>keys\<close> is the
  string of keys; the payloads are built by jsoncpp.
\<close>

definition test_read :: "json_lib \<Rightarrow> json list \<Rightarrow> gen_func" where
  "test_read J keys = kBase (\<lambda>r.
     let (k, r1) = rand r in (factory_read J (keys ! (k mod length keys)), r1))"

definition test_write :: "json_lib \<Rightarrow> json list \<Rightarrow> gen_func" where
  "test_write J keys = kBase (\<lambda>r.
     let (k, r1) = rand r; (v, r2) = rand r1 in
     (factory_write J (keys ! (k mod length keys)) (uintValue (int (v mod length keys))), r2))"

definition test_partition :: "json_lib \<Rightarrow> gen_func" where
  "test_partition J = kBase (\<lambda>r. (factory_fakePartition J, r))"

definition test_generator :: "json_lib \<Rightarrow> json list \<Rightarrow> int \<Rightarrow> rng \<Rightarrow> gen_ptr res" where
  "test_generator J keys junk r =
     bind_res (mix [createGenerator_fun (test_read J keys), createGenerator_fun (test_write J keys)] r)
       (\<lambda>(gen, _).
         bind_res (stagger junk 1 gen) (\<lambda>gen2.
           timeLimit 5 (nemesis2 (createGenerator_fun (test_partition J)) gen2)))"

text \<open>
  C36. The generator of the shipped test is, whatever the random draws, a limit of five seconds over
  partitions, on the thread of the nemesis, next to reads and writes of the keys, on the other
  threads, in a mix whose first choice is drawn and that is staggered with a mean of a second (twice the
  mean is the bound of its draws). It satisfies what the runner needs of a generator, and a stack of 15
  calls is enough to answer for it: no question to it overflows that stack, and a larger one gives the same
  answer.
\<close>

theorem test_generator_fits:
  "let g = Some (TimeLimit 5000000000 kInvalidTime (Some (Any
         [Some (OnThreads (createGenerator_fun (test_partition J)) (\<lambda>t. t = kNemesisProcess)),
          Some (OnThreads (Some (Stagger 2000000000 junk (Some (Mix (fst (rand r) mod 2)
            [createGenerator_fun (test_read J keys), createGenerator_fun (test_write J keys)]))))
            (\<lambda>t. t \<noteq> kNemesisProcess))])))
   in test_generator J keys junk r = Inr g \<and> good_gen g \<and>
      gen_op 15 g c s \<noteq> Inl StackOverflow \<and> gen_op (15 + m) g c s = gen_op 15 g c s"
  (is "let g = ?g in _")
proof -
  have draw: "rand_mod (Suc (Suc 0)) r = Inr (fst (rand r) mod 2, snd (rand r))"
    by (simp add: rand_mod_def numeral_2_eq_2)
  have secs: "sec2nanos 5 = Inr 5000000000" "sec2nanos 1 = Inr 1000000000"
    by (simp_all add: sec2nanos_def round53_exact [where k = 0] in_i64_def)
  have types: "schedulable (fst (gen_func_apply (test_read J keys) c s))"
    "schedulable (fst (gen_func_apply (test_write J keys) c s))"
    "schedulable (fst (gen_func_apply (test_partition J) c s))"
    "op_type (fst (gen_func_apply (test_read J keys) c s)) \<noteq> kNil"
    "op_type (fst (gen_func_apply (test_write J keys) c s)) \<noteq> kNil"
    "op_type (fst (gen_func_apply (test_partition J) c s)) \<noteq> kNil" for c s
    by (simp_all add: schedulable_def gen_func_apply_def test_read_def test_write_def
        test_partition_def factory_read_def factory_write_def factory_fakePartition_def
        Operation_of_def Let_def split_def)
  have "test_generator J keys junk r = Inr ?g"
    by (simp add: test_generator_def mix_def stagger_def timeLimit_def secs draw in_i64_def factory_defs
        nemesis2_def any_of_def nemesis1_def clients1_def)
  moreover have "good_gen ?g" by (simp add: good_gen_def factory_defs types)
  moreover have live: "all_ptr live_node ?g" "psize ?g \<le> 15" by (simp_all add: factory_defs types)
  moreover have "gen_op 15 ?g c s \<noteq> Inl StackOverflow" by (rule gen_op_depth [OF live])
  moreover from this have "gen_op (15 + m) ?g c s = gen_op 15 ?g c s" by (rule gen_op_mono) simp
  ultimately show ?thesis unfolding Let_def by blast
qed

end
