(* ===== verification/Base64.thy ===== *)
theory Base64
  imports Prelude "HOL-Library.Word"
begin

text \<open>
  \<open>Base64Coder\<close> (\<open>src/jepsen/utils/base64.h\<close>, \<open>base64.cpp\<close>), which names the cached copies of
  downloads. The accumulator is the source's \<open>unsigned int\<close>, a 32-bit word whose high bits are
  left to fall out; the output of the encoder is allocated in full and written by index. The
  assertions of the encoder abort a build without \<open>NDEBUG\<close>, which is an argument.
\<close>

unbundle bit_operations_syntax

section \<open>Tables\<close>

definition b64_table :: string where
  "b64_table = ''ABCDEFGHIJKLMNOPQRSTUVWXYZabcdefghijklmnopqrstuvwxyz0123456789+/''"

definition reverse_table :: "nat list" where
  "reverse_table =
     [64, 64, 64, 64, 64, 64, 64, 64, 64, 64, 64, 64, 64, 64, 64, 64, 64, 64, 64, 64, 64, 64,
      64, 64, 64, 64, 64, 64, 64, 64, 64, 64, 64, 64, 64, 64, 64, 64, 64, 64, 64, 64, 64, 62,
      64, 64, 64, 63, 52, 53, 54, 55, 56, 57, 58, 59, 60, 61, 64, 64, 64, 64, 64, 64, 64, 0,
      1,  2,  3,  4,  5,  6,  7,  8,  9,  10, 11, 12, 13, 14, 15, 16, 17, 18, 19, 20, 21, 22,
      23, 24, 25, 64, 64, 64, 64, 64, 64, 26, 27, 28, 29, 30, 31, 32, 33, 34, 35, 36, 37, 38,
      39, 40, 41, 42, 43, 44, 45, 46, 47, 48, 49, 50, 51, 64, 64, 64, 64, 64]"

section \<open>Encoding\<close>

text \<open>The size of \<open>size_t\<close>; arithmetic on it wraps.\<close>

definition size_max :: nat where
  "size_max = 2 ^ 64 - 1"

record enc_state =
  retval :: string
  outpos :: nat
  bits_collected :: nat
  accumulator :: "32 word"

definition put_bits :: "enc_state \<Rightarrow> enc_state" where
  "put_bits st =
     (let bits = bits_collected st - 6 in
      st\<lparr>bits_collected := bits,
         retval := (retval st)[outpos st :=
           b64_table ! unat (drop_bit bits (accumulator st) AND 0x3F)],
         outpos := outpos st + 1\<rparr>)"

fun drain :: "nat \<Rightarrow> enc_state \<Rightarrow> enc_state" where
  "drain 0 st = st"
| "drain (Suc k) st = (if 6 \<le> bits_collected st then drain k (put_bits st) else st)"

text \<open>One byte: at most two groups of 6 bits leave, so two rounds of the inner loop are enough.\<close>

definition enc_byte :: "enc_state \<Rightarrow> char \<Rightarrow> enc_state" where
  "enc_byte st i =
     drain 2
       (st\<lparr>accumulator := push_bit 8 (accumulator st) OR (word_of_nat (of_char i) AND 0xFF),
           bits_collected := bits_collected st + 8\<rparr>)"

definition enc_last :: "enc_state \<Rightarrow> enc_state" where
  "enc_last st =
     (if 0 < bits_collected st then
        let acc = push_bit (6 - bits_collected st) (accumulator st) in
        st\<lparr>accumulator := acc,
           retval := (retval st)[outpos st := b64_table ! unat (acc AND 0x3F)],
           outpos := outpos st + 1\<rparr>
      else st)"

definition enc_init :: "nat \<Rightarrow> enc_state" where
  "enc_init binlen =
     \<lparr>retval = replicate (((binlen + 2) div 3) * 4) CHR ''='', outpos = 0,
      bits_collected = 0, accumulator = 0\<rparr>"

definition base64_encode :: "bool \<Rightarrow> string \<Rightarrow> string res" where
  "base64_encode ndebug bindata =
     (if length bindata > (size_max div 4) * 3 then Inl LogicError
      else
        let st = foldl enc_byte (enc_init (length bindata)) bindata; st' = enc_last st in
        if \<not> ndebug \<and> (0 < bits_collected st \<and> \<not> bits_collected st < 6
             \<or> \<not> outpos st' \<ge> (length (retval st') + (size_max + 1) - 2) mod (size_max + 1)
             \<or> \<not> outpos st' \<le> length (retval st'))
        then Inl LogicError else Inr (retval st'))"

section \<open>Decoding\<close>

definition skipped :: "char \<Rightarrow> bool" where
  "skipped c \<longleftrightarrow> isspace c \<or> c = CHR ''=''"

definition illegal :: "char \<Rightarrow> bool" where
  "illegal c \<longleftrightarrow> 127 < (of_char c :: nat) \<or> 63 < reverse_table ! of_char c"

type_synonym dec_state = "string \<times> nat \<times> 32 word"

definition dec_char :: "dec_state \<Rightarrow> char \<Rightarrow> dec_state res" where
  "dec_char st c =
     (case st of (out, bits, acc) \<Rightarrow>
        if skipped c then Inr st
        else if illegal c then Inl LogicError
        else
          let acc' = push_bit 6 acc OR word_of_nat (reverse_table ! of_char c); bits' = bits + 6 in
          if 8 \<le> bits' then
            Inr (out @ [char_of (unat (drop_bit (bits' - 8) acc' AND 0xFF))], bits' - 8, acc')
          else Inr (out, bits', acc'))"

fun dec_loop :: "dec_state \<Rightarrow> string \<Rightarrow> dec_state res" where
  "dec_loop st [] = Inr st"
| "dec_loop st (c # cs) = bind_res (dec_char st c) (\<lambda>st'. dec_loop st' cs)"

definition base64_decode :: "string \<Rightarrow> string res" where
  "base64_decode ascdata = bind_res (dec_loop ([], 0, 0) ascdata) (\<lambda>(out, bits, acc). Inr out)"

section \<open>The tables are inverse\<close>

lemma table_length: "length b64_table = 64"
  by (simp add: b64_table_def)

lemma table_lookup: "map (\<lambda>c. reverse_table ! of_char c) b64_table = [0..<64]"
  by (simp add: b64_table_def reverse_table_def upt_rec)

lemma table_legal:
  "list_all (\<lambda>c. \<not> skipped c \<and> \<not> illegal c \<and> (of_char c :: nat) < 128) b64_table"
  by (simp add: b64_table_def reverse_table_def skipped_def illegal_def isspace_def)

lemma table_inverse:
  assumes "v < 64"
  shows "reverse_table ! of_char (b64_table ! v) = v \<and> \<not> skipped (b64_table ! v) \<and>
     \<not> illegal (b64_table ! v) \<and> (of_char (b64_table ! v) :: nat) < 128"
proof -
  have "reverse_table ! of_char (b64_table ! v) = map (\<lambda>c. reverse_table ! of_char c) b64_table ! v"
    using assms table_length by simp
  also have "\<dots> = v" unfolding table_lookup using assms by simp
  finally show ?thesis using table_legal assms table_length by (simp add: list_all_length)
qed

section \<open>The reference\<close>

text \<open>
  RFC 4648: three bytes are four groups of 6 bits; one or two bytes at the end are filled up
  with zero bits, and the output with \<open>=\<close>.
\<close>

definition byte :: "char \<Rightarrow> 32 word" where
  "byte c = word_of_nat (of_char c)"

definition sym :: "32 word \<Rightarrow> char" where
  "sym v = b64_table ! unat v"

definition group1 :: "32 word \<Rightarrow> 32 word" where
  "group1 x = drop_bit 2 x"

definition group2 :: "32 word \<Rightarrow> 32 word \<Rightarrow> 32 word" where
  "group2 x y = push_bit 4 (take_bit 2 x) OR drop_bit 4 y"

definition group3 :: "32 word \<Rightarrow> 32 word \<Rightarrow> 32 word" where
  "group3 y z = push_bit 2 (take_bit 4 y) OR drop_bit 6 z"

definition group4 :: "32 word \<Rightarrow> 32 word" where
  "group4 z = take_bit 6 z"

fun b64 :: "string \<Rightarrow> string" where
  "b64 [] = []"
| "b64 [x] = [sym (group1 (byte x)), sym (group2 (byte x) 0)]"
| "b64 [x, y] =
     [sym (group1 (byte x)), sym (group2 (byte x) (byte y)), sym (group3 (byte y) 0)]"
| "b64 (x # y # z # cs) =
     [sym (group1 (byte x)), sym (group2 (byte x) (byte y)), sym (group3 (byte y) (byte z)),
      sym (group4 (byte z))] @ b64 cs"

lemma length_b64: "length (b64 s) = (4 * length s + 2) div 3"
  by (induction s rule: b64.induct) auto

section \<open>Bits\<close>

named_theorems groups \<open>the groups of an accumulator\<close>

lemma mask6: "w AND 0x3F = take_bit 6 (w :: 32 word)"
  by (simp add: take_bit_eq_mask mask_eq_exp_minus_1)

lemma mask8: "w AND 0xFF = take_bit 8 (w :: 32 word)"
  by (simp add: take_bit_eq_mask mask_eq_exp_minus_1)

lemma byte_take [simp]: "take_bit 8 (byte c) = byte c"
proof -
  have "take_bit 8 (of_char c :: nat) = of_char c" by (simp add: take_bit_eq_mod)
  then show ?thesis unfolding byte_def by (simp add: take_bit_of_nat)
qed

lemma char_byte [simp]: "char_of (unat (byte c)) = c"
proof -
  have "(of_char c :: nat) < 256" by simp
  then have "(of_char c :: nat) < 2 ^ 32" by (rule less_trans) simp
  then have "unat (byte c) = of_char c" unfolding byte_def by (simp add: unat_of_nat)
  then show ?thesis by simp
qed

text \<open>What the encoder reads off its accumulator, whatever the bits above.\<close>

lemma enc_group1 [groups]:
  "take_bit 6 (drop_bit 2 (push_bit 8 a OR take_bit 8 x)) = group1 (take_bit 8 x)"
  unfolding group1_def by (rule bit_word_eqI) (auto simp: bit_simps)

lemma enc_group2 [groups]:
  "take_bit 6 (drop_bit 4 (push_bit 8 (push_bit 8 a OR take_bit 8 x) OR take_bit 8 y)) =
     group2 (take_bit 8 x) (take_bit 8 y)"
  unfolding group2_def by (rule bit_word_eqI) (auto simp: bit_simps)

lemma enc_group3 [groups]:
  "take_bit 6 (drop_bit 6 (push_bit 8 (push_bit 8 a OR take_bit 8 y) OR take_bit 8 z)) =
     group3 (take_bit 8 y) (take_bit 8 z)"
  unfolding group3_def by (rule bit_word_eqI) (auto simp: bit_simps)

lemma enc_group4 [groups]:
  "take_bit 6 (push_bit 8 a OR take_bit 8 z) = group4 (take_bit 8 z)"
  unfolding group4_def by (rule bit_word_eqI) (auto simp: bit_simps)

lemma enc_last1 [groups]:
  "take_bit 6 (push_bit 4 (push_bit 8 a OR take_bit 8 x)) = group2 (take_bit 8 x) 0"
  unfolding group2_def by (rule bit_word_eqI) (auto simp: bit_simps)

lemma enc_last2 [groups]:
  "take_bit 6 (push_bit 2 (push_bit 8 a OR take_bit 8 y)) = group3 (take_bit 8 y) 0"
  unfolding group3_def by (rule bit_word_eqI) (auto simp: bit_simps)

text \<open>What the decoder puts together.\<close>

lemma dec_byte1 [groups]:
  "take_bit 8 (drop_bit 4 (push_bit 6 (push_bit 6 a OR group1 (take_bit 8 x)) OR
     group2 (take_bit 8 x) (take_bit 8 y))) = take_bit 8 x"
proof -
  have up: "Suc (Suc (n - 2)) = n" if "\<not> n < 2 \<or> 2 \<le> n" for n using that by auto
  show ?thesis
    unfolding group1_def group2_def by (rule bit_word_eqI) (auto simp: bit_simps up)
qed

lemma dec_byte2 [groups]:
  "take_bit 8 (drop_bit 2 (push_bit 6 (push_bit 6 a OR group2 x (take_bit 8 y)) OR
     group3 (take_bit 8 y) (take_bit 8 z))) = take_bit 8 y"
  unfolding group2_def group3_def by (rule bit_word_eqI) (auto simp: bit_simps)

lemma dec_byte3 [groups]:
  "take_bit 8 (push_bit 6 (push_bit 6 a OR group3 y (take_bit 8 z)) OR group4 (take_bit 8 z)) =
     take_bit 8 z"
  unfolding group3_def group4_def by (rule bit_word_eqI) (auto simp: bit_simps)

section \<open>The encoder computes the reference\<close>

abbreviation enc_at :: "string \<Rightarrow> nat \<Rightarrow> nat \<Rightarrow> 32 word \<Rightarrow> enc_state" where
  "enc_at xs k b a \<equiv>
     \<lparr>retval = xs @ replicate k CHR ''='', outpos = length xs, bits_collected = b, accumulator = a\<rparr>"

lemma put_bits_at:
  "put_bits (enc_at xs (Suc k) b a) =
     enc_at (xs @ [sym (take_bit 6 (drop_bit (b - 6) a))]) k (b - 6) a"
  by (simp add: put_bits_def Let_def mask6 sym_def list_update_append)

lemma drain_two:
  "drain 2 st = (if 6 \<le> bits_collected st then
      if 6 \<le> bits_collected (put_bits st) then put_bits (put_bits st) else put_bits st else st)"
  by (simp add: numeral_2_eq_2)

lemma enc_byte_0:
  "enc_byte (enc_at xs (Suc k) 0 a) x =
     enc_at (xs @ [sym (group1 (byte x))]) k 2 (push_bit 8 a OR byte x)"
  using put_bits_at [of xs k 8 "push_bit 8 a OR byte x"] enc_group1 [of a "byte x"]
  by (simp add: enc_byte_def drain_two mask8 byte_def [symmetric])

lemma enc_byte_2:
  "enc_byte (enc_at xs (Suc k) 2 (push_bit 8 a OR byte x)) y =
     enc_at (xs @ [sym (group2 (byte x) (byte y))]) k 4
       (push_bit 8 (push_bit 8 a OR byte x) OR byte y)"
  using put_bits_at [of xs k 10 "push_bit 8 (push_bit 8 a OR byte x) OR byte y"]
    enc_group2 [of a "byte x" "byte y"]
  by (simp add: enc_byte_def drain_two mask8 byte_def [symmetric])

lemma enc_byte_4:
  "enc_byte (enc_at xs (Suc (Suc k)) 4 (push_bit 8 a OR byte y)) z =
     enc_at (xs @ [sym (group3 (byte y) (byte z)), sym (group4 (byte z))]) k 0
       (push_bit 8 (push_bit 8 a OR byte y) OR byte z)"
  using put_bits_at [of xs "Suc k" 12 "push_bit 8 (push_bit 8 a OR byte y) OR byte z"]
    put_bits_at [of "xs @ [sym (group3 (byte y) (byte z))]" k 6
      "push_bit 8 (push_bit 8 a OR byte y) OR byte z"]
    enc_group3 [of a "byte y" "byte z"] enc_group4 [of "push_bit 8 a OR byte y" "byte z"]
  by (simp add: enc_byte_def drain_two mask8 byte_def [symmetric])

lemma enc_last_at:
  "enc_last (enc_at xs k 0 a) = enc_at xs k 0 a"
  "0 < b \<Longrightarrow> enc_last (enc_at xs (Suc k) b a) =
     enc_at (xs @ [sym (take_bit 6 (push_bit (6 - b) a))]) k b (push_bit (6 - b) a)"
  by (simp_all add: enc_last_def Let_def mask6 sym_def list_update_append)

text \<open>The state before the last step, and the output after it.\<close>

definition encodes :: "enc_state \<Rightarrow> string \<Rightarrow> nat \<Rightarrow> bool" where
  "encodes st out k \<longleftrightarrow>
     (\<exists>ys m b a a'. st = enc_at ys m b a \<and> b < 6 \<and> enc_last st = enc_at out k b a')"

lemma encodesI:
  "st = enc_at ys m b a \<Longrightarrow> b < 6 \<Longrightarrow> enc_last (enc_at ys m b a) = enc_at out k b a' \<Longrightarrow>
     encodes st out k"
  unfolding encodes_def by blast

lemma encode_loop:
  "encodes (foldl enc_byte (enc_at xs (length (b64 s) + k) 0 a) s) (xs @ b64 s) k"
proof (induction s arbitrary: xs a rule: b64.induct)
  case 1
  show ?case by (rule encodesI [of _ xs k 0 a]) (simp_all add: enc_last_at)
next
  case (2 x)
  have "length (b64 [x]) + k = Suc (Suc k)" by simp
  then have loop: "foldl enc_byte (enc_at xs (length (b64 [x]) + k) 0 a) [x] =
      enc_at (xs @ [sym (group1 (byte x))]) (Suc k) 2 (push_bit 8 a OR byte x)"
    by (simp only: foldl.simps enc_byte_0)
  have last: "enc_last (enc_at (xs @ [sym (group1 (byte x))]) (Suc k) 2 (push_bit 8 a OR byte x)) =
      enc_at (xs @ b64 [x]) k 2 (push_bit 4 (push_bit 8 a OR byte x))"
    using enc_last_at(2) [of 2 "xs @ [sym (group1 (byte x))]" k "push_bit 8 a OR byte x"]
      enc_last1 [of a "byte x"] by simp
  show ?case by (rule encodesI [OF loop _ last]) simp
next
  case (3 x y)
  let ?xs = "xs @ [sym (group1 (byte x))]"
  let ?ys = "?xs @ [sym (group2 (byte x) (byte y))]"
  let ?a = "push_bit 8 (push_bit 8 a OR byte x) OR byte y"
  have "length (b64 [x, y]) + k = Suc (Suc (Suc k))" by simp
  then have loop: "foldl enc_byte (enc_at xs (length (b64 [x, y]) + k) 0 a) [x, y] =
      enc_at ?ys (Suc k) 4 ?a"
    by (simp only: foldl.simps enc_byte_0 enc_byte_2)
  have last: "enc_last (enc_at ?ys (Suc k) 4 ?a) = enc_at (xs @ b64 [x, y]) k 4 (push_bit 2 ?a)"
    using enc_last_at(2) [of 4 ?ys k ?a] enc_last2 [of "push_bit 8 a OR byte x" "byte y"] by simp
  show ?case by (rule encodesI [OF loop _ last]) simp
next
  case (4 x y z cs)
  let ?k = "length (b64 cs) + k"
  let ?xs = "xs @ [sym (group1 (byte x))]"
  let ?ys = "?xs @ [sym (group2 (byte x) (byte y))]"
  let ?zs = "?ys @ [sym (group3 (byte y) (byte z)), sym (group4 (byte z))]"
  let ?a = "push_bit 8 (push_bit 8 (push_bit 8 a OR byte x) OR byte y) OR byte z"
  have "length (b64 (x # y # z # cs)) + k = Suc (Suc (Suc (Suc ?k)))" by simp
  then have loop: "foldl enc_byte (enc_at xs (length (b64 (x # y # z # cs)) + k) 0 a) (x # y # z # cs) =
      foldl enc_byte (enc_at ?zs ?k 0 ?a) cs"
    by (simp only: foldl.simps enc_byte_0 enc_byte_2 enc_byte_4)
  have "xs @ b64 (x # y # z # cs) = ?zs @ b64 cs" by simp
  then show ?case unfolding loop using "4.IH" [of ?zs ?a] by (simp only:)
qed

definition padding :: "string \<Rightarrow> nat" where
  "padding s = ((length s + 2) div 3) * 4 - length (b64 s)"

lemma padding_le: "padding s \<le> 2" "length (b64 s) + padding s = ((length s + 2) div 3) * 4"
proof -
  define q r where "q = length s div 3" and "r = length s mod 3"
  have n: "length s = 3 * q + r" and "r < 3" by (simp_all add: q_def r_def)
  then consider "r = 0" | "r = 1" | "r = 2" by linarith
  then show "padding s \<le> 2" "length (b64 s) + padding s = ((length s + 2) div 3) * 4"
    unfolding padding_def length_b64 n by (cases; simp)+
qed

lemma encode_eval:
  assumes "length s \<le> (size_max div 4) * 3"
  shows "base64_encode ndebug s =
    (if \<not> ndebug \<and> s = [] then Inl LogicError else Inr (b64 s @ replicate (padding s) CHR ''=''))"
proof -
  let ?n = "length s" and ?total = "((length s + 2) div 3) * 4"
  have init: "enc_init ?n = enc_at [] (length (b64 s) + padding s) 0 0"
    by (simp add: enc_init_def padding_le(2))
  obtain ys m b a a2 where loop: "foldl enc_byte (enc_init ?n) s = enc_at ys m b a" "b < 6"
    and last: "enc_last (enc_at ys m b a) = enc_at (b64 s) (padding s) b a2"
    using encode_loop [of "[]" s "padding s" 0] unfolding init encodes_def append.simps by metis
  have max: "size_max + 1 = 2 ^ 64" by (simp add: size_max_def)
  have total: "?total < 2 ^ 64" using assms by (simp add: size_max_def) 
  have wrap: "(?total + (size_max + 1) - 2) mod (size_max + 1) \<le> length (b64 s) \<longleftrightarrow> s \<noteq> []"
  proof (cases "s = []")
    case True
    then show ?thesis by (simp add: size_max_def)
  next
    case False
    then have "0 < length s" by simp
    then have "4 \<le> ?total" by presburger
    then have "(?total + 2 ^ 64 - 2) mod 2 ^ 64 = ?total - 2"
      using total by (simp add: mod_if)
    then show ?thesis using padding_le [of s] False unfolding max by simp
  qed
  have len: "length (b64 s @ replicate (padding s) CHR ''='') = ?total"
    using padding_le(2) [of s] by simp
  show ?thesis
    unfolding base64_encode_def Let_def loop(1) last
    using assms loop(2) wrap padding_le(2) [of s] by auto
qed

section \<open>The decoder inverts the reference\<close>

lemma six_bits: "take_bit 6 v = v \<Longrightarrow> unat (v :: 32 word) < 64"
proof -
  assume "take_bit 6 v = v"
  then have "unat v = take_bit 6 (unat v)" by (metis unsigned_take_bit_eq)
  also have "\<dots> < 64" by (simp add: take_bit_eq_mod)
  finally show ?thesis .
qed

lemma groups_small:
  "unat (group1 (take_bit 8 x)) < 64" "unat (group2 y (take_bit 8 x)) < 64"
  "unat (group3 y (take_bit 8 x)) < 64" "unat (group4 x) < 64"
  by (rule six_bits, rule bit_word_eqI,
      auto simp: group1_def group2_def group3_def group4_def bit_simps)+

lemma groups_small_byte:
  "unat (group1 (byte x)) < 64" "unat (group2 y (byte x)) < 64" "unat (group3 y (byte x)) < 64"
  "unat (group4 (byte x)) < 64" "unat (group2 y 0) < 64" "unat (group3 y 0) < 64"
  using groups_small [where x = "byte x"] groups_small [where x = 0] by simp_all

lemma dec_sym:
  assumes "unat v < 64"
  shows "dec_char (out, bits, acc) (sym v) =
    Inr (if 8 \<le> bits + 6
         then (out @ [char_of (unat (take_bit 8 (drop_bit (bits + 6 - 8) (push_bit 6 acc OR v))))],
               bits + 6 - 8, push_bit 6 acc OR v)
         else (out, bits + 6, push_bit 6 acc OR v))"
  using table_inverse [OF assms] by (simp add: dec_char_def sym_def Let_def mask8)

lemma dec_loop_append:
  "dec_loop st (xs @ ys) = bind_res (dec_loop st xs) (\<lambda>st'. dec_loop st' ys)"
proof (induction xs arbitrary: st)
  case Nil
  then show ?case by simp
next
  case (Cons x xs)
  then show ?case by (cases "dec_char st x") simp_all
qed

text \<open>Two, three and four symbols from a group boundary.\<close>

lemma dec_two:
  "dec_loop (out, 0, a) [sym (group1 (byte x)), sym (group2 (byte x) y)] =
     Inr (out @ [char_of (unat (take_bit 8 (drop_bit 4 (push_bit 6 (push_bit 6 a OR group1 (byte x)) OR group2 (byte x) y))))], 4,
          push_bit 6 (push_bit 6 a OR group1 (byte x)) OR group2 (byte x) y)"
  if "unat (group2 (byte x) y) < 64"
  using that groups_small_byte by (simp add: dec_sym)

lemma dec_first:
  "dec_loop (out, 0, a) [sym (group1 (byte x)), sym (group2 (byte x) (byte y))] =
     Inr (out @ [x], 4, push_bit 6 (push_bit 6 a OR group1 (byte x)) OR group2 (byte x) (byte y))"
  using dec_two [of x "byte y" out a] dec_byte1 [of a "byte x" "byte y"] groups_small_byte by simp

lemma dec_first_last:
  "dec_loop (out, 0, a) [sym (group1 (byte x)), sym (group2 (byte x) 0)] =
     Inr (out @ [x], 4, push_bit 6 (push_bit 6 a OR group1 (byte x)) OR group2 (byte x) 0)"
  using dec_two [of x 0 out a] dec_byte1 [of a "byte x" 0] groups_small_byte by simp

lemma dec_third:
  "dec_char (out, 4, push_bit 6 a OR group2 x (byte y)) (sym (group3 (byte y) (byte z))) =
     Inr (out @ [y], 2, push_bit 6 (push_bit 6 a OR group2 x (byte y)) OR group3 (byte y) (byte z))"
  using dec_byte2 [of a x "byte y" "byte z"] groups_small_byte by (simp add: dec_sym)

lemma dec_third_last:
  "dec_char (out, 4, push_bit 6 a OR group2 x (byte y)) (sym (group3 (byte y) 0)) =
     Inr (out @ [y], 2, push_bit 6 (push_bit 6 a OR group2 x (byte y)) OR group3 (byte y) 0)"
  using dec_byte2 [of a x "byte y" 0] groups_small_byte by (simp add: dec_sym)

lemma dec_fourth:
  "dec_char (out, 2, push_bit 6 a OR group3 y (byte z)) (sym (group4 (byte z))) =
     Inr (out @ [z], 0, push_bit 6 (push_bit 6 a OR group3 y (byte z)) OR group4 (byte z))"
  using dec_byte3 [of a y "byte z"] groups_small_byte by (simp add: dec_sym)

lemma decode_b64: "\<exists>bits acc. dec_loop (out, 0, a) (b64 s) = Inr (out @ s, bits, acc)"
proof (induction s arbitrary: out a rule: b64.induct)
  case 1
  then show ?case by simp
next
  case (2 x)
  then show ?case using dec_first_last by simp
next
  case (3 x y)
  have eq: "b64 [x, y] =
      [sym (group1 (byte x)), sym (group2 (byte x) (byte y))] @ [sym (group3 (byte y) 0)]"
    by simp
  show ?case
    unfolding eq dec_loop_append dec_first bind_res_Inr
    unfolding dec_loop.simps dec_third_last bind_res_Inr
    by auto
next
  case (4 x y z cs)
  let ?a = "push_bit 6 (push_bit 6 (push_bit 6 (push_bit 6 a OR group1 (byte x)) OR
    group2 (byte x) (byte y)) OR group3 (byte y) (byte z)) OR group4 (byte z)"
  have eq: "b64 (x # y # z # cs) =
      [sym (group1 (byte x)), sym (group2 (byte x) (byte y))] @
      sym (group3 (byte y) (byte z)) # sym (group4 (byte z)) # b64 cs"
    by simp
  have "dec_loop (out, 0, a) (b64 (x # y # z # cs)) = dec_loop (out @ [x, y, z], 0, ?a) (b64 cs)"
    unfolding eq dec_loop_append dec_first bind_res_Inr
    unfolding dec_loop.simps dec_third dec_fourth bind_res_Inr append.simps append_assoc ..
  then show ?case using "4.IH" [of "out @ [x, y, z]" ?a] by simp
qed

lemma dec_padding: "dec_loop st (replicate k CHR ''='') = Inr st"
  by (induction k) (auto simp: dec_char_def skipped_def split: prod.splits)

lemma decode_encoded: "base64_decode (b64 s @ replicate k CHR ''='') = Inr s"
proof -
  obtain bits acc where "dec_loop ([], 0, 0) (b64 s) = Inr ([] @ s, bits, acc)"
    using decode_b64 by blast
  then show ?thesis by (simp add: base64_decode_def dec_loop_append dec_padding)
qed

section \<open>Properties\<close>

text \<open>
  C39. The encoder computes RFC 4648: the output is the reference encoding and the padding, its
  length a multiple of four. The assertions hold for every string but the empty one, for
  which \<open>retval.size() - 2\<close> wraps around: a build with assertions aborts on it.
\<close>

theorem encode_is_rfc4648:
  assumes "length s \<le> (size_max div 4) * 3"
  shows "base64_encode True s = Inr (b64 s @ replicate (padding s) CHR ''='') \<and>
    base64_encode False s = (if s = [] then Inl LogicError
                             else Inr (b64 s @ replicate (padding s) CHR ''='')) \<and>
    length (b64 s @ replicate (padding s) CHR ''='') = 4 * ((length s + 2) div 3)"
  using padding_le(2) [of s]
  unfolding encode_eval [OF assms] by (simp only: length_append length_replicate) simp

theorem encode_is_rfc4648_witness:
  "base64_encode True ''light w'' = Inr (b64 ''light w'' @ replicate (padding ''light w'') CHR ''='')"
  by (rule conjunct1 [OF encode_is_rfc4648]) (simp add: size_max_def)

text \<open>C40. Decoding inverts encoding, for every byte string that can be encoded.\<close>

theorem decode_encode:
  assumes "base64_encode ndebug s = Inr t"
  shows "base64_decode t = Inr s"
proof -
  have "length s \<le> (size_max div 4) * 3"
    using assms by (simp add: base64_encode_def split: if_splits)
  then show ?thesis
    using assms encode_eval [of s ndebug] decode_encoded by (auto split: if_splits)
qed

lemma encode_hi: "base64_encode True ''hi!'' = Inr ''aGkh''"
proof -
  have "b64 ''hi!'' = ''aGkh''" by code_simp
  moreover have "padding ''hi!'' = 0" unfolding padding_def length_b64 by simp
  moreover have "length ''hi!'' \<le> size_max div 4 * 3" by (simp add: size_max_def)
  ultimately show ?thesis using encode_eval [of "''hi!''" True] by simp
qed

theorem decode_encode_witness: "base64_decode ''aGkh'' = Inr ''hi!''"
  by (rule decode_encode [OF encode_hi])

lemma dec_loop_skips: "dec_loop st (filter (\<lambda>c. \<not> skipped c) t) = dec_loop st t"
proof (induction t arbitrary: st)
  case Nil
  then show ?case by simp
next
  case (Cons c t)
  have "dec_char st c = Inr st" if "skipped c"
    using that by (cases st) (simp add: dec_char_def)
  then show ?case
    using Cons by (cases "dec_char st c") auto
qed

lemma dec_loop_fails:
  "dec_loop st t = Inl e \<longleftrightarrow> e = LogicError \<and> (\<exists>c \<in> set t. \<not> skipped c \<and> illegal c)"
proof (induction t arbitrary: st)
  case Nil
  then show ?case by simp
next
  case (Cons c t)
  obtain out bits acc where st: "st = (out, bits, acc)" by (cases st) auto
  show ?case
  proof (cases "\<not> skipped c \<and> illegal c")
    case True
    then show ?thesis by (auto simp: dec_char_def st)
  next
    case False
    then have "\<exists>st'. dec_char st c = Inr st'"
      by (auto simp: dec_char_def st Let_def)
    then obtain st' where "dec_char st c = Inr st'" by blast
    then show ?thesis using Cons.IH [of st'] False by auto
  qed
qed

text \<open>
  Decoding skips white space and padding wherever they stand, and fails exactly when what
  is left contains a character that is not one of the 64 symbols.
\<close>

theorem decode_skips_and_fails:
  "base64_decode (filter (\<lambda>c. \<not> skipped c) t) = base64_decode t \<and>
   (base64_decode t = Inl e \<longleftrightarrow> e = LogicError \<and> (\<exists>c \<in> set t. \<not> skipped c \<and> illegal c))"
proof
  show "base64_decode (filter (\<lambda>c. \<not> skipped c) t) = base64_decode t"
    by (simp add: base64_decode_def dec_loop_skips)
  show "base64_decode t = Inl e \<longleftrightarrow> e = LogicError \<and> (\<exists>c \<in> set t. \<not> skipped c \<and> illegal c)"
    using dec_loop_fails [of "([], 0, 0)" t e]
    by (cases "dec_loop ([], 0, 0) t") (auto simp: base64_decode_def)
qed

end
