(* ===== verification/Context_Properties.thy ===== *)
theory Context_Properties
  imports Contexts Workers
begin

text \<open>
  The properties of the scheduling context and of the worker that stand by themselves: the
  choice of a free process, the map between threads and processes, the restriction to a set
  of threads, fresh process numbers, and the life of a client inside a worker.
\<close>

section \<open>The context\<close>

definition small_ctx :: ctx where
  "small_ctx = \<lparr>ctx_time = 0, free_threads = [- 1, 1], workers = [(1, 5), (0, 2), (- 1, - 1)]\<rparr>"

lemma small_ctx_inv: "ctx_inv 2 small_ctx"
  by (auto simp: small_ctx_def ctx_inv_def ascending_def)

text \<open>
  \<open>randomFreeProcess\<close> never fails on a well-formed context; it answers with the process of
  a free thread, every such process can come out, and \<open>kInvalidProcess\<close> comes out exactly when
  no thread is free.
\<close>

theorem randomFreeProcess_sound_complete:
  assumes "ctx_wf c"
  shows "{p. \<exists>r r'. randomFreeProcess c r = Inr (p, r')} =
      (if free_threads c = [] then {kInvalidProcess} else free_procs c) \<and>
    (\<forall>r e. randomFreeProcess c r \<noteq> Inl e)"
proof (cases "free_threads c = []")
  case True
  then show ?thesis by (auto simp: randomFreeProcess_none)
next
  case False
  have "p \<in> free_procs c" if "randomFreeProcess c r = Inr (p, r')" for p r r'
    using assms False by (rule randomFreeProcess_some [of c r]) (use that in auto)
  then show ?thesis
    using False randomFreeProcess_onto [OF assms] randomFreeProcess_fault [OF assms] by auto
qed

theorem randomFreeProcess_sound_complete_witness:
  "{p. \<exists>r r'. randomFreeProcess small_ctx r = Inr (p, r')} = free_procs small_ctx"
  using randomFreeProcess_sound_complete [OF ctx_inv_wf [OF small_ctx_inv]]
  by (simp add: small_ctx_def)

text \<open>
  \<open>processToThread\<close> inverts the map from threads to processes, and its answer does not
  depend on the order in which the unordered map is traversed; a process no thread runs gives
  \<open>kInvalidProcess\<close>.
\<close>

theorem processToThread_inverts:
  assumes "ctx_wf c"
  shows "(\<forall>t p. map_of (workers c) t = Some p \<longrightarrow> processToThread c p = t) \<and>
    (\<forall>p. p \<notin> set (map snd (workers c)) \<longrightarrow> processToThread c p = kInvalidProcess) \<and>
    (\<forall>m p. set m = set (workers c) \<longrightarrow> distinct m \<longrightarrow>
       processToThread (c\<lparr>workers := m\<rparr>) p = processToThread c p)"
proof (intro conjI allI impI)
  show "processToThread c p = t" if "map_of (workers c) t = Some p" for t p
    using processToThread_inverse [OF assms that] .
  show "processToThread c p = kInvalidProcess" if "p \<notin> set (map snd (workers c))" for p
    using find_thread_absent that by (simp add: processToThread_def)
  show "processToThread (c\<lparr>workers := m\<rparr>) p = processToThread c p"
    if m: "set m = set (workers c)" "distinct m" for m p
  proof -
    have "distinct (map snd (workers c))" using assms by (simp add: ctx_wf_def)
    then have "inj_on snd (set m)" "distinct (map snd m)"
      using m by (auto simp: distinct_map)
    then show ?thesis
      using find_thread_order [of "workers c" m p] m(1) \<open>distinct (map snd (workers c))\<close>
      by (simp add: processToThread_def)
  qed
qed

theorem processToThread_inverts_witness:
  "processToThread (small_ctx\<lparr>workers := [(0, 2), (- 1, - 1), (1, 5)]\<rparr>) 5 = 1"
proof -
  have order: "set [(0 :: int, 2 :: int), (- 1, - 1), (1, 5)] = set (workers small_ctx)"
    "distinct [(0 :: int, 2 :: int), (- 1, - 1), (1, 5)]"
    and five: "map_of (workers small_ctx) 1 = Some 5"
    by (auto simp: small_ctx_def)
  note inverts = processToThread_inverts [OF ctx_inv_wf [OF small_ctx_inv]]
  have "processToThread (small_ctx\<lparr>workers := [(0, 2), (- 1, - 1), (1, 5)]\<rparr>) 5 =
      processToThread small_ctx 5"
    using inverts order by blast
  also have "\<dots> = 1" using inverts five by blast
  finally show ?thesis .
qed

text \<open>
  \<open>onThreadsContext\<close> keeps exactly the free processes whose thread the filter accepts, and
  keeps contexts well-formed; restricting twice is restricting to the conjunction.
\<close>

theorem onThreadsContext_restricts:
  assumes "ctx_wf c"
  shows "ctx_wf (onThreadsContext f c) \<and>
    free_procs (onThreadsContext f c) = {p \<in> free_procs c. f (processToThread c p)} \<and>
    ctx_time (onThreadsContext f c) = ctx_time c \<and>
    onThreadsContext g (onThreadsContext f c) = onThreadsContext (\<lambda>t. f t \<and> g t) c"
  using assms ctx_wf_onThreadsContext free_procs_onThreadsContext onThreadsContext_twice
  by (auto simp: ctx_wf_def)

theorem onThreadsContext_restricts_witness:
  "free_procs (onThreadsContext (\<lambda>t. 0 \<le> t) small_ctx) =
     {p \<in> free_procs small_ctx. 0 \<le> processToThread small_ctx p}"
  using onThreadsContext_restricts [OF ctx_inv_wf [OF small_ctx_inv]] by blast

text \<open>
  In the context of a run with \<open>n\<close> client threads, the process \<open>nextProcess\<close> gives to a
  client thread is one that no thread runs or has run: it is the thread's process plus \<open>n\<close>,
  greater than every process the thread had and never one of another thread; the only failure
  is the overflow of the 32-bit number.
\<close>

theorem nextProcess_fresh:
  assumes inv: "ctx_inv n c" and n: "0 < n" and t: "t \<noteq> kNemesisProcess"
    and p: "map_of (workers c) t = Some p"
  shows "nextProcess c t = (if in_i32 (p + n) then Inr (p + n, c) else Inl SignedOverflow) \<and>
    p < p + n \<and> (p + n) mod n = t \<and> p + n \<notin> set (map snd (workers c)) \<and>
    ctx_inv n (c\<lparr>workers := AList.update t (p + n) (workers c)\<rparr>)"
proof -
  have range: "0 \<le> t" "t < n" "p mod n = t"
    using ctx_inv_worker_range [OF inv p] t by auto
  have "p + n \<notin> set (map snd (workers c))"
  proof
    assume "p + n \<in> set (map snd (workers c))"
    then obtain u where "(u, p + n) \<in> set (workers c)" by auto
    moreover have "distinct (map fst (workers c))" using inv by (simp add: ctx_inv_def)
    ultimately have u: "map_of (workers c) u = Some (p + n)" by simp
    have "u = t"
      using ctx_inv_worker_range [OF inv u] ctx_inv_worker_range [OF inv p] range n by auto
    then show False using u p n by simp
  qed
  moreover have "nextProcess c t = (if in_i32 (p + n) then Inr (p + n, c) else Inl SignedOverflow)"
    using nextProcess_inv [OF inv _ t p] n by (simp add: add_i32_def)
  moreover have "ctx_inv n (c\<lparr>workers := AList.update t (p + n) (workers c)\<rparr>)"
    using ctx_inv_assign_next [OF inv _ t p] n by simp
  ultimately show ?thesis using n range by auto
qed

theorem nextProcess_fresh_witness:
  "nextProcess small_ctx 1 = Inr (7, small_ctx) \<and> 7 \<notin> set (map snd (workers small_ctx))"
proof -
  have "map_of (workers small_ctx) 1 = Some 5" by (simp add: small_ctx_def)
  then show ?thesis
    using nextProcess_fresh [OF small_ctx_inv _ _ \<open>map_of (workers small_ctx) 1 = Some 5\<close>]
    by (simp add: in_i32_def)
qed

section \<open>The worker\<close>

lemma fed_worker:
  "w_kind (foldr putOp ops (ClientWorker i node)) = ClientKind"
  "w_node (foldr putOp ops (ClientWorker i node)) = node"
  "w_client (foldr putOp ops (ClientWorker i node)) = None"
  by (induction ops) (auto simp: ClientWorker_def putOp_def)

text \<open>
  C21. However long a client worker runs, whatever operations it is given and whichever client
  calls raise, the calls its clients receive follow the protocol: each client is created, opened
  on the worker's node, invoked for a single process, and closed before the next one is created.
\<close>

theorem worker_session_protocol:
  assumes "worker_iters (traced K) N n (foldr putOp ops (ClientWorker i node)) (w0, []) =
      (w', out1, (w1, calls))"
  shows "session_run node NoSession calls \<noteq> None"
proof -
  have "log_ok node (w1, calls)"
  proof (rule worker_iters_session [OF _ _ _ assms])
    show "log_state node (w0, []) = Some (worker_session (foldr putOp ops (ClientWorker i node)))"
      by (simp add: log_state_def worker_session_def fed_worker)
  qed (simp_all add: fed_worker)
  then show ?thesis by (simp add: log_state_def)
qed

text \<open>Two operations of one process, one of another, and the exit.\<close>

definition session_ops :: "operation list" where
  "session_ops =
     [factory_exit, (Operation_of ''read'' nullValue kInvoke)\<lparr>op_process := 4\<rparr>,
      (Operation_of ''read'' nullValue kInvoke)\<lparr>op_process := 1\<rparr>,
      (Operation_of ''read'' nullValue kInvoke)\<lparr>op_process := 1\<rparr>]"

lemma session_calls:
  "case worker_iters (traced (NoopClient ())) (NoopNemesis ()) 4
       (foldr putOp session_ops (ClientWorker 1 ''n1'')) ((), []) of
     (w', out1, (w1, calls)) \<Rightarrow>
       calls = [CreateCall, OpenCall ''n1'', InvokeCall 1, InvokeCall 1, CloseCall,
                CreateCall, OpenCall ''n1'', InvokeCall 4, CloseCall]"
  by code_simp

theorem worker_session_protocol_witness:
  "session_run ''n1'' NoSession
     [CreateCall, OpenCall ''n1'', InvokeCall 1, InvokeCall 1, CloseCall,
      CreateCall, OpenCall ''n1'', InvokeCall 4, CloseCall] \<noteq> None"
proof -
  obtain w' out1 w1 calls where run: "worker_iters (traced (NoopClient ())) (NoopNemesis ()) 4
       (foldr putOp session_ops (ClientWorker 1 ''n1'')) ((), []) = (w', out1, (w1, calls))"
    by (metis prod_cases4)
  then show ?thesis
    using worker_session_protocol [OF run] session_calls by simp
qed

end
