(* ===== verification/Effects.thy ===== *)
theory Effects
  imports Prelude "HOL-Library.Multiset"
begin

text \<open>
  Loops over calls with effects. The code that talks to libssh2 in non-blocking mode repeats a
  call while it answers \<open>EAGAIN\<close>; whether such a loop ends is up to the other side, so it gets a
  number of rounds and raises \<open>Diverges\<close> when they are used up. \<open>retry_total\<close> is the rule for total
  correctness: an invariant and a measure of the world that every round decreases.
\<close>

lemma act_spec_total:
  assumes "act_spec P m Q (\<lambda>_. False)" and "P w"
  shows "\<exists>x w'. m w = (Inr x, w') \<and> Q x w'"
proof (cases "m w")
  case (Pair r w')
  have "case m w of (Inl e, w') \<Rightarrow> False | (Inr x, w') \<Rightarrow> Q x w'"
    using assms(1) [unfolded act_spec_def, THEN spec, of w, THEN mp, OF assms(2)] .
  then show ?thesis using Pair by (cases r) auto
qed

lemma act_bind_return [simp]: "act_bind (act_return x) f = f x"
  by (simp add: fun_eq_iff act_bind_def act_return_def)

lemma act_bind_raise [simp]: "act_bind (act_raise e) f = act_raise e"
  by (simp add: fun_eq_iff act_bind_def act_raise_def)

lemma act_bind_step: "m w = (Inr x, v) \<Longrightarrow> act_bind m f w = f x v"
  by (simp add: act_bind_def)

text \<open>A call that keeps \<open>P\<close> whatever happens, and returns only what satisfies \<open>Q\<close>.\<close>

definition keeps :: "('w \<Rightarrow> bool) \<Rightarrow> ('w, 'a) act \<Rightarrow> ('a \<Rightarrow> bool) \<Rightarrow> bool" where
  "keeps P m Q \<longleftrightarrow> (\<forall>w r w'. m w = (r, w') \<longrightarrow> P w \<longrightarrow> P w' \<and> (\<forall>x. r = Inr x \<longrightarrow> Q x))"

lemma keepsI:
  "(\<And>w r w'. m w = (r, w') \<Longrightarrow> P w \<Longrightarrow> P w' \<and> (\<forall>x. r = Inr x \<longrightarrow> Q x)) \<Longrightarrow> keeps P m Q"
  unfolding keeps_def by blast

lemma keepsD:
  assumes "keeps P m Q" and "m w = (r, w')" and "P w"
  shows "P w'" and "r = Inr x \<Longrightarrow> Q x"
  using assms unfolding keeps_def by blast+

lemma keeps_return: "Q x \<Longrightarrow> keeps P (act_return x) Q"
  by (simp add: keeps_def act_return_def)

lemma keeps_raise: "keeps P (act_raise e) Q"
  by (simp add: keeps_def act_raise_def)

lemma keeps_bind:
  assumes m: "keeps P m Q" and f: "\<And>x. Q x \<Longrightarrow> keeps P (f x) S"
  shows "keeps P (act_bind m f) S"
proof (rule keepsI)
  fix w r w'
  assume b: "act_bind m f w = (r, w')" and w: "P w"
  obtain q v where q: "m w = (q, v)" by force
  show "P w' \<and> (\<forall>x. r = Inr x \<longrightarrow> S x)"
  proof (cases q)
    case (Inl e)
    then show ?thesis using b q keepsD(1) [OF m q w] by (auto simp: act_bind_def)
  next
    case (Inr x)
    then have fx: "f x v = (r, w')" using b q by (simp add: act_bind_def)
    note fx_keeps = f [OF keepsD(2) [OF m q w Inr]]
    show ?thesis using keepsD(1,2) [OF fx_keeps fx keepsD(1) [OF m q w]] by simp
  qed
qed

lemma keeps_mono: "keeps P m Q \<Longrightarrow> (\<And>x. Q x \<Longrightarrow> S x) \<Longrightarrow> keeps P m S"
  unfolding keeps_def by blast

section \<open>Repeating a call\<close>

fun retry :: "nat \<Rightarrow> ('a \<Rightarrow> bool) \<Rightarrow> ('w, 'a) act \<Rightarrow> ('w, unit) act \<Rightarrow> ('w, 'a) act" where
  "retry 0 again call wait = act_raise Diverges"
| "retry (Suc n) again call wait =
     act_bind call (\<lambda>x.
       if again x then act_bind wait (\<lambda>_. retry n again call wait) else act_return x)"

lemma retry_result: "retry n again call wait w = (Inr x, w') \<Longrightarrow> \<not> again x"
  by (induction n again call wait arbitrary: w rule: retry.induct)
    (auto simp: res_simps split: if_splits)

lemma retry_last_call:
  "retry n again call wait w = (Inr x, w') \<Longrightarrow> \<exists>v. call v = (Inr x, w')"
  by (induction n again call wait arbitrary: w rule: retry.induct)
    (auto simp: res_simps split: if_splits)

text \<open>More rounds do not change a result.\<close>

lemma retry_mono:
  "retry n again call wait w = (Inr x, w') \<Longrightarrow> n \<le> m \<Longrightarrow> retry m again call wait w = (Inr x, w')"
proof (induction n arbitrary: m w)
  case 0
  then show ?case by (simp add: res_simps)
next
  case (Suc n)
  obtain k where m: "m = Suc k" "n \<le> k" using Suc.prems(2) by (cases m) auto
  obtain y v where y: "call w = (Inr y, v)"
    "(if again y then act_bind wait (\<lambda>_. retry n again call wait) else act_return y) v = (Inr x, w')"
    using Suc.prems(1) by (auto simp: act_bind_eq_Inr)
  show ?case
  proof (cases "again y")
    case True
    then obtain u where "wait v = (Inr (), u)" "retry n again call wait u = (Inr x, w')"
      using y(2) by (auto simp: act_bind_eq_Inr)
    moreover have "retry k again call wait u = (Inr x, w')"
      using Suc.IH m(2) \<open>retry n again call wait u = (Inr x, w')\<close> by blast
    ultimately have "(if again y then act_bind wait (\<lambda>_. retry k again call wait)
        else act_return y) v = (Inr x, w')"
      using True by (simp add: act_bind_def)
    then show ?thesis using y(1) m(1) by (simp add: act_bind_def)
  next
    case False
    then show ?thesis using y m(1) by (simp add: act_bind_def)
  qed
qed

lemma act_spec_measure:
  assumes "\<And>k. k \<le> n \<Longrightarrow> act_spec (\<lambda>w. I w \<and> (m w :: nat) = k) c Q R"
  shows "act_spec (\<lambda>w. I w \<and> m w < Suc n) c Q R"
  unfolding act_spec_def
proof (intro allI impI)
  fix w
  assume w: "I w \<and> m w < Suc n"
  then have "m w \<le> n" by simp
  note spec = assms [OF this, unfolded act_spec_def, THEN spec, of w, THEN mp]
  show "case c w of (Inl e, w') \<Rightarrow> R w' | (Inr x, w') \<Rightarrow> Q x w'"
    by (rule spec) (simp add: w)
qed

lemma retry_total:
  assumes body: "\<And>k. act_spec (\<lambda>w. I w \<and> m w = k) call
      (\<lambda>x w. if again x then J k w else Q x w) R"
    and wait: "\<And>k. act_spec (J k) wait (\<lambda>_ w. I w \<and> m w < k) R"
  shows "act_spec (\<lambda>w. I w \<and> m w < n) (retry n again call wait) Q R"
proof (induction n)
  case 0
  then show ?case by (simp add: act_spec_def)
next
  case (Suc n)
  have "act_spec (\<lambda>w. I w \<and> m w = k) (retry (Suc n) again call wait) Q R" if k: "k \<le> n" for k
    unfolding retry.simps
  proof (rule act_spec_bind [OF body [of k]])
    fix x
    show "act_spec (\<lambda>w. if again x then J k w else Q x w)
      (if again x then act_bind wait (\<lambda>_. retry n again call wait) else act_return x) Q R"
    proof (cases "again x")
      case True
      have "act_spec (\<lambda>w. I w \<and> m w < k) (retry n again call wait) Q R"
        using Suc.IH by (rule act_spec_pre) (use k in auto)
      then show ?thesis using True act_spec_bind [OF wait [of k]] by simp
    next
      case False
      then show ?thesis by (simp add: act_spec_return)
    qed
  qed
  then show ?case by (rule act_spec_measure)
qed

text \<open>
  A call that fails a known number of times: \<open>cnt\<close> counts the failures that are left and \<open>frame\<close>
  is what neither the call nor the wait changes.
\<close>

lemma retry_counted:
  assumes call: "\<And>w. \<exists>w'. call w = (Inr (if cnt w = 0 then good else bad), w') \<and>
      cnt w' = cnt w - 1 \<and> frame w' = frame w"
    and wait: "\<And>w. \<exists>w'. wait w = (Inr (), w') \<and> cnt w' = cnt w \<and> frame w' = frame w"
    and again: "again bad" "\<not> again good" and n: "cnt w < n"
  shows "\<exists>w'. retry n again call wait w = (Inr good, w') \<and> cnt w' = 0 \<and> frame w' = frame w"
proof -
  have "act_spec (\<lambda>v. frame v = frame w \<and> cnt v < n) (retry n again call wait)
      (\<lambda>x v. x = good \<and> cnt v = 0 \<and> frame v = frame w) (\<lambda>_. False)"
  proof (rule retry_total [where J = "\<lambda>k v. frame v = frame w \<and> cnt v < k"])
    fix k
    show "act_spec (\<lambda>v. frame v = frame w \<and> cnt v = k) call
        (\<lambda>x v. if again x then frame v = frame w \<and> cnt v < k
               else x = good \<and> cnt v = 0 \<and> frame v = frame w) (\<lambda>_. False)"
      unfolding act_spec_def
    proof (intro allI impI)
      fix v
      assume v: "frame v = frame w \<and> cnt v = k"
      obtain v' where "call v = (Inr (if cnt v = 0 then good else bad), v')" "cnt v' = cnt v - 1"
        "frame v' = frame v"
        using call by blast
      then show "case call v of (Inl e, v') \<Rightarrow> False
        | (Inr x, v') \<Rightarrow> if again x then frame v' = frame w \<and> cnt v' < k
               else x = good \<and> cnt v' = 0 \<and> frame v' = frame w"
        using v again by auto
    qed
    show "act_spec (\<lambda>v. frame v = frame w \<and> cnt v < k) wait
        (\<lambda>_ v. frame v = frame w \<and> cnt v < k) (\<lambda>_. False)"
      unfolding act_spec_def
    proof (intro allI impI)
      fix v
      assume v: "frame v = frame w \<and> cnt v < k"
      obtain v' where "wait v = (Inr (), v')" "cnt v' = cnt v" "frame v' = frame v"
        using wait by blast
      then show "case wait v of (Inl e, v') \<Rightarrow> False
        | (Inr x, v') \<Rightarrow> frame v' = frame w \<and> cnt v' < k"
        using v by auto
    qed
  qed
  from act_spec_total [OF this, of w] show ?thesis using n by blast
qed

section \<open>Doing something for every element\<close>

fun act_for :: "('a \<Rightarrow> ('w, unit) act) \<Rightarrow> 'a list \<Rightarrow> ('w, unit) act" where
  "act_for f [] = act_return ()"
| "act_for f (x # xs) = act_bind (f x) (\<lambda>_. act_for f xs)"

lemma act_for_append: "act_for f (xs @ ys) w = act_bind (act_for f xs) (\<lambda>_. act_for f ys) w"
  by (induction xs arbitrary: w)
    (auto simp: act_return_def act_bind_def split: prod.splits sum.splits)

text \<open>A call whose result is dropped.\<close>

definition act_void :: "('w, 'a) act \<Rightarrow> ('w, unit) act" where
  "act_void m = act_bind m (\<lambda>_. act_return ())"

lemma act_void_eq [res_simps]: "act_void m w = (Inr u, w') \<longleftrightarrow> (\<exists>x. m w = (Inr x, w'))"
  by (auto simp: act_void_def res_simps)

lemma act_for_step: "f x w = (Inr (), v) \<Longrightarrow> act_for f (x # xs) w = act_for f xs v"
  by (simp add: act_bind_def)

text \<open>Every call keeps \<open>I\<close>, whether it returns or raises.\<close>

lemma act_for_invariant:
  assumes "\<And>x. x \<in> set xs \<Longrightarrow> act_spec I (f x) (\<lambda>_. I) I"
  shows "act_spec I (act_for f xs) (\<lambda>_. I) I"
  using assms
proof (induction xs)
  case Nil
  then show ?case by (simp add: act_spec_return)
next
  case (Cons x xs)
  have "act_spec I (act_bind (f x) (\<lambda>_. act_for f xs)) (\<lambda>_. I) I"
    by (rule act_spec_bind [where I = "\<lambda>_. I"]) (use Cons in auto)
  then show ?case by simp
qed

lemma keeps_act_for:
  "(\<And>x. x \<in> set xs \<Longrightarrow> keeps P (f x) (\<lambda>_. True)) \<Longrightarrow> keeps P (act_for f xs) (\<lambda>_. True)"
  by (induction xs) (auto intro: keeps_return keeps_bind)

text \<open>A call that always raises stops the loop.\<close>

lemma act_for_raises:
  "x \<in> set xs \<Longrightarrow> (\<And>w. \<exists>e w'. f x w = (Inl e, w')) \<Longrightarrow> \<exists>e w'. act_for f xs w = (Inl e, w')"
proof (induction xs arbitrary: w)
  case (Cons y ys)
  obtain q v where q: "f y w = (q, v)" by (meson surj_pair)
  show ?case
  proof (cases q)
    case (Inl e)
    then show ?thesis using q by (simp add: act_bind_def)
  next
    case (Inr u)
    then have "x \<noteq> y" using Cons.prems(2) [of w] q by auto
    then have "\<exists>e w'. act_for f ys v = (Inl e, w')" using Cons by simp
    then show ?thesis using q Inr by (simp add: act_bind_def)
  qed
qed simp

lemma act_for_frame:
  assumes "\<And>x r w w'. x \<in> set xs \<Longrightarrow> f x w = (r, w') \<Longrightarrow> g w' = g w"
    and "act_for f xs w = (r, w')"
  shows "g w' = g w"
  using assms
proof (induction xs arbitrary: w)
  case Nil
  then show ?case by (simp add: act_return_def)
next
  case (Cons x xs)
  obtain q v where q: "f x w = (q, v)" by force
  have v: "g v = g w" using Cons.prems(1) [OF _ q] by simp
  show ?case
  proof (cases q)
    case (Inl e)
    then show ?thesis using Cons.prems(2) q v by (simp add: act_bind_def)
  next
    case (Inr u)
    then have "act_for f xs v = (r, w')" using Cons.prems(2) q by (simp add: act_bind_def)
    moreover have "g z' = g z" if "y \<in> set xs" "f y z = (s, z')" for y s z z'
      using Cons.prems(1) [of y z s z'] that by simp
    ultimately have "g w' = g v" using Cons.IH by blast
    then show ?thesis using v by simp
  qed
qed

text \<open>Every call that returns keeps \<open>I\<close> and appends what \<open>ev\<close> says to a log.\<close>

lemma act_for_log:
  assumes "\<And>x w w'. x \<in> set xs \<Longrightarrow> I w \<Longrightarrow> f x w = (Inr (), w') \<Longrightarrow> I w' \<and> lg w' = lg w @ ev x"
    and "I w" and "act_for f xs w = (Inr u, w')"
  shows "I w' \<and> lg w' = lg w @ concat (map ev xs)"
  using assms
proof (induction xs arbitrary: w)
  case Nil
  then show ?case by (simp add: act_return_def)
next
  case (Cons x xs)
  obtain v where v: "f x w = (Inr (), v)" "act_for f xs v = (Inr u, w')"
    using Cons.prems(3) by (auto simp: act_bind_eq_Inr)
  have one: "I v \<and> lg v = lg w @ ev x" using Cons.prems(1) [OF _ Cons.prems(2) v(1)] by simp
  moreover have "I w' \<and> lg w' = lg v @ concat (map ev xs)"
  proof (rule Cons.IH [OF _ _ v(2)])
    show "I z' \<and> lg z' = lg z @ ev y" if "y \<in> set xs" "I z" "f y z = (Inr (), z')" for y z z'
      using Cons.prems(1) [of y z z'] that by simp
    show "I v" using one by simp
  qed
  ultimately show ?case by simp
qed

section \<open>Doing things in parallel\<close>

text \<open>
  \<open>ts\<close> holds the steps of some threads. A schedule says which thread takes the next step; when it
  is used up the rest is done in order, so every schedule is complete, and every interleaving of
  the threads has one.
\<close>

fun par_order :: "nat list \<Rightarrow> 'a list list \<Rightarrow> 'a list" where
  "par_order [] ts = concat ts"
| "par_order (i # is) ts =
     (if i < length ts \<and> ts ! i \<noteq> []
      then hd (ts ! i) # par_order is (ts[i := tl (ts ! i)])
      else par_order is ts)"

definition interleaved :: "nat list \<Rightarrow> ('a \<Rightarrow> ('w, unit) act) \<Rightarrow> 'a list list \<Rightarrow> ('w, unit) act" where
  "interleaved is f ts = act_for f (par_order is ts)"

text \<open>
  An exception that leaves an element function of a loop under \<open>std::execution::par\<close> does not reach the
  caller: it terminates the program.
\<close>

definition no_exception :: "('w, 'a) act \<Rightarrow> ('w, 'a) act" where
  "no_exception m w =
     (case m w of
        (Inl e, w') \<Rightarrow> (Inl (if thrown e then ProcessExit else e), w')
      | (Inr x, w') \<Rightarrow> (Inr x, w'))"

definition par_for :: "nat list \<Rightarrow> ('a \<Rightarrow> ('w, unit) act) \<Rightarrow> 'a list list \<Rightarrow> ('w, unit) act" where
  "par_for is f ts = no_exception (interleaved is f ts)"

lemma par_for_Inr [res_simps]:
  "par_for is f ts w = (Inr (), w') \<longleftrightarrow> act_for f (par_order is ts) w = (Inr (), w')"
  by (auto simp: par_for_def no_exception_def interleaved_def split: prod.splits sum.splits)

lemma par_for_frame:
  assumes "par_for is f ts w = (x, w')"
  obtains y where "act_for f (par_order is ts) w = (y, w')"
  using assms by (auto simp: par_for_def no_exception_def interleaved_def split: prod.splits sum.splits)

lemma par_for_Inl:
  "par_for is f ts w = (Inl e, w') \<Longrightarrow> \<not> thrown e"
  by (auto simp: par_for_def no_exception_def thrown_def split: prod.splits sum.splits if_splits)

lemma par_for_raises:
  "act_for f (par_order is ts) w = (Inl e, w') \<Longrightarrow> \<exists>e. par_for is f ts w = (Inl e, w')"
  by (simp add: par_for_def no_exception_def interleaved_def)

lemma mset_concat_step:
  "i < length ts \<Longrightarrow> ts ! i \<noteq> [] \<Longrightarrow>
     mset (concat ts) = add_mset (hd (ts ! i)) (mset (concat (ts[i := tl (ts ! i)])))"
proof (induction ts arbitrary: i)
  case (Cons t ts)
  then show ?case by (cases i; cases t) auto
qed simp

lemma mset_par_order: "mset (par_order is ts) = mset (concat ts)"
  by (induction "is" ts rule: par_order.induct) (auto simp: mset_concat_step simp del: mset_concat)

lemma set_par_order: "set (par_order is ts) = \<Union> (set (map set ts))"
  using mset_par_order [of "is" ts] by (metis mset_eq_setD set_concat set_map)

lemma concat_map_update:
  "i < length ts \<Longrightarrow> f (ts ! i) = [] \<Longrightarrow> f t = [] \<Longrightarrow>
     concat (map f (ts[i := t])) = concat (map f ts)"
proof (induction ts arbitrary: i)
  case (Cons a ts)
  then show ?case by (cases i) auto
qed simp

text \<open>What one thread does is done in its order.\<close>

lemma filter_par_order:
  assumes "\<And>j. j < length ts \<Longrightarrow> j \<noteq> k \<Longrightarrow> filter P (ts ! j) = []" and "k < length ts"
  shows "filter P (par_order is ts) = filter P (ts ! k)"
  using assms
proof (induction "is" ts rule: par_order.induct)
  case (1 ts)
  have others: "filter P t = []" if t: "t \<in> set (take k ts) \<or> t \<in> set (drop (Suc k) ts)" for t
  proof -
    have "\<exists>j < length ts. j \<noteq> k \<and> t = ts ! j"
    proof (cases "t \<in> set (take k ts)")
      case True
      then obtain i where "i < k" "i < length ts" "t = ts ! i" by (auto simp: in_set_conv_nth)
      then show ?thesis by blast
    next
      case False
      then obtain i where "i < length ts - Suc k" "t = ts ! (Suc k + i)"
        using t by (auto simp: in_set_conv_nth)
      then show ?thesis by (intro exI [of _ "Suc k + i"]) simp
    qed
    then show ?thesis using 1(1) by blast
  qed
  have "filter P (concat ts) = concat (map (filter P) ts)" by (simp add: filter_concat)
  also have "\<dots> = concat (map (filter P) (take k ts @ ts ! k # drop (Suc k) ts))"
    using 1(2) by (simp add: id_take_nth_drop [symmetric])
  also have "\<dots> = filter P (ts ! k)"
  proof -
    have "concat (map (filter P) (take k ts)) = []" "concat (map (filter P) (drop (Suc k) ts)) = []"
      using others by (simp_all only: concat_eq_Nil_conv set_map) blast+
    then show ?thesis by (simp only: map_append list.map concat_append concat.simps append_Nil append_Nil2)
  qed
  finally show ?case by simp
next
  case (2 i "is" ts)
  show ?case
  proof (cases "i < length ts \<and> ts ! i \<noteq> []")
    case True
    let ?ts = "ts[i := tl (ts ! i)]"
    have hd: "filter P (ts ! i) = (if P (hd (ts ! i)) then [hd (ts ! i)] else []) @ filter P (tl (ts ! i))"
      using True by (cases "ts ! i") auto
    have "filter P (?ts ! j) = []" if "j < length ?ts" "j \<noteq> k" for j
      using 2(3) [of j] that hd by (cases "j = i") (auto split: if_splits)
    then have "filter P (par_order is ?ts) = filter P (?ts ! k)"
      using 2(1) True 2(4) by simp
    then show ?thesis
      using True hd 2(3) [of i] 2(4) by (cases "i = k") (auto split: if_splits)
  next
    case False
    then have "par_order (i # is) ts = par_order is ts" by auto
    moreover have "filter P (par_order is ts) = filter P (ts ! k)"
      using 2(2) [OF False] 2(3,4) by blast
    ultimately show ?thesis by simp
  qed
qed

text \<open>Every interleaving of two threads is the order of some schedule.\<close>

lemma par_order_shuffles: "zs \<in> shuffles xs ys \<Longrightarrow> \<exists>is. par_order is [xs, ys] = zs"
proof (induction zs arbitrary: xs ys)
  case Nil
  then show ?case by (intro exI [of _ "[]"]) simp
next
  case (Cons z zs)
  then consider "xs \<noteq> []" "hd xs = z" "zs \<in> shuffles (tl xs) ys"
    | "ys \<noteq> []" "hd ys = z" "zs \<in> shuffles xs (tl ys)"
    by (auto simp: Cons_in_shuffles_iff)
  then show ?case
  proof cases
    case 1
    then obtain "is" where "par_order is [tl xs, ys] = zs" using Cons.IH by blast
    then show ?thesis using 1 by (intro exI [of _ "0 # is"]) simp
  next
    case 2
    then obtain "is" where "par_order is [xs, tl ys] = zs" using Cons.IH by blast
    then show ?thesis using 2 by (intro exI [of _ "1 # is"]) simp
  qed
qed

end
