(* ===== verification/Ssh.thy ===== *)
theory Ssh
  imports Effects
begin

text \<open>
  SSH connections (\<open>control/SSHClient.h\<close>, \<open>SSHClient.cpp\<close>, \<open>SSHChannel.h\<close>, \<open>SSHChannel.cpp\<close>,
  \<open>SSHConfig.h\<close>, \<open>RemoteSpec.h\<close>), and the thread of the trial program \<open>src/main.cpp\<close>.

  The socket calls of the operating system and libssh2 are fields of the parameter record
  \<open>ssh_lib\<close>, its constants included; handles of sessions, host lists and channels are of types
  that the library chooses. A call may read and change the world and may raise. The loops that
  repeat a call while it answers \<open>EAGAIN\<close> get a number of rounds \<open>n\<close>. Messages to the log and to
  \<open>stderr\<close> are left out.
\<close>

section \<open>The library\<close>

record ('s, 'k, 'h, 'w) ssh_lib =
  EAGAIN :: int
  BLOCK_INBOUND :: int
  BLOCK_OUTBOUND :: int
  inet_addr :: "string \<Rightarrow> int"
  sys_socket :: "('w, int) act"
  sys_connect :: "int \<Rightarrow> int \<Rightarrow> int \<Rightarrow> ('w, int) act"
  sys_close :: "int \<Rightarrow> ('w, int) act"
  sys_select :: "int \<Rightarrow> bool \<Rightarrow> bool \<Rightarrow> ('w, int) act"
  ssh_init :: "('w, int) act"
  ssh_exit :: "('w, unit) act"
  session_init :: "('w, 's option) act"
  session_set_blocking :: "'s \<Rightarrow> int \<Rightarrow> ('w, unit) act"
  session_handshake :: "'s \<Rightarrow> int \<Rightarrow> ('w, int) act"
  session_hostkey :: "'s \<Rightarrow> ('w, string option) act"
  session_block_directions :: "'s option \<Rightarrow> ('w, int) act"
  session_last_error :: "'s option \<Rightarrow> ('w, int) act"
  session_disconnect :: "'s \<Rightarrow> string \<Rightarrow> ('w, int) act"
  session_free :: "'s \<Rightarrow> ('w, int) act"
  knownhost_init :: "'s \<Rightarrow> ('w, 'k option) act"
  knownhost_readfile :: "'k \<Rightarrow> string \<Rightarrow> ('w, int) act"
  knownhost_writefile :: "'k \<Rightarrow> string \<Rightarrow> ('w, int) act"
  knownhost_checkp :: "'k \<Rightarrow> string \<Rightarrow> int \<Rightarrow> string \<Rightarrow> ('w, int) act"
  knownhost_free :: "'k \<Rightarrow> ('w, unit) act"
  userauth_password :: "'s \<Rightarrow> string \<Rightarrow> string \<Rightarrow> ('w, int) act"
  userauth_publickey_fromfile :: "'s \<Rightarrow> string \<Rightarrow> string \<Rightarrow> string \<Rightarrow> string \<Rightarrow> ('w, int) act"
  channel_open_session :: "'s option \<Rightarrow> ('w, 'h option) act"
  channel_exec :: "'h \<Rightarrow> string \<Rightarrow> ('w, int) act"
  channel_read :: "'h \<Rightarrow> ('w, int \<times> string) act"
  channel_read_stderr :: "'h \<Rightarrow> ('w, int \<times> string) act"
  channel_close :: "'h \<Rightarrow> ('w, int) act"
  channel_get_exit_status :: "'h \<Rightarrow> ('w, int) act"
  channel_get_exit_signal :: "'h \<Rightarrow> ('w, string option) act"
  channel_free :: "'h \<Rightarrow> ('w, int) act"

text \<open>\<open>waitsocket\<close>; the flags are bits of the directions.\<close>

definition has_flag :: "int \<Rightarrow> int \<Rightarrow> bool" where
  "has_flag dir flag \<longleftrightarrow> and dir flag \<noteq> 0"

definition waitsocket ::
  "('s, 'k, 'h, 'w) ssh_lib \<Rightarrow> int \<Rightarrow> 's option \<Rightarrow> ('w, int) act" where
  "waitsocket L fd session =
     act_bind (session_block_directions L session) (\<lambda>dir.
       sys_select L fd (has_flag dir (BLOCK_INBOUND L)) (has_flag dir (BLOCK_OUTBOUND L)))"

section \<open>Channels\<close>

text \<open>\<open>SSHChannel::createChannel\<close>; the result is paired with whether the call is repeated.\<close>

definition createChannel ::
  "('s, 'k, 'h, 'w) ssh_lib \<Rightarrow> nat \<Rightarrow> int \<Rightarrow> 's option \<Rightarrow> ('w, 'h option) act" where
  "createChannel L n sock session =
     act_bind
       (retry n snd
          (act_bind (channel_open_session L session) (\<lambda>temp.
             if temp = None
             then act_bind (session_last_error L session) (\<lambda>e. act_return (temp, e = EAGAIN L))
             else act_return (temp, False)))
          (act_void (waitsocket L sock session)))
       (\<lambda>(temp, _). act_return temp)"

text \<open>The constructor.\<close>

definition SSHChannel_ctor ::
  "('s, 'k, 'h, 'w) ssh_lib \<Rightarrow> nat \<Rightarrow> 's option \<Rightarrow> int \<Rightarrow> ('w, 'h) act" where
  "SSHChannel_ctor L n session sock =
     act_bind (createChannel L n sock session) (\<lambda>ch.
       case ch of None \<Rightarrow> act_raise ProcessExit | Some h \<Rightarrow> act_return h)"

text \<open>
  A loop that reads a stream to its end; \<open>n\<close> bounds the calls of \<open>read\<close>. What has been read is
  appended to \<open>acc\<close>. After data the inner loop of the source goes on, after \<open>EAGAIN\<close> the outer one;
  everything else ends both.
\<close>

fun read_all ::
  "int \<Rightarrow> nat \<Rightarrow> ('w, int \<times> string) act \<Rightarrow> ('w, unit) act \<Rightarrow> string \<Rightarrow> ('w, string) act" where
  "read_all eagain 0 read wait acc = act_raise Diverges"
| "read_all eagain (Suc n) read wait acc =
     act_bind read (\<lambda>(rc, buf).
       if rc > 0 then read_all eagain n read wait (acc @ buf)
       else if rc = eagain then act_bind wait (\<lambda>_. read_all eagain n read wait acc)
       else act_return acc)"

definition SSHChannel_exec ::
  "('s, 'k, 'h, 'w) ssh_lib \<Rightarrow> nat \<Rightarrow> 'h \<Rightarrow> int \<Rightarrow> string \<Rightarrow> 's option \<Rightarrow> string \<Rightarrow> string
     \<Rightarrow> ('w, bool \<times> string \<times> string) act" where
  "SSHChannel_exec L n h sock command session channel_stdout channel_stderr =
     act_bind
       (retry n (\<lambda>rc. rc = EAGAIN L) (channel_exec L h command)
          (act_void (waitsocket L sock session)))
       (\<lambda>rc.
         if rc \<noteq> 0 then act_raise ProcessExit
         else
           act_bind (read_all (EAGAIN L) n (channel_read L h)
               (act_void (waitsocket L sock session)) channel_stdout) (\<lambda>out.
             act_bind (read_all (EAGAIN L) n (channel_read_stderr L h)
                 (act_void (waitsocket L sock session)) channel_stderr) (\<lambda>err.
               act_return (True, out, err))))"

text \<open>\<open>exitsignal\<close> starts as the string \<open>none\<close>, so a channel that cannot be closed counts as failed.\<close>

definition SSHChannel_close ::
  "('s, 'k, 'h, 'w) ssh_lib \<Rightarrow> nat \<Rightarrow> 'h \<Rightarrow> int \<Rightarrow> 's option \<Rightarrow> ('w, bool) act" where
  "SSHChannel_close L n h sock session =
     act_bind
       (retry n (\<lambda>rc. rc = EAGAIN L) (channel_close L h) (act_void (waitsocket L sock session)))
       (\<lambda>rc.
         act_bind
           (if rc = 0 then
              act_bind (channel_get_exit_status L h) (\<lambda>exitcode.
                act_bind (channel_get_exit_signal L h) (\<lambda>exitsignal.
                  act_return (exitcode, exitsignal)))
            else act_return (127, Some ''none''))
           (\<lambda>(exitcode, exitsignal).
             let flag = (if exitsignal \<noteq> None then False else exitcode = 0) in
             act_bind (channel_free L h) (\<lambda>_. act_return flag)))"

section \<open>Clients\<close>

definition kSocketInit :: int where
  "kSocketInit = - 1"

record 's ssh_client =
  sc_ip_addr :: string
  sc_host_addr :: int
  sc_port :: int
  sc_username :: string
  sc_password :: string
  sc_sock :: int
  sc_session :: "'s option"

definition SSHClient_ctor ::
  "('s, 'k, 'h, 'w) ssh_lib \<Rightarrow> string \<Rightarrow> string \<Rightarrow> string \<Rightarrow> int \<Rightarrow> ('w, 's ssh_client) act" where
  "SSHClient_ctor L ip_addr username password port =
     act_bind (ssh_init L) (\<lambda>rc.
       if rc \<noteq> 0 then act_raise ProcessExit
       else
         act_return
           \<lparr>sc_ip_addr = ip_addr, sc_host_addr = inet_addr L ip_addr, sc_port = port,
            sc_username = username, sc_password = password, sc_sock = kSocketInit,
            sc_session = None\<rparr>)"

definition disConnect ::
  "('s, 'k, 'h, 'w) ssh_lib \<Rightarrow> 's ssh_client \<Rightarrow> ('w, bool \<times> 's ssh_client) act" where
  "disConnect L c =
     act_bind
       (case sc_session c of
          None \<Rightarrow> act_return c
        | Some s \<Rightarrow>
            act_bind (session_disconnect L s ''Normal Shutdown, Thank you for playing'') (\<lambda>_.
              act_bind (session_free L s) (\<lambda>_. act_return (c\<lparr>sc_session := None\<rparr>))))
       (\<lambda>c1.
         act_bind
           (if sc_sock c1 \<noteq> kSocketInit
            then act_bind (sys_close L (sc_sock c1)) (\<lambda>_. act_return (c1\<lparr>sc_sock := kSocketInit\<rparr>))
            else act_return c1)
           (\<lambda>c2. act_return (True, c2)))"

definition SSHClient_dtor ::
  "('s, 'k, 'h, 'w) ssh_lib \<Rightarrow> 's ssh_client \<Rightarrow> ('w, unit) act" where
  "SSHClient_dtor L c = act_bind (disConnect L c) (\<lambda>_. ssh_exit L)"

text \<open>
  The assignment and the copy constructor make a temporary client of the other's data, which is
  destroyed at once; the members of a copy stay as they were (\<open>junk\<close>).
\<close>

definition SSHClient_assign ::
  "('s, 'k, 'h, 'w) ssh_lib \<Rightarrow> bool \<Rightarrow> 's ssh_client \<Rightarrow> 's ssh_client \<Rightarrow> ('w, 's ssh_client) act" where
  "SSHClient_assign L same_object this rhs =
     (if same_object then act_return this
      else
        act_bind (SSHClient_ctor L (sc_ip_addr rhs) (sc_username rhs) (sc_password rhs) (sc_port rhs))
          (\<lambda>tmp. act_bind (SSHClient_dtor L tmp) (\<lambda>_. act_return this)))"

definition SSHClient_copy ::
  "('s, 'k, 'h, 'w) ssh_lib \<Rightarrow> 's ssh_client \<Rightarrow> 's ssh_client \<Rightarrow> ('w, 's ssh_client) act" where
  "SSHClient_copy L junk other =
     act_bind
       (SSHClient_ctor L (sc_ip_addr other) (sc_username other) (sc_password other) (sc_port other))
       (\<lambda>tmp. act_bind (SSHClient_dtor L tmp) (\<lambda>_. act_return junk))"

text \<open>
  \<open>connectTo\<close>, cut at its early returns. \<open>authenticate\<close> is its last part; the loops around the
  handshake and the authentication spin without waiting.
\<close>

definition authenticate ::
  "('s, 'k, 'h, 'w) ssh_lib \<Rightarrow> nat \<Rightarrow> 's \<Rightarrow> 's ssh_client \<Rightarrow> ('w, bool \<times> 's ssh_client) act" where
  "authenticate L n s c =
     act_bind
       (retry n (\<lambda>rc. rc = EAGAIN L)
          (if length (sc_password c) \<noteq> 0
           then userauth_password L s (sc_username c) (sc_password c)
           else userauth_publickey_fromfile L s (sc_username c) ''/home/young/.ssh/id_rsa.pub''
                  ''/home/young/.ssh/id_rsa'' (sc_password c))
          (act_return ()))
       (\<lambda>rc.
         if rc \<noteq> 0 then act_bind (disConnect L c) (\<lambda>(_, c1). act_return (False, c1))
         else act_return (True, c))"

definition check_host ::
  "('s, 'k, 'h, 'w) ssh_lib \<Rightarrow> nat \<Rightarrow> 's \<Rightarrow> 'k \<Rightarrow> 's ssh_client \<Rightarrow> ('w, bool \<times> 's ssh_client) act" where
  "check_host L n s nh c =
     act_bind (knownhost_readfile L nh ''/home/young/.ssh/known_hosts'') (\<lambda>_.
       act_bind (knownhost_writefile L nh ''dumpfile'') (\<lambda>_.
         act_bind (session_hostkey L s) (\<lambda>fingerprint.
           case fingerprint of
             None \<Rightarrow> act_return (False, c)
           | Some key \<Rightarrow>
               act_bind (knownhost_checkp L nh (sc_ip_addr c) (sc_port c) key) (\<lambda>check.
                 act_bind (knownhost_free L nh) (\<lambda>_. authenticate L n s c)))))"

definition start_session ::
  "('s, 'k, 'h, 'w) ssh_lib \<Rightarrow> nat \<Rightarrow> 's ssh_client \<Rightarrow> ('w, bool \<times> 's ssh_client) act" where
  "start_session L n c =
     act_bind (session_init L) (\<lambda>session.
       case session of
         None \<Rightarrow> act_return (False, c\<lparr>sc_session := None\<rparr>)
       | Some s \<Rightarrow>
           let c1 = c\<lparr>sc_session := Some s\<rparr> in
           act_bind (session_set_blocking L s 0) (\<lambda>_.
             act_bind
               (retry n (\<lambda>rc. rc = EAGAIN L) (session_handshake L s (sc_sock c1)) (act_return ()))
               (\<lambda>rc.
                 if rc \<noteq> 0 then act_return (False, c1)
                 else
                   act_bind (knownhost_init L s) (\<lambda>nh.
                     case nh of
                       None \<Rightarrow> act_return (False, c1)
                     | Some k \<Rightarrow> check_host L n s k c1))))"

definition connectTo ::
  "('s, 'k, 'h, 'w) ssh_lib \<Rightarrow> nat \<Rightarrow> 's ssh_client \<Rightarrow> ('w, bool \<times> 's ssh_client) act" where
  "connectTo L n c =
     act_bind (sys_socket L) (\<lambda>fd.
       let c1 = c\<lparr>sc_sock := fd\<rparr> in
       act_bind (sys_connect L fd (sc_host_addr c1) (sc_port c1)) (\<lambda>rc.
         if rc \<noteq> 0 then act_return (False, c1) else start_session L n c1))"

definition getConnection ::
  "('s, 'k, 'h, 'w) ssh_lib \<Rightarrow> nat \<Rightarrow> 's ssh_client \<Rightarrow> ('w, 's ssh_client) act" where
  "getConnection L n c = act_bind (connectTo L n c) (\<lambda>(_, c1). act_return c1)"

definition SSHClient_execute ::
  "('s, 'k, 'h, 'w) ssh_lib \<Rightarrow> nat \<Rightarrow> string \<Rightarrow> string \<Rightarrow> string \<Rightarrow> 's ssh_client
     \<Rightarrow> ('w, bool \<times> string \<times> string \<times> 's ssh_client) act" where
  "SSHClient_execute L n command channel_stdout channel_stderr c =
     act_bind
       (if sc_session c = None \<or> sc_sock c = kSocketInit then getConnection L n c else act_return c)
       (\<lambda>c1.
         act_bind (SSHChannel_ctor L n (sc_session c1) (sc_sock c1)) (\<lambda>h.
           act_bind (SSHChannel_exec L n h (sc_sock c1) command (sc_session c1)
               channel_stdout channel_stderr) (\<lambda>(_, out, err).
             act_bind (SSHChannel_close L n h (sc_sock c1) (sc_session c1)) (\<lambda>flag.
               act_return (flag, out, err, c1)))))"

text \<open>\<open>execute\<close> without the outputs.\<close>

definition SSHClient_execute1 ::
  "('s, 'k, 'h, 'w) ssh_lib \<Rightarrow> nat \<Rightarrow> string \<Rightarrow> 's ssh_client \<Rightarrow> ('w, bool \<times> 's ssh_client) act" where
  "SSHClient_execute1 L n command c =
     act_bind (SSHClient_execute L n command [] [] c) (\<lambda>(flag, _, _, c1). act_return (flag, c1))"

text \<open>
  \<open>remoteWorks\<close> of \<open>src/main.cpp\<close>, the body of the threads of that program: three commands by one
  client, which authenticates with the key files because its password is empty.
\<close>

definition remoteWorks :: "('s, 'k, 'h, 'w) ssh_lib \<Rightarrow> nat \<Rightarrow> int \<Rightarrow> ('w, unit) act" where
  "remoteWorks L n tid =
     act_bind (SSHClient_ctor L ''47.108.158.63'' ''young'' [] 22) (\<lambda>client.
       act_bind (SSHClient_execute1 L n ''uptime'' client) (\<lambda>(_, client1).
         act_bind (SSHClient_execute1 L n ''cat /proc/cpuinfo'' client1) (\<lambda>(_, client2).
           act_bind (SSHClient_execute1 L n ''ls /tmp/'' client2) (\<lambda>(_, client3).
             SSHClient_dtor L client3))))"

end
