(* ===== verification/Remotes.thy ===== *)
theory Remotes
  imports Ssh Operations
begin

text \<open>
  Remote nodes (\<open>control/Remote.h\<close>, \<open>RemoteSpec.h\<close>, \<open>SSHRemote.h\<close>, \<open>SSHRemote.cpp\<close>): the class
  \<open>SSHRemote\<close> over an SSH client, and the interface its users see as a record of methods. The
  contract of that interface is the locale \<open>remote_contract\<close>; \<open>SSHRemote\<close> fulfils it. \<open>n\<close> bounds
  the rounds of the loops of the connection, \<open>format\<close> is \<open>boost::format\<close>.
\<close>

section \<open>Connections and contexts\<close>

record conn_spec =
  cs_host :: string
  cs_port :: int
  cs_username :: string
  cs_password :: string
  cs_private_key_path :: string
  cs_strict_host_key_checking :: bool

record ssh_context =
  ctx_dir :: string
  ctx_sudo :: string
  ctx_password :: string

definition SSHContext_default :: ssh_context where
  "SSHContext_default = \<lparr>ctx_dir = [], ctx_sudo = [], ctx_password = []\<rparr>"

section \<open>SSHRemote\<close>

record 's ssh_remote =
  sr_concurrency_limit :: int
  sr_conn_spec :: conn_spec
  sr_ssh_client :: "'s ssh_client"
  sr_ctx :: ssh_context

definition SSHRemote_ctor ::
  "('s, 'k, 'h, 'w) ssh_lib \<Rightarrow> nat \<Rightarrow> int \<Rightarrow> conn_spec \<Rightarrow> ('w, 's ssh_remote) act" where
  "SSHRemote_ctor L n concurrency_limit spec =
     act_bind (SSHClient_ctor L (cs_host spec) (cs_username spec) (cs_password spec) (cs_port spec))
       (\<lambda>client.
         act_bind (getConnection L n client) (\<lambda>client'.
           act_return
             \<lparr>sr_concurrency_limit = concurrency_limit, sr_conn_spec = spec,
              sr_ssh_client = client', sr_ctx = SSHContext_default\<rparr>))"

definition SSHRemote_assign ::
  "('s, 'k, 'h, 'w) ssh_lib \<Rightarrow> bool \<Rightarrow> 's ssh_remote \<Rightarrow> 's ssh_remote \<Rightarrow> ('w, 's ssh_remote) act" where
  "SSHRemote_assign L same_object this rhs =
     (if same_object then act_return this
      else
        act_bind (SSHClient_assign L False (sr_ssh_client this) (sr_ssh_client rhs)) (\<lambda>client.
          act_return
            (this\<lparr>sr_concurrency_limit := sr_concurrency_limit rhs,
                  sr_conn_spec := sr_conn_spec rhs, sr_ssh_client := client\<rparr>)))"

definition SSHRemote_connect :: "conn_spec \<Rightarrow> 's ssh_remote \<Rightarrow> 's ssh_remote" where
  "SSHRemote_connect spec r = r"

definition SSHRemote_disconnect :: "'s ssh_remote \<Rightarrow> 's ssh_remote" where
  "SSHRemote_disconnect r = r"

definition SSHRemote_upload :: "ssh_context \<Rightarrow> string \<Rightarrow> string \<Rightarrow> 's ssh_remote \<Rightarrow> 's ssh_remote" where
  "SSHRemote_upload ctx local_path remote_path r = r"

definition SSHRemote_download :: "ssh_context \<Rightarrow> string \<Rightarrow> string \<Rightarrow> 's ssh_remote \<Rightarrow> 's ssh_remote" where
  "SSHRemote_download ctx remote_path local_path r = r"

text \<open>The verdict of the client becomes an integer.\<close>

definition SSHRemote_execute5 ::
  "('s, 'k, 'h, 'w) ssh_lib \<Rightarrow> nat \<Rightarrow> ssh_context \<Rightarrow> string \<Rightarrow> string \<Rightarrow> string \<Rightarrow> string \<Rightarrow> 's ssh_remote
     \<Rightarrow> ('w, int \<times> string \<times> string \<times> 's ssh_remote) act" where
  "SSHRemote_execute5 L n ctx cmd input out err r =
     act_bind (SSHClient_execute L n cmd out err (sr_ssh_client r)) (\<lambda>(flag, out', err', client).
       act_return (if flag then 1 else 0, out', err', r\<lparr>sr_ssh_client := client\<rparr>))"

definition SSHRemote_execute3 ::
  "('s, 'k, 'h, 'w) ssh_lib \<Rightarrow> nat \<Rightarrow> ssh_context \<Rightarrow> string \<Rightarrow> string \<Rightarrow> 's ssh_remote
     \<Rightarrow> ('w, int \<times> 's ssh_remote) act" where
  "SSHRemote_execute3 L n ctx cmd input r =
     act_bind (SSHClient_execute L n cmd [] [] (sr_ssh_client r)) (\<lambda>(flag, _, _, client).
       act_return (if flag then 1 else 0, r\<lparr>sr_ssh_client := client\<rparr>))"

definition SSHRemote_execute ::
  "('s, 'k, 'h, 'w) ssh_lib \<Rightarrow> nat \<Rightarrow> string \<Rightarrow> string \<Rightarrow> string \<Rightarrow> 's ssh_remote
     \<Rightarrow> ('w, int \<times> string \<times> string \<times> 's ssh_remote) act" where
  "SSHRemote_execute L n cmd out err r = SSHRemote_execute5 L n (sr_ctx r) cmd [] out err r"

definition SSHRemote_execute1 ::
  "('s, 'k, 'h, 'w) ssh_lib \<Rightarrow> nat \<Rightarrow> string \<Rightarrow> 's ssh_remote \<Rightarrow> ('w, int \<times> 's ssh_remote) act" where
  "SSHRemote_execute1 L n cmd r = SSHRemote_execute3 L n (sr_ctx r) cmd [] r"

definition sudo_command :: "(string \<Rightarrow> string list \<Rightarrow> string) \<Rightarrow> string \<Rightarrow> string \<Rightarrow> string" where
  "sudo_command format password cmd =
     format ''echo %s | sudo bash -c \"%s\"'' [password, cmd]"

definition SSHRemote_sudoExecute ::
  "(string \<Rightarrow> string list \<Rightarrow> string) \<Rightarrow> ('s, 'k, 'h, 'w) ssh_lib \<Rightarrow> nat \<Rightarrow> string \<Rightarrow> string \<Rightarrow> string
     \<Rightarrow> 's ssh_remote \<Rightarrow> ('w, int \<times> string \<times> string \<times> 's ssh_remote) act" where
  "SSHRemote_sudoExecute format L n cmd out err r =
     SSHRemote_execute L n (sudo_command format (cs_password (sr_conn_spec r)) cmd) out err r"

definition SSHRemote_sudoExecute1 ::
  "(string \<Rightarrow> string list \<Rightarrow> string) \<Rightarrow> ('s, 'k, 'h, 'w) ssh_lib \<Rightarrow> nat \<Rightarrow> string \<Rightarrow> 's ssh_remote
     \<Rightarrow> ('w, int \<times> 's ssh_remote) act" where
  "SSHRemote_sudoExecute1 format L n cmd r =
     act_bind (SSHRemote_sudoExecute format L n cmd [] [] r) (\<lambda>(rc, _, _, r'). act_return (rc, r'))"

section \<open>The interface\<close>

record ('r, 'w) remote_class =
  rm_execute :: "string \<Rightarrow> string \<Rightarrow> string \<Rightarrow> 'r \<Rightarrow> ('w, int \<times> string \<times> string \<times> 'r) act"
  rm_execute1 :: "string \<Rightarrow> 'r \<Rightarrow> ('w, int \<times> 'r) act"
  rm_sudoExecute1 :: "string \<Rightarrow> 'r \<Rightarrow> ('w, int \<times> 'r) act"

definition SSHRemote ::
  "(string \<Rightarrow> string list \<Rightarrow> string) \<Rightarrow> ('s, 'k, 'h, 'w) ssh_lib \<Rightarrow> nat \<Rightarrow> ('s ssh_remote, 'w) remote_class" where
  "SSHRemote format L n =
     \<lparr>rm_execute = SSHRemote_execute L n, rm_execute1 = SSHRemote_execute1 L n,
      rm_sudoExecute1 = SSHRemote_sudoExecute1 format L n\<rparr>"

text \<open>The result of a command is 0 or 1, and what it prints is appended.\<close>

locale remote_contract =
  fixes R :: "('r, 'w) remote_class"
  assumes verdict: "rm_execute1 R cmd r w = (Inr (rc, r'), w') \<Longrightarrow> rc \<in> {0, 1}"
    and appends: "rm_execute R cmd out err r w = (Inr (rc, out', err', r'), w') \<Longrightarrow>
      (\<exists>x. out' = out @ x) \<and> (\<exists>x. err' = err @ x)"
begin

lemma verdict_bool:
  "rm_execute1 R cmd r w = (Inr (rc, r'), w') \<Longrightarrow> (rc \<noteq> 0) = (rc = 1)"
  using verdict by fastforce

end

lemma read_all_appends: "read_all e n read wait acc w = (Inr res, w') \<Longrightarrow> \<exists>x. res = acc @ x"
proof (induction e n read wait acc arbitrary: w rule: read_all.induct)
  case (1 e read wait acc)
  then show ?case by (simp add: res_simps)
next
  case (2 e n read wait acc)
  obtain rc buf v where v: "read w = (Inr (rc, buf), v)"
    using 2(3) by (auto simp: act_bind_eq_Inr)
  consider "rc > 0" | "rc \<le> 0" "rc = e" | "rc \<le> 0" "rc \<noteq> e" by linarith
  then show ?case
  proof cases
    case 1
    then have "read_all e n read wait (acc @ buf) v = (Inr res, w')"
      using 2(3) v by (simp add: act_bind_def)
    then show ?thesis using 2(1) 1 by fastforce
  next
    case b: 2
    then obtain u where "read_all e n read wait acc u = (Inr res, w')"
      using 2(3) v by (auto simp: act_bind_def split: prod.splits sum.splits)
    then show ?thesis using 2(2) b by (metis linorder_not_less)
  next
    case 3
    then have "res = acc" using 2(3) v by (simp add: act_bind_def act_return_def)
    then show ?thesis by simp
  qed
qed

lemma SSHClient_execute_appends:
  assumes "SSHClient_execute L n cmd out err c w = (Inr (flag, out', err', c'), w')"
  shows "(\<exists>x. out' = out @ x) \<and> (\<exists>x. err' = err @ x)"
  using assms unfolding SSHClient_execute_def SSHChannel_exec_def act_bind_eq_Inr
  by (auto simp: act_return_eq act_raise_eq act_bind_eq_Inr split: if_splits dest!: read_all_appends)

interpretation ssh_remote: remote_contract "SSHRemote format L n" for format L n
proof unfold_locales
  show "rm_execute1 (SSHRemote format L n) cmd r w = (Inr (rc, r'), w') \<Longrightarrow> rc \<in> {0, 1}"
    for cmd r w rc r' w'
    by (auto simp: SSHRemote_def SSHRemote_execute1_def SSHRemote_execute3_def act_bind_eq_Inr
        act_return_eq)
  show "rm_execute (SSHRemote format L n) cmd out err r w = (Inr (rc, out', err', r'), w') \<Longrightarrow>
      (\<exists>x. out' = out @ x) \<and> (\<exists>x. err' = err @ x)" for cmd out err r w rc out' err' r' w'
    by (auto simp: SSHRemote_def SSHRemote_execute_def SSHRemote_execute5_def act_bind_eq_Inr
        act_return_eq dest: SSHClient_execute_appends)
qed

section \<open>Shared pointers to remotes\<close>

text \<open>
  The nodes' remotes are shared between the runner, the database and the operating system: a
  pointer is empty or an index into a list of objects that is part of the world.
\<close>

type_synonym remote_ptr = "nat option"

type_synonym remotes = "(string \<times> remote_ptr) list"

definition make_shared :: "('w, 'r) act \<Rightarrow> ('w \<times> 'r list, remote_ptr) act" where
  "make_shared m s =
     (case m (fst s) of
        (Inl e, w') \<Rightarrow> (Inl e, (w', snd s))
      | (Inr x, w') \<Rightarrow> (Inr (Some (length (snd s))), (w', snd s @ [x])))"

definition through ::
  "('r \<Rightarrow> ('w, 'a \<times> 'r) act) \<Rightarrow> remote_ptr \<Rightarrow> ('w \<times> 'r list, 'a) act" where
  "through m p s =
     (case p of
        None \<Rightarrow> (Inl NullDeref, s)
      | Some i \<Rightarrow>
          if i < length (snd s) then
            (case m (snd s ! i) (fst s) of
               (Inl e, w') \<Rightarrow> (Inl e, (w', snd s))
             | (Inr (x, r'), w') \<Rightarrow> (Inr x, (w', (snd s)[i := r'])))
          else (Inl NullDeref, s))"

definition shared :: "('r, 'w) remote_class \<Rightarrow> (remote_ptr, 'w \<times> 'r list) remote_class" where
  "shared R =
     \<lparr>rm_execute = (\<lambda>cmd out err p.
        act_bind
          (through (\<lambda>r. act_bind (rm_execute R cmd out err r) (\<lambda>(rc, out', err', r').
             act_return ((rc, out', err'), r'))) p)
          (\<lambda>(rc, out', err'). act_return (rc, out', err', p))),
      rm_execute1 = (\<lambda>cmd p. act_bind (through (rm_execute1 R cmd) p) (\<lambda>rc. act_return (rc, p))),
      rm_sudoExecute1 = (\<lambda>cmd p.
        act_bind (through (rm_sudoExecute1 R cmd) p) (\<lambda>rc. act_return (rc, p)))\<rparr>"

text \<open>\<open>remotes[node]\<close> of an unordered map: a missing key gets an empty pointer.\<close>

definition remote_at :: "string \<Rightarrow> remotes \<Rightarrow> remote_ptr \<times> remotes" where
  "remote_at node m =
     (case map_of m node of Some p \<Rightarrow> (p, m) | None \<Rightarrow> (None, m @ [(node, None)]))"

lemma through_eq_Inr:
  "through m p s = (Inr x, s') \<longleftrightarrow>
     (\<exists>i r' w'. p = Some i \<and> i < length (snd s) \<and> m (snd s ! i) (fst s) = (Inr (x, r'), w') \<and>
        s' = (w', (snd s)[i := r']))"
  by (auto simp: through_def split: option.splits if_splits prod.splits sum.splits)

context remote_contract
begin

lemma shared_contract: "remote_contract (shared R)"
proof unfold_locales
  show "rm_execute1 (shared R) cmd p s = (Inr (rc, p'), s') \<Longrightarrow> rc \<in> {0, 1}" for cmd p s rc p' s'
    by (auto simp: shared_def act_bind_eq_Inr act_return_eq through_eq_Inr dest!: verdict)
  show "rm_execute (shared R) cmd out err p s = (Inr (rc, out', err', p'), s') \<Longrightarrow>
      (\<exists>x. out' = out @ x) \<and> (\<exists>x. err' = err @ x)" for cmd out err p s rc out' err' p' s'
    by (auto simp: shared_def act_bind_eq_Inr act_return_eq through_eq_Inr dest!: appends)
qed

end

interpretation shared_remote: remote_contract "shared (SSHRemote format L n)" for format L n
  by (rule ssh_remote.shared_contract)

lemma remote_at_known: "map_of m node = Some p \<Longrightarrow> remote_at node m = (p, m)"
  by (simp add: remote_at_def)

end
