(* ===== verification/Lifecycle.thy ===== *)
theory Lifecycle
  imports Remotes Runner
begin

text \<open>
  A whole test (\<open>Runner.h\<close>, \<open>Runner.cpp\<close> without \<open>runCases\<close>, \<open>Database.h\<close>, \<open>Database.cpp\<close>, \<open>OS.h\<close>,
  \<open>OS.cpp\<close>): the runner's members, the interfaces of databases and operating systems, and the phases
  of \<open>Runner::run\<close>.

  \<open>std::for_each\<close> with \<open>std::execution::par\<close> runs the calls for the nodes in any interleaving, which
  is a schedule; a call of a virtual method is one step. An exception in such a loop terminates the
  program, and one outside leaves \<open>run\<close>: either way it is the result of the run, and nothing runs
  after it. \<open>std::async\<close> of the nemesis is one more thread, whose exception waits in the future.
\<close>

section \<open>Operating systems and databases\<close>

record ('o, 'w) os_class =
  os_initRemotes :: "remotes \<Rightarrow> 'o \<Rightarrow> 'o"
  os_setup :: "string \<Rightarrow> 'o \<Rightarrow> ('w, bool \<times> 'o) act"
  os_teardown :: "string \<Rightarrow> 'o \<Rightarrow> ('w, bool \<times> 'o) act"

record ('d, 'w) primary_interface =
  getPrimaries :: "'d \<Rightarrow> ('w, string list \<times> 'd) act"
  setupPrimary :: "string \<Rightarrow> 'd \<Rightarrow> ('w, bool \<times> 'd) act"

text \<open>\<open>db_primary\<close> is what the \<open>dynamic_cast\<close> to \<open>DBPrimaryInterface\<close> finds.\<close>

record ('d, 'w) db_class =
  db_initRemotes :: "remotes \<Rightarrow> 'd \<Rightarrow> 'd"
  db_setup :: "string \<Rightarrow> 'd \<Rightarrow> ('w, bool \<times> 'd) act"
  db_teardown :: "string \<Rightarrow> 'd \<Rightarrow> ('w, bool \<times> 'd) act"
  db_primary :: "('d, 'w) primary_interface option"

text \<open>\<open>Ubuntu\<close> only has the remotes of its base class.\<close>

definition OS_initRemotes :: "remotes \<Rightarrow> remotes \<Rightarrow> remotes" where
  "OS_initRemotes m this = m"

definition Ubuntu_setup :: "string \<Rightarrow> remotes \<Rightarrow> ('w, bool \<times> remotes) act" where
  "Ubuntu_setup node this = (let (_, this') = remote_at node this in act_return (True, this'))"

definition Ubuntu_teardown :: "string \<Rightarrow> remotes \<Rightarrow> ('w, bool \<times> remotes) act" where
  "Ubuntu_teardown node this = (let (_, this') = remote_at node this in act_return (True, this'))"

definition Ubuntu :: "(remotes, 'w) os_class" where
  "Ubuntu =
     \<lparr>os_initRemotes = OS_initRemotes, os_setup = Ubuntu_setup, os_teardown = Ubuntu_teardown\<rparr>"

section \<open>The runner\<close>

record ssh_info =
  si_username :: string
  si_password :: string
  si_sudo_password :: string
  si_port :: int
  si_private_key_path :: string
  si_strict_host_key_checking :: bool

record ('o, 'd, 'c, 'w) runner =
  rn_nodes :: "string list"
  rn_concurrency :: int
  rn_ssh :: ssh_info
  rn_leave_db_running :: bool
  rn_os :: "'o option"
  rn_db :: "'d option"
  rn_generator :: gen_ptr
  rn_history :: "operation list"
  rn_remotes :: remotes
  rn_relative_time :: int
  rn_nemesis :: "'c option"
  rn_nf :: "unit res option"
  rn_clients :: "'c list"
  rn_indexs :: "nat list"
  rn_world :: 'w

text \<open>
  One SSH connection per node. \<open>emplace\<close> with a key that is there already destroys the connection
  that was made for it.
\<close>

definition node_spec :: "ssh_info \<Rightarrow> string \<Rightarrow> conn_spec" where
  "node_spec ssh ip_addr =
     \<lparr>cs_host = ip_addr, cs_port = si_port ssh, cs_username = si_username ssh,
      cs_password = si_password ssh, cs_private_key_path = si_private_key_path ssh,
      cs_strict_host_key_checking = si_strict_host_key_checking ssh\<rparr>"

definition destroy_shared ::
  "('s, 'k, 'h, 'w) ssh_lib \<Rightarrow> remote_ptr \<Rightarrow> ('w \<times> 's ssh_remote list, unit) act" where
  "destroy_shared L p =
     through (\<lambda>r. act_bind (SSHClient_dtor L (sr_ssh_client r)) (\<lambda>_. act_return ((), r))) p"

fun initRemotes ::
  "('s, 'k, 'h, 'w) ssh_lib \<Rightarrow> nat \<Rightarrow> ssh_info \<Rightarrow> string list \<Rightarrow> remotes
     \<Rightarrow> ('w \<times> 's ssh_remote list, remotes) act" where
  "initRemotes L n ssh [] m = act_return m"
| "initRemotes L n ssh (ip_addr # ips) m =
     act_bind (make_shared (SSHRemote_ctor L n 10 (node_spec ssh ip_addr))) (\<lambda>p.
       if map_of m ip_addr = None then initRemotes L n ssh ips (m @ [(ip_addr, p)])
       else act_bind (destroy_shared L p) (\<lambda>_. initRemotes L n ssh ips m))"

text \<open>
  The constructor, over the action that makes the remotes, and with the connections of \<open>initRemotes\<close>.
\<close>

definition Runner_make ::
  "('w, remotes) act \<Rightarrow> string list \<Rightarrow> int \<Rightarrow> ssh_info \<Rightarrow> bool \<Rightarrow> 'w \<Rightarrow> ('o, 'd, 'c, 'w) runner res" where
  "Runner_make connect nodes concurrency ssh leave_db_running w =
     (case connect w of
        (Inl e, w') \<Rightarrow> Inl e
      | (Inr m, w') \<Rightarrow>
          Inr \<lparr>rn_nodes = nodes, rn_concurrency = concurrency, rn_ssh = ssh,
               rn_leave_db_running = leave_db_running, rn_os = None, rn_db = None,
               rn_generator = None, rn_history = [], rn_remotes = m, rn_relative_time = 0,
               rn_nemesis = None, rn_nf = None, rn_clients = [], rn_indexs = [], rn_world = w'\<rparr>)"

definition Runner_ctor ::
  "('s, 'k, 'h, 'v) ssh_lib \<Rightarrow> nat \<Rightarrow> string list \<Rightarrow> int \<Rightarrow> ssh_info \<Rightarrow> bool
     \<Rightarrow> ('v \<times> 's ssh_remote list) \<Rightarrow> ('o, 'd, 'c, 'v \<times> 's ssh_remote list) runner res" where
  "Runner_ctor L n nodes concurrency ssh leave_db_running =
     Runner_make (initRemotes L n ssh nodes []) nodes concurrency ssh leave_db_running"

definition Runner_setOS ::
  "('o, 'w) os_class \<Rightarrow> 'o \<Rightarrow> ('o, 'd, 'c, 'w) runner \<Rightarrow> ('o, 'd, 'c, 'w) runner" where
  "Runner_setOS O1 os r = r\<lparr>rn_os := Some (os_initRemotes O1 (rn_remotes r) os)\<rparr>"

definition Runner_setDB ::
  "('d, 'w) db_class \<Rightarrow> 'd \<Rightarrow> ('o, 'd, 'c, 'w) runner \<Rightarrow> ('o, 'd, 'c, 'w) runner" where
  "Runner_setDB D db r = r\<lparr>rn_db := Some (db_initRemotes D (rn_remotes r) db)\<rparr>"

definition Runner_setGenerator ::
  "gen_ptr \<Rightarrow> ('o, 'd, 'c, 'w) runner \<Rightarrow> ('o, 'd, 'c, 'w) runner" where
  "Runner_setGenerator g r = r\<lparr>rn_generator := setGenerator g\<rparr>"

text \<open>The lines \<open>saveHistory\<close> logs.\<close>

definition saveHistory ::
  "json_lib \<Rightarrow> (string \<Rightarrow> string list \<Rightarrow> string) \<Rightarrow> ('o, 'd, 'c, 'w) runner \<Rightarrow> string res list" where
  "saveHistory J format r = map (operation_to_string J format) (rn_history r)"

section \<open>Phases over the nodes\<close>

text \<open>A call of a method of the operating system or the database; its verdict is ignored.\<close>

definition on_os ::
  "('o \<Rightarrow> ('w, bool \<times> 'o) act) \<Rightarrow> (('o, 'd, 'c, 'w) runner, unit) act" where
  "on_os m r =
     (case rn_os r of
        None \<Rightarrow> (Inl NullDeref, r)
      | Some os \<Rightarrow>
          (case m os (rn_world r) of
             (Inl e, w') \<Rightarrow> (Inl e, r\<lparr>rn_world := w'\<rparr>)
           | (Inr (b, os'), w') \<Rightarrow> (Inr (), r\<lparr>rn_os := Some os', rn_world := w'\<rparr>)))"

definition on_db ::
  "('d \<Rightarrow> ('w, 'a \<times> 'd) act) \<Rightarrow> (('o, 'd, 'c, 'w) runner, 'a) act" where
  "on_db m r =
     (case rn_db r of
        None \<Rightarrow> (Inl NullDeref, r)
      | Some db \<Rightarrow>
          (case m db (rn_world r) of
             (Inl e, w') \<Rightarrow> (Inl e, r\<lparr>rn_world := w'\<rparr>)
           | (Inr (x, db'), w') \<Rightarrow> (Inr x, r\<lparr>rn_db := Some db', rn_world := w'\<rparr>)))"

definition for_nodes ::
  "nat list \<Rightarrow> (string \<Rightarrow> (('o, 'd, 'c, 'w) runner, unit) act) \<Rightarrow> (('o, 'd, 'c, 'w) runner, unit) act"
where
  "for_nodes is f r = par_for is f (map (\<lambda>node. [node]) (rn_nodes r)) r"

definition setupOS ::
  "('o, 'w) os_class \<Rightarrow> nat list \<Rightarrow> (('o, 'd, 'c, 'w) runner, unit) act" where
  "setupOS O1 is = for_nodes is (\<lambda>node. on_os (os_setup O1 node))"

definition teardownOS ::
  "('o, 'w) os_class \<Rightarrow> nat list \<Rightarrow> (('o, 'd, 'c, 'w) runner, unit) act" where
  "teardownOS O1 is = for_nodes is (\<lambda>node. on_os (os_teardown O1 node))"

definition setupPrimaries ::
  "('d, 'w) db_class \<Rightarrow> (('o, 'd, 'c, 'w) runner, unit) act" where
  "setupPrimaries D =
     (case db_primary D of
        None \<Rightarrow> act_return ()
      | Some P \<Rightarrow>
          act_bind (on_db (getPrimaries P)) (\<lambda>primaries.
            act_for (\<lambda>primary. act_void (on_db (setupPrimary P primary))) primaries))"

definition setupDB ::
  "('d, 'w) db_class \<Rightarrow> nat list \<Rightarrow> (('o, 'd, 'c, 'w) runner, unit) act" where
  "setupDB D is =
     act_bind (for_nodes is (\<lambda>node. act_void (on_db (db_setup D node)))) (\<lambda>_. setupPrimaries D)"

definition teardownDB ::
  "('d, 'w) db_class \<Rightarrow> nat list \<Rightarrow> (('o, 'd, 'c, 'w) runner, unit) act" where
  "teardownDB D is = for_nodes is (\<lambda>node. act_void (on_db (db_teardown D node)))"

section \<open>Clients and nemesis of the nodes\<close>

text \<open>
  The steps of the threads that set up and tear down: the nemesis, the loop that creates the
  clients, and the calls of each client.
\<close>

datatype node_step =
    NemesisSetup
  | NemesisTeardown
  | CreateClient nat
  | OpenClient nat
  | SetupClient nat
  | TeardownClient nat
  | CloseClient nat

definition on_client ::
  "nat \<Rightarrow> (string \<Rightarrow> 'c \<Rightarrow> ('w, bool \<times> 'c) act) \<Rightarrow> (('o, 'd, 'c, 'w) runner, unit) act" where
  "on_client i m r =
     (if i < length (rn_clients r) \<and> i < length (rn_nodes r) then
        (case m (rn_nodes r ! i) (rn_clients r ! i) (rn_world r) of
           (Inl e, w') \<Rightarrow> (Inl e, r\<lparr>rn_world := w'\<rparr>)
         | (Inr (b, c), w') \<Rightarrow>
             (Inr (), r\<lparr>rn_clients := (rn_clients r)[i := c], rn_world := w'\<rparr>))
      else (Inl OutOfRange, r))"

text \<open>The nemesis runs in \<open>std::async\<close>: what its method does ends up in the future.\<close>

definition in_future ::
  "('c \<Rightarrow> ('w, bool \<times> 'c) act) \<Rightarrow> (('o, 'd, 'c, 'w) runner, unit) act" where
  "in_future m r =
     (case rn_nemesis r of
        None \<Rightarrow> (Inr (), r\<lparr>rn_nf := Some (Inl NullDeref)\<rparr>)
      | Some c \<Rightarrow>
          (case m c (rn_world r) of
             (Inl e, w') \<Rightarrow> (Inr (), r\<lparr>rn_nf := Some (Inl e), rn_world := w'\<rparr>)
           | (Inr (b, c'), w') \<Rightarrow>
               (Inr (), r\<lparr>rn_nf := Some (Inr ()), rn_nemesis := Some c', rn_world := w'\<rparr>)))"

definition create_client ::
  "('c, 'w) client_class \<Rightarrow> nat \<Rightarrow> (('o, 'd, 'c, 'w) runner, unit) act" where
  "create_client K i r =
     (case cl_create K (rn_world r) of
        (Inl e, w') \<Rightarrow> (Inl e, r\<lparr>rn_world := w'\<rparr>)
      | (Inr c, w') \<Rightarrow>
          (Inr (), r\<lparr>rn_clients := rn_clients r @ [c], rn_indexs := rn_indexs r @ [i],
                     rn_world := w'\<rparr>))"

definition create_nemesis ::
  "('c, 'w) client_class \<Rightarrow> (('o, 'd, 'c, 'w) runner, unit) act" where
  "create_nemesis N r =
     (case cl_create N (rn_world r) of
        (Inl e, w') \<Rightarrow> (Inl e, r\<lparr>rn_world := w'\<rparr>)
      | (Inr c, w') \<Rightarrow> (Inr (), r\<lparr>rn_nemesis := Some c, rn_nf := None, rn_world := w'\<rparr>))"

definition run_step ::
  "('c, 'w) client_class \<Rightarrow> ('c, 'w) client_class \<Rightarrow> node_step
     \<Rightarrow> (('o, 'd, 'c, 'w) runner, unit) act" where
  "run_step K N x =
     (case x of
        NemesisSetup \<Rightarrow> in_future (cl_setup N)
      | NemesisTeardown \<Rightarrow> in_future (cl_teardown N)
      | CreateClient i \<Rightarrow> create_client K i
      | OpenClient i \<Rightarrow> on_client i (cl_open K)
      | SetupClient i \<Rightarrow> on_client i (\<lambda>_. cl_setup K)
      | TeardownClient i \<Rightarrow> on_client i (\<lambda>_. cl_teardown K)
      | CloseClient i \<Rightarrow> on_client i (\<lambda>_. cl_close K))"

definition nf_get :: "(('o, 'd, 'c, 'w) runner, unit) act" where
  "nf_get r =
     (case rn_nf r of
        None \<Rightarrow> (Inl LogicError, r)
      | Some x \<Rightarrow> (x, r\<lparr>rn_nf := None\<rparr>))"

text \<open>
  The nemesis starts while the clients are being created: its step is taken before the last of
  them (\<open>early\<close>) or among the calls of the clients.
\<close>

definition setupClientNemesis ::
  "('c, 'w) client_class \<Rightarrow> ('c, 'w) client_class \<Rightarrow> bool \<Rightarrow> nat list \<Rightarrow> nat list
     \<Rightarrow> (('o, 'd, 'c, 'w) runner, unit) act" where
  "setupClientNemesis K N early is1 is2 =
     act_bind (create_nemesis N) (\<lambda>_.
       act_bind
         (\<lambda>r. interleaved is1 (run_step K N)
            [if early then [NemesisSetup] else [], map CreateClient [0..<length (rn_nodes r)]] r)
         (\<lambda>_.
           act_bind
             (\<lambda>r. par_for is2 (run_step K N)
                ((if early then [] else [NemesisSetup]) #
                 map (\<lambda>i. [OpenClient i, SetupClient i]) (rn_indexs r)) r)
             (\<lambda>_. nf_get)))"

definition teardownClientNemesis ::
  "('c, 'w) client_class \<Rightarrow> ('c, 'w) client_class \<Rightarrow> nat list
     \<Rightarrow> (('o, 'd, 'c, 'w) runner, unit) act" where
  "teardownClientNemesis K N is =
     act_bind (create_nemesis N) (\<lambda>_.
       act_bind
         (\<lambda>r. par_for is (run_step K N)
            ([NemesisTeardown] # map (\<lambda>i. [TeardownClient i, CloseClient i]) (rn_indexs r)) r)
         (\<lambda>_. nf_get))"

section \<open>A run\<close>

text \<open>
  \<open>runCases\<close> under a schedule of its loop and its workers; a schedule that is not a complete run
  diverges.
\<close>

definition runCases ::
  "op_fun \<Rightarrow> upd_fun \<Rightarrow> ('c, 'w) client_class \<Rightarrow> ('c, 'w) client_class \<Rightarrow> int \<Rightarrow> action list
     \<Rightarrow> (('o, 'd, 'c, 'w) runner, unit) act" where
  "runCases gop gupd K N now as r =
     (case runCases_init N (rn_nodes r) (rn_concurrency r) now (rn_generator r) (rn_world r) of
        Inl e \<Rightarrow>
          (Inl e, r\<lparr>rn_world := snd (init_workers N (rn_nodes r) (rn_concurrency r) (rn_world r))\<rparr>)
      | Inr s0 \<Rightarrow>
          (case sys_execs gop gupd K N as s0 of
             None \<Rightarrow> (Inl Diverges, r\<lparr>rn_world := s_world s0\<rparr>)
           | Some s \<Rightarrow>
               ((case r_phase (s_run s) of
                   Done \<Rightarrow> Inr () | Aborted e \<Rightarrow> Inl e | Polling \<Rightarrow> Inl Diverges | Joining \<Rightarrow> Inl Diverges),
                r\<lparr>rn_generator := r_gen (s_run s),
                  rn_history := rn_history r @ r_history (s_run s), rn_world := s_world s\<rparr>)))"

definition finishDB ::
  "('d, 'w) db_class \<Rightarrow> nat list \<Rightarrow> (('o, 'd, 'c, 'w) runner, unit) act" where
  "finishDB D is r = (if \<not> rn_leave_db_running r then teardownDB D is r else (Inr (), r))"

record schedule =
  sd_os_up :: "nat list"
  sd_db_clean :: "nat list"
  sd_db_up :: "nat list"
  sd_start :: int
  sd_early :: bool
  sd_create :: "nat list"
  sd_clients_up :: "nat list"
  sd_now :: int
  sd_actions :: "action list"
  sd_clients_down :: "nat list"
  sd_db_down :: "nat list"
  sd_os_down :: "nat list"

definition Runner_run ::
  "('o, 'w) os_class \<Rightarrow> ('d, 'w) db_class \<Rightarrow> op_fun \<Rightarrow> upd_fun \<Rightarrow> ('c, 'w) client_class
     \<Rightarrow> ('c, 'w) client_class \<Rightarrow> schedule \<Rightarrow> (('o, 'd, 'c, 'w) runner, unit) act" where
  "Runner_run O1 D gop gupd K N sd =
     act_bind (setupOS O1 (sd_os_up sd)) (\<lambda>_.
     act_bind (teardownDB D (sd_db_clean sd)) (\<lambda>_.
     act_bind (setupDB D (sd_db_up sd)) (\<lambda>_.
     act_bind (\<lambda>r. (Inr (), r\<lparr>rn_relative_time := sd_start sd\<rparr>)) (\<lambda>_.
     act_bind (setupClientNemesis K N (sd_early sd) (sd_create sd) (sd_clients_up sd)) (\<lambda>_.
     act_bind (runCases gop gupd K N (sd_now sd) (sd_actions sd)) (\<lambda>_.
     act_bind (teardownClientNemesis K N (sd_clients_down sd)) (\<lambda>_.
     act_bind (finishDB D (sd_db_down sd)) (\<lambda>_.
     teardownOS O1 (sd_os_down sd)))))))))"

end
