(* ===== verification/Lifecycle_Trace.thy ===== *)
theory Lifecycle_Trace
  imports Lifecycle
begin

text \<open>
  Recording a whole test: the locales \<open>object_frame\<close> and \<open>system_frame\<close>, for invariants of the world
  that all calls of a client class keep, and classes that record every call of the operating system,
  the database, the clients and the nemesis. Objects get a number when they are created, so the calls
  of one object can be read off the record.
\<close>

section \<open>Objects that keep an invariant\<close>

text \<open>
  \<open>P\<close> holds of the world before and after every call, and \<open>A\<close> of the objects the calls are made on.
  What the workers and the loop of the runner do keeps both.
\<close>

locale object_frame =
  fixes K :: "('c, 'w) client_class" and P :: "'w \<Rightarrow> bool" and A :: "'c \<Rightarrow> bool"
  assumes create: "keeps P (cl_create K) A"
    and opens: "A c \<Longrightarrow> keeps P (cl_open K node c) (\<lambda>(b, c'). A c')"
    and closes: "A c \<Longrightarrow> keeps P (cl_close K c) (\<lambda>(b, c'). A c')"
    and invokes: "A c \<Longrightarrow> keeps P (cl_invoke K op c) (\<lambda>(b, op', c'). A c')"
begin

definition owns :: "'c worker \<Rightarrow> bool" where
  "owns w \<longleftrightarrow> (\<forall>c. w_client w = Some c \<longrightarrow> A c)"

lemma owns_update [simp]:
  "owns (w\<lparr>w_client := Some c\<rparr>) \<longleftrightarrow> A c" "owns (w\<lparr>w_client := None\<rparr>)"
  "owns (w\<lparr>w_client := Some c, w_process := p\<rparr>) \<longleftrightarrow> A c"
  "owns (w\<lparr>w_in := q\<rparr>) \<longleftrightarrow> owns w" "owns (w\<lparr>w_status := st\<rparr>) \<longleftrightarrow> owns w"
  by (simp_all add: owns_def)

lemma worker_close:
  "owns w \<Longrightarrow> keeps P (ClientWorker_close K w) (\<lambda>(b, w'). owns w')"
  unfolding ClientWorker_close_def
  by (cases "w_client w") (auto simp: owns_def intro!: keeps_return keeps_bind [OF closes])

lemma invoke_held:
  assumes "owns w"
  shows "keeps P
    (case w_client w of None \<Rightarrow> act_raise NullDeref
      | Some c \<Rightarrow> act_bind (cl_invoke K op c) (\<lambda>(b, op', c').
          act_return (b, op', w\<lparr>w_client := Some c'\<rparr>)))
    (\<lambda>(b, op', w'). owns w')"
  using assms
  by (cases "w_client w")
    (auto simp: owns_def intro!: keeps_raise keeps_return keeps_bind [OF invokes])

lemma client_invoke:
  assumes "owns w"
  shows "keeps P (ClientWorker_invoke K op w) (\<lambda>(b, op', w'). owns w')"
  unfolding ClientWorker_invoke_def
proof (rule keeps_bind)
  show "keeps P
    (if w_process w = kInvalidProcess \<or> w_process w \<noteq> op_process op
     then act_bind (ClientWorker_close K w) (\<lambda>(_, w1).
       act_bind (cl_create K) (\<lambda>c.
         act_bind (cl_open K (w_node w1) c) (\<lambda>(_, c').
           act_return (w1\<lparr>w_client := Some c', w_process := op_process op\<rparr>))))
     else act_return w) owns"
    by (auto intro!: keeps_return keeps_bind [OF worker_close] keeps_bind [OF create]
        keeps_bind [OF opens] assms)
qed (rule invoke_held)

lemma nemesis_invoke:
  "owns w \<Longrightarrow> keeps P (NemesisWorker_invoke K op w) (\<lambda>(b, op', w'). owns w')"
  unfolding NemesisWorker_invoke_def by (rule invoke_held)

lemma nemesis_worker: "keeps P (NemesisWorker K i) owns"
  unfolding NemesisWorker_def
  by (rule keeps_bind [OF create]) (auto simp: owns_def intro: keeps_return)

end

text \<open>A client class and a nemesis class over the same world.\<close>

locale system_frame = client: object_frame K P A + nemesis: object_frame N P A
  for K N :: "('c, 'w) client_class" and P A
begin

lemma worker_invoke: "client.owns w \<Longrightarrow> keeps P (Worker_invoke K N op w) (\<lambda>(b, op', w'). client.owns w')"
  by (cases "w_kind w")
    (auto simp: Worker_invoke_def intro!: client.client_invoke nemesis.nemesis_invoke)

lemma worker_closes: "client.owns w \<Longrightarrow> keeps P (Worker_close K w) (\<lambda>(b, w'). client.owns w')"
  by (cases "w_kind w") (auto simp: Worker_close_def intro!: client.worker_close keeps_return)

lemma iteration:
  assumes it: "runAsync_iter K N w s = (w', out, s')" and s: "P s" and w: "client.owns w"
  shows "P s' \<and> client.owns w'"
proof (cases "w_in w")
  case Nil
  then show ?thesis using it s w by simp
next
  case (Cons op q)
  let ?w = "w\<lparr>w_in := q\<rparr>"
  have own: "client.owns ?w" using w by simp
  show ?thesis
  proof (cases "op_type op = kExit")
    case True
    obtain r v where r: "Worker_close K ?w s = (r, v)" by force
    note kept = keepsD [OF worker_closes [OF own] r s]
    show ?thesis
      using it Cons True r kept own by (cases r) (auto simp: runAsync_iter_def)
  next
    case False
    obtain r v where r: "Worker_invoke K N op ?w s = (r, v)" by force
    note kept = keepsD [OF worker_invoke [OF own] r s]
    show ?thesis
      using it Cons False r kept own by (cases r) (auto simp: runAsync_iter_def)
  qed
qed

definition sys_kept :: "('c, 'w) sys \<Rightarrow> bool" where
  "sys_kept s \<longleftrightarrow> P (s_world s) \<and> (\<forall>(t, w) \<in> set (s_workers s). client.owns w)"

lemma update_owns:
  "\<forall>(t, w) \<in> set ws. client.owns w \<Longrightarrow> client.owns w' \<Longrightarrow>
     \<forall>(t, w) \<in> set (AList.update t0 w' ws). client.owns w"
  by (induction ws) auto

lemma poll_owns:
  assumes "run_poll gop gupd now r rs ws = Inr (rs', ws')" and "\<forall>(t, w) \<in> set ws. client.owns w"
  shows "\<forall>(t, w) \<in> set ws'. client.owns w"
proof -
  have put: "client.owns (putOp op w) \<longleftrightarrow> client.owns w" for op w
    by (simp add: putOp_def)
  have one: "client.owns w" if "map_of ws t = Some w" for t w
    using assms(2) map_of_SomeD [OF that] by auto
  have exits: "\<forall>(t, w) \<in> set (map (\<lambda>(t, w). (t, putOp factory_exit w)) ws). client.owns w"
    using assms(2) put by auto
  have sent: "\<forall>(t, w) \<in> set (AList.update t0 (putOp op w) ws). client.owns w"
    if "map_of ws t0 = Some w" for t0 op w
    by (rule update_owns) (use assms(2) one [OF that] put in simp_all)
  have "ws' = ws \<or> ws' = map (\<lambda>(t, w). (t, putOp factory_exit w)) ws \<or>
    (\<exists>t0 op w. map_of ws t0 = Some w \<and> ws' = AList.update t0 (putOp op w) ws)"
    using assms(1)
    by (auto simp: run_poll_def dispatch_def Let_def bind_res_eq_Inr split: if_splits option.splits)
  then show ?thesis using assms(2) exits sent by (elim disjE exE conjE) simp_all
qed

lemma step_kept:
  assumes "sys_step gop gupd K N s s'" and "sys_kept s"
  shows "sys_kept s'"
  using assms
proof cases
  case (poll now r rs ws)
  then show ?thesis using assms(2) poll_owns by (auto simp: sys_kept_def)
next
  case (work t w w' out v)
  have "client.owns w"
    using assms(2) map_of_SomeD [OF work(3)] by (auto simp: sys_kept_def)
  then have "P v \<and> client.owns w'"
    using iteration [OF work(5)] assms(2) by (simp add: sys_kept_def)
  moreover have "\<forall>(t, w) \<in> set (AList.update t w' (s_workers s)). client.owns w"
    by (rule update_owns) (use assms(2) calculation in \<open>auto simp: sys_kept_def\<close>)
  ultimately show ?thesis using work(1) by (simp add: sys_kept_def)
qed (auto simp: sys_kept_def)

lemma steps_kept: "sys_steps gop gupd K N s s' \<Longrightarrow> sys_kept s \<Longrightarrow> sys_kept s'"
  unfolding sys_steps_def by (induction rule: rtranclp_induct) (auto intro: step_kept)

lemma init_kept:
  assumes "P s"
  shows "P (snd (init_workers N nodes n s))"
    and "runCases_init N nodes n now g s = Inr s0 \<Longrightarrow> sys_kept s0"
proof -
  have init: "keeps P (init_workers N nodes n) (\<lambda>ws. \<forall>(t, w) \<in> set ws. client.owns w)"
    unfolding init_workers_def
    by (auto simp: client.owns_def nemesis.owns_def ClientWorker_def
        intro!: keeps_raise keeps_return keeps_bind [OF nemesis.nemesis_worker])
  obtain r s' where r: "init_workers N nodes n s = (r, s')" by force
  note kept = keepsD [OF init r assms]
  show "P (snd (init_workers N nodes n s))" using kept(1) r by simp
  show "sys_kept s0" if "runCases_init N nodes n now g s = Inr s0"
    using that kept r by (cases r) (auto simp: runCases_init_def sys_kept_def)
qed

text \<open>However \<open>runCases\<close> ends.\<close>

lemma runCases_kept:
  assumes "runCases gop gupd K N now as r = (res, r')" and "P (rn_world r)"
  shows "P (rn_world r')"
proof (cases "runCases_init N (rn_nodes r) (rn_concurrency r) now (rn_generator r) (rn_world r)")
  case (Inl e)
  then show ?thesis using assms init_kept(1) by (auto simp: runCases_def)
next
  case (Inr s0)
  have s0: "sys_kept s0" by (rule init_kept(2) [OF assms(2) Inr])
  show ?thesis
  proof (cases "sys_execs gop gupd K N as s0")
    case None
    then show ?thesis using assms(1) Inr s0 by (auto simp: runCases_def sys_kept_def)
  next
    case (Some s)
    have "sys_kept s" using steps_kept [OF sys_execs_steps [OF Some] s0] .
    then show ?thesis using assms(1) Inr Some by (auto simp: runCases_def sys_kept_def)
  qed
qed

end

section \<open>Recorded classes\<close>

datatype event =
    OsSetup string
  | OsTeardown string
  | DbSetup string
  | DbTeardown string
  | DbPrimary string
  | ClientEvent nat client_call

text \<open>The world with the number of the next object and the record.\<close>

type_synonym 'w recorded = "'w \<times> nat \<times> event list"

definition log_event :: "event \<Rightarrow> ('w, 'a) act \<Rightarrow> ('w recorded, 'a) act" where
  "log_event e m s = (case m (fst s) of (x, w') \<Rightarrow> (x, (w', fst (snd s), snd (snd s) @ [e])))"

definition unlogged :: "('w, 'a) act \<Rightarrow> ('w recorded, 'a) act" where
  "unlogged m s = (case m (fst s) of (x, w') \<Rightarrow> (x, (w', snd s)))"

definition recorded_os :: "('o, 'w) os_class \<Rightarrow> ('o, 'w recorded) os_class" where
  "recorded_os O1 =
     \<lparr>os_initRemotes = os_initRemotes O1,
      os_setup = (\<lambda>node os. log_event (OsSetup node) (os_setup O1 node os)),
      os_teardown = (\<lambda>node os. log_event (OsTeardown node) (os_teardown O1 node os))\<rparr>"

definition recorded_primary :: "('d, 'w) primary_interface \<Rightarrow> ('d, 'w recorded) primary_interface" where
  "recorded_primary P =
     \<lparr>getPrimaries = (\<lambda>db. unlogged (getPrimaries P db)),
      setupPrimary = (\<lambda>node db. log_event (DbPrimary node) (setupPrimary P node db))\<rparr>"

definition recorded_db :: "('d, 'w) db_class \<Rightarrow> ('d, 'w recorded) db_class" where
  "recorded_db D =
     \<lparr>db_initRemotes = db_initRemotes D,
      db_setup = (\<lambda>node db. log_event (DbSetup node) (db_setup D node db)),
      db_teardown = (\<lambda>node db. log_event (DbTeardown node) (db_teardown D node db)),
      db_primary = map_option recorded_primary (db_primary D)\<rparr>"

text \<open>An object with its number.\<close>

definition create_numbered :: "('w, 'c) act \<Rightarrow> ('w recorded, nat \<times> 'c) act" where
  "create_numbered m s =
     (case m (fst s) of (x, w') \<Rightarrow>
        (map_sum id (\<lambda>c. (fst (snd s), c)) x,
         (w', Suc (fst (snd s)), snd (snd s) @ [ClientEvent (fst (snd s)) CreateCall])))"

definition call_numbered ::
  "client_call \<Rightarrow> ('c \<Rightarrow> ('w, bool \<times> 'c) act) \<Rightarrow> nat \<times> 'c \<Rightarrow> ('w recorded, bool \<times> nat \<times> 'c) act"
where
  "call_numbered e m x =
     act_bind (log_event (ClientEvent (fst x) e) (m (snd x))) (\<lambda>(b, c).
       act_return (b, fst x, c))"

definition numbered :: "('c, 'w) client_class \<Rightarrow> (nat \<times> 'c, 'w recorded) client_class" where
  "numbered K =
     \<lparr>cl_create = create_numbered (cl_create K),
      cl_open = (\<lambda>node. call_numbered (OpenCall node) (cl_open K node)),
      cl_close = call_numbered CloseCall (cl_close K),
      cl_setup = call_numbered SetupCall (cl_setup K),
      cl_invoke = (\<lambda>op x.
        act_bind (log_event (ClientEvent (fst x) (InvokeCall (op_process op))) (cl_invoke K op (snd x)))
          (\<lambda>(b, op', c). act_return (b, op', fst x, c))),
      cl_teardown = call_numbered TeardownCall (cl_teardown K)\<rparr>"

fun client_calls :: "nat \<Rightarrow> event list \<Rightarrow> client_call list" where
  "client_calls j [] = []"
| "client_calls j (e # es) =
     (case e of ClientEvent i c \<Rightarrow> if i = j then [c] else [] | _ \<Rightarrow> []) @ client_calls j es"

fun is_client_event :: "event \<Rightarrow> bool" where
  "is_client_event (ClientEvent i c) = True"
| "is_client_event _ = False"

fun client_event_from :: "nat \<Rightarrow> event \<Rightarrow> bool" where
  "client_event_from k (ClientEvent i c) = (k \<le> i)"
| "client_event_from k _ = False"

abbreviation run_log :: "('o, 'd, 'c, 'w recorded) runner \<Rightarrow> event list" where
  "run_log r \<equiv> snd (snd (rn_world r))"

abbreviation next_number :: "('o, 'd, 'c, 'w recorded) runner \<Rightarrow> nat" where
  "next_number r \<equiv> fst (snd (rn_world r))"

lemma client_calls_append [simp]: "client_calls j (xs @ ys) = client_calls j xs @ client_calls j ys"
  by (induction xs) auto

lemma client_calls_other: "list_all (\<lambda>e. \<not> is_client_event e) es \<Longrightarrow> client_calls j es = []"
  by (induction es) (auto split: event.splits)

lemma client_calls_from: "list_all (client_event_from k) es \<Longrightarrow> j < k \<Longrightarrow> client_calls j es = []"
  by (induction es) (auto split: event.splits)

lemma client_event_from_is: "client_event_from k e \<Longrightarrow> is_client_event e"
  by (cases e) auto

text \<open>What is recorded later belongs to objects with numbers from \<open>k\<close>.\<close>

definition later :: "nat \<Rightarrow> event list \<Rightarrow> 'w recorded \<Rightarrow> bool" where
  "later k l s \<longleftrightarrow>
     k \<le> fst (snd s) \<and> (\<exists>es. snd (snd s) = l @ es \<and> list_all (client_event_from k) es)"

lemma later_refl: "k \<le> fst (snd s) \<Longrightarrow> later k (snd (snd s)) s"
  by (simp add: later_def)

lemma later_log:
  "later k l (w, n, es) \<Longrightarrow> k \<le> i \<Longrightarrow> later k l (w', n, es @ [ClientEvent i e])"
  by (auto simp: later_def)

lemma later_create:
  "later k l (w, n, es) \<Longrightarrow> later k l (w', Suc n, es @ [ClientEvent n e])"
  by (auto simp: later_def)

lemma log_event_keeps: "k \<le> i \<Longrightarrow> keeps (later k l) (log_event (ClientEvent i e) m) (\<lambda>_. True)"
  by (auto simp: keeps_def log_event_def intro: later_log split: prod.splits)

lemma call_numbered_keeps:
  "k \<le> fst x \<Longrightarrow> keeps (later k l) (call_numbered e m x) (\<lambda>(b, y). k \<le> fst y)"
  unfolding call_numbered_def
  by (rule keeps_bind [OF log_event_keeps]) (auto intro: keeps_return)

lemma create_numbered_keeps: "keeps (later k l) (create_numbered m) (\<lambda>x. k \<le> fst x)"
  by (auto simp: keeps_def create_numbered_def later_def map_sum_def split: prod.splits sum.splits)

interpretation numbered: object_frame "numbered K" "later k l" "\<lambda>x. k \<le> fst x" for K k l
proof unfold_locales
  show "keeps (later k l) (cl_create (numbered K)) (\<lambda>x. k \<le> fst x)"
    by (simp add: numbered_def create_numbered_keeps)
  show "keeps (later k l) (cl_open (numbered K) node c) (\<lambda>(b, c'). k \<le> fst c')"
    if "k \<le> fst c" for c node
    using call_numbered_keeps [OF that] by (simp add: numbered_def)
  show "keeps (later k l) (cl_close (numbered K) c) (\<lambda>(b, c'). k \<le> fst c')"
    if "k \<le> fst c" for c
    using call_numbered_keeps [OF that] by (simp add: numbered_def)
  show "keeps (later k l) (cl_invoke (numbered K) op c) (\<lambda>(b, op', c'). k \<le> fst c')"
    if "k \<le> fst c" for c op
    using that unfolding numbered_def client_class.simps
    by (intro keeps_bind [OF log_event_keeps]) (auto intro: keeps_return)
qed

interpretation numbered_system:
  system_frame "numbered K" "numbered N" "later k l" "\<lambda>x. k \<le> fst x" for K N k l
  by (intro system_frame.intro numbered.object_frame_axioms)

end
