(* ===== verification/Lifecycle_Phases.thy ===== *)
theory Lifecycle_Phases
  imports Lifecycle_Trace
begin

text \<open>
  What each phase of \<open>Runner::run\<close> records when it returns: the phases over the nodes a permutation
  of one call per node, the phases of the clients the calls of each client in their order, whatever
  the schedule.
\<close>

section \<open>What the phases over the nodes record\<close>

text \<open>What the phases of the operating system and the database leave alone.\<close>

definition client_parts where
  "client_parts r = (rn_nodes r, rn_leave_db_running r, rn_clients r, rn_indexs r, next_number r)"

lemma on_os_recorded:
  assumes "on_os (\<lambda>os. log_event e (m os)) r = (Inr (), r')"
  shows "client_parts r' = client_parts r \<and> run_log r' = run_log r @ [e]"
  using assms
  by (auto simp: on_os_def log_event_def client_parts_def split: option.splits prod.splits sum.splits)

lemma on_db_recorded:
  assumes "on_db (\<lambda>db. log_event e (m db)) r = (Inr x, r')"
  shows "client_parts r' = client_parts r \<and> run_log r' = run_log r @ [e]"
  using assms
  by (auto simp: on_db_def log_event_def client_parts_def split: option.splits prod.splits sum.splits)

lemma void_db_recorded:
  assumes "act_void (on_db (\<lambda>db. log_event e (m db))) r = (Inr (), r')"
  shows "client_parts r' = client_parts r \<and> run_log r' = run_log r @ [e]"
proof -
  obtain x where x: "on_db (\<lambda>db. log_event e (m db)) r = (Inr x, r')"
    using assms by (auto simp only: act_void_eq)
  show ?thesis by (rule on_db_recorded [OF x])
qed

lemma on_db_unlogged:
  assumes "on_db (\<lambda>db. unlogged (m db)) r = (Inr x, r')"
  shows "client_parts r' = client_parts r \<and> run_log r' = run_log r"
  using assms
  by (auto simp: on_db_def unlogged_def client_parts_def split: option.splits prod.splits sum.splits)

lemma act_for_recorded:
  assumes "\<And>x r r'. x \<in> set xs \<Longrightarrow> f x r = (Inr (), r') \<Longrightarrow>
      client_parts r' = client_parts r \<and> run_log r' = run_log r @ [ev x]"
    and "act_for f xs r = (Inr (), r')"
  shows "client_parts r' = client_parts r \<and> run_log r' = run_log r @ map ev xs"
proof -
  have "client_parts r' = client_parts r \<and> run_log r' = run_log r @ concat (map (\<lambda>x. [ev x]) xs)"
    by (rule act_for_log [where I = "\<lambda>s. client_parts s = client_parts r", OF _ _ assms(2)])
      (use assms(1) in fastforce)+
  moreover have "concat (map (\<lambda>x. [ev x]) xs) = map ev xs" by (induction xs) simp_all
  ultimately show ?thesis by simp
qed

lemma for_nodes_recorded:
  assumes "\<And>node r r'. f node r = (Inr (), r') \<Longrightarrow>
      client_parts r' = client_parts r \<and> run_log r' = run_log r @ [ev node]"
    and "for_nodes is f r = (Inr (), r')"
  shows "\<exists>es. client_parts r' = client_parts r \<and> run_log r' = run_log r @ es \<and>
    mset es = mset (map ev (rn_nodes r))"
proof (intro exI conjI)
  let ?xs = "par_order is (map (\<lambda>node. [node]) (rn_nodes r))"
  have "concat (map (\<lambda>node. [node]) ns) = ns" for ns :: "string list"
    by (induction ns) simp_all
  then have "mset ?xs = mset (rn_nodes r)" by (simp add: mset_par_order del: mset_concat)
  then have "mset (map ev ?xs) = mset (map ev (rn_nodes r))" by (simp only: mset_map)
  then show "mset (map ev ?xs) = mset (map ev (rn_nodes r))" .
  have "client_parts r' = client_parts r \<and> run_log r' = run_log r @ map ev ?xs"
    by (rule act_for_recorded [of ?xs f ev r r']) (use assms in \<open>auto simp: for_nodes_def par_for_Inr\<close>)
  then show "client_parts r' = client_parts r" "run_log r' = run_log r @ map ev ?xs" by blast+
qed

lemma setupOS_recorded:
  assumes "setupOS (recorded_os O1) is r = (Inr (), r')"
  shows "\<exists>es. client_parts r' = client_parts r \<and> run_log r' = run_log r @ es \<and>
    mset es = mset (map OsSetup (rn_nodes r))"
  by (rule for_nodes_recorded [OF on_os_recorded
        assms [unfolded setupOS_def recorded_os_def os_class.simps]])

lemma teardownOS_recorded:
  assumes "teardownOS (recorded_os O1) is r = (Inr (), r')"
  shows "\<exists>es. client_parts r' = client_parts r \<and> run_log r' = run_log r @ es \<and>
    mset es = mset (map OsTeardown (rn_nodes r))"
  by (rule for_nodes_recorded [OF on_os_recorded
        assms [unfolded teardownOS_def recorded_os_def os_class.simps]])

lemma teardownDB_recorded:
  assumes "teardownDB (recorded_db D) is r = (Inr (), r')"
  shows "\<exists>es. client_parts r' = client_parts r \<and> run_log r' = run_log r @ es \<and>
    mset es = mset (map DbTeardown (rn_nodes r))"
  by (rule for_nodes_recorded [OF void_db_recorded
        assms [unfolded teardownDB_def recorded_db_def db_class.simps]])

lemma setupPrimaries_recorded:
  assumes "setupPrimaries (recorded_db D) r = (Inr (), r')"
  obtains ps where "client_parts r' = client_parts r" and "run_log r' = run_log r @ map DbPrimary ps"
proof (cases "db_primary D")
  case None
  then show thesis
    using that [of "[]"] assms by (auto simp: setupPrimaries_def recorded_db_def act_return_def)
next
  case (Some P)
  obtain ps v where ps: "on_db (\<lambda>db. unlogged (getPrimaries P db)) r = (Inr ps, v)"
    "act_for (\<lambda>p. act_void (on_db (\<lambda>db. log_event (DbPrimary p) (setupPrimary P p db)))) ps v = (Inr (), r')"
    using assms Some
    by (auto simp: setupPrimaries_def recorded_db_def recorded_primary_def act_bind_eq_Inr)
  have "client_parts r' = client_parts v \<and> run_log r' = run_log v @ map DbPrimary ps"
    by (rule act_for_recorded [OF void_db_recorded ps(2)])
  then show thesis using that [of ps] on_db_unlogged [OF ps(1)] Some by simp
qed

lemma setupDB_recorded:
  assumes "setupDB (recorded_db D) is r = (Inr (), r')"
  shows "\<exists>es ps. client_parts r' = client_parts r \<and> run_log r' = run_log r @ es @ map DbPrimary ps \<and>
    mset es = mset (map DbSetup (rn_nodes r))"
proof -
  obtain v where v: "for_nodes is (\<lambda>node. act_void (on_db (\<lambda>db. log_event (DbSetup node) (db_setup D node db)))) r
      = (Inr (), v)" "setupPrimaries (recorded_db D) v = (Inr (), r')"
    using assms by (auto simp: setupDB_def recorded_db_def act_bind_eq_Inr)
  have "\<exists>es. client_parts v = client_parts r \<and> run_log v = run_log r @ es \<and>
    mset es = mset (map DbSetup (rn_nodes r))"
    by (rule for_nodes_recorded [OF void_db_recorded v(1)])
  then obtain es where es: "client_parts v = client_parts r" "run_log v = run_log r @ es"
    "mset es = mset (map DbSetup (rn_nodes r))"
    by blast
  obtain ps where "client_parts r' = client_parts v" "run_log r' = run_log v @ map DbPrimary ps"
    using setupPrimaries_recorded [OF v(2)] by blast
  then show ?thesis using es by (intro exI [of _ es] exI [of _ ps]) simp
qed

section \<open>What the steps of clients and nemesis record\<close>

lemma call_numbered_recorded:
  assumes "call_numbered e m x s = (res, s')"
  shows "snd s' = (fst (snd s), snd (snd s) @ [ClientEvent (fst x) e])"
    and "res = Inr (b, y) \<Longrightarrow> fst y = fst x"
  using assms
  by (auto simp: call_numbered_def act_bind_def log_event_def act_return_def
      split: prod.splits sum.splits)

text \<open>What only the creation of clients changes.\<close>

definition steady where
  "steady r =
     (rn_nodes r, rn_leave_db_running r, rn_indexs r, map fst (rn_clients r),
      map_option fst (rn_nemesis r), next_number r)"

definition step_events :: "nat \<Rightarrow> nat list \<Rightarrow> string list \<Rightarrow> node_step \<Rightarrow> event list" where
  "step_events nm tags nodes x =
     (case x of
        NemesisSetup \<Rightarrow> [ClientEvent nm SetupCall]
      | NemesisTeardown \<Rightarrow> [ClientEvent nm TeardownCall]
      | CreateClient i \<Rightarrow> []
      | OpenClient i \<Rightarrow> [ClientEvent (tags ! i) (OpenCall (nodes ! i))]
      | SetupClient i \<Rightarrow> [ClientEvent (tags ! i) SetupCall]
      | TeardownClient i \<Rightarrow> [ClientEvent (tags ! i) TeardownCall]
      | CloseClient i \<Rightarrow> [ClientEvent (tags ! i) CloseCall])"

fun is_create :: "node_step \<Rightarrow> bool" where
  "is_create (CreateClient i) = True"
| "is_create _ = False"

lemma in_future_recorded:
  assumes "in_future (call_numbered e m) r = (Inr (), r')" and "map_option fst (rn_nemesis r) = Some nm"
  shows "steady r' = steady r \<and> run_log r' = run_log r @ [ClientEvent nm e]"
proof -
  obtain c where c: "rn_nemesis r = Some c" "fst c = nm" using assms(2) by auto
  obtain res s' where res: "call_numbered e m c (rn_world r) = (res, s')"
    by (meson surj_pair)
  note rec = call_numbered_recorded [OF res]
  show ?thesis
    using assms(1) c res rec
    by (cases c; cases res) (auto simp: in_future_def steady_def)
qed

lemma on_client_recorded:
  assumes "on_client i (\<lambda>node. call_numbered (e node) (m node)) r = (Inr (), r')"
  shows "steady r' = steady r \<and>
    run_log r' = run_log r @ [ClientEvent (map fst (rn_clients r) ! i) (e (rn_nodes r ! i))]"
proof -
  let ?node = "rn_nodes r ! i" and ?c = "rn_clients r ! i"
  have i: "i < length (rn_clients r)"
    using assms by (auto simp: on_client_def split: if_splits)
  obtain res s' where res: "call_numbered (e ?node) (m ?node) ?c (rn_world r) = (res, s')"
    by (meson surj_pair)
  note rec = call_numbered_recorded [OF res]
  obtain b c where bc: "res = Inr (b, c)" "r' = r\<lparr>rn_clients := (rn_clients r)[i := c], rn_world := s'\<rparr>"
    using assms res by (auto simp: on_client_def split: if_splits sum.splits)
  have "map fst ((rn_clients r)[i := c]) = map fst (rn_clients r)"
    using rec(2) [OF bc(1)] i by (simp add: map_update list_update_same_conv)
  then show ?thesis using bc rec(1) i by (simp add: steady_def)
qed

lemma step_recorded:
  assumes "run_step (numbered K) (numbered N) x r = (Inr (), r')" and "\<not> is_create x"
    and "map_option fst (rn_nemesis r) = Some nm"
  shows "steady r' = steady r \<and>
    run_log r' = run_log r @ step_events nm (map fst (rn_clients r)) (rn_nodes r) x"
proof (cases x)
  case NemesisSetup
  then show ?thesis
    using assms in_future_recorded [of SetupCall "cl_setup N" r r' nm]
    by (simp add: run_step_def step_events_def numbered_def)
next
  case NemesisTeardown
  then show ?thesis
    using assms in_future_recorded [of TeardownCall "cl_teardown N" r r' nm]
    by (simp add: run_step_def step_events_def numbered_def)
next
  case (CreateClient i)
  then show ?thesis using assms by simp
next
  case (OpenClient i)
  then show ?thesis
    using assms on_client_recorded [of i OpenCall "cl_open K" r r']
    by (simp add: run_step_def step_events_def numbered_def)
next
  case (SetupClient i)
  then show ?thesis
    using assms on_client_recorded [of i "\<lambda>_. SetupCall" "\<lambda>_. cl_setup K" r r']
    by (simp add: run_step_def step_events_def numbered_def)
next
  case (TeardownClient i)
  then show ?thesis
    using assms on_client_recorded [of i "\<lambda>_. TeardownCall" "\<lambda>_. cl_teardown K" r r']
    by (simp add: run_step_def step_events_def numbered_def)
next
  case (CloseClient i)
  then show ?thesis
    using assms on_client_recorded [of i "\<lambda>_. CloseCall" "\<lambda>_. cl_close K" r r']
    by (simp add: run_step_def step_events_def numbered_def)
qed

lemma steps_recorded:
  assumes "act_for (run_step (numbered K) (numbered N)) xs r = (Inr (), r')"
    and "\<forall>x \<in> set xs. \<not> is_create x" and "map_option fst (rn_nemesis r) = Some nm"
  shows "steady r' = steady r \<and>
    run_log r' = run_log r @ concat (map (step_events nm (map fst (rn_clients r)) (rn_nodes r)) xs)"
proof (rule act_for_log [where I = "\<lambda>s. steady s = steady r", OF _ refl assms(1)])
  fix x s s'
  assume x: "x \<in> set xs" and s: "steady s = steady r"
    and step: "run_step (numbered K) (numbered N) x s = (Inr (), s')"
  have "map_option fst (rn_nemesis s) = Some nm" using s assms(3) by (simp add: steady_def)
  then have "steady s' = steady s \<and>
    run_log s' = run_log s @ step_events nm (map fst (rn_clients s)) (rn_nodes s) x"
    using step_recorded [OF step] assms(2) x by blast
  then show "steady s' = steady r \<and>
    run_log s' = run_log s @ step_events nm (map fst (rn_clients r)) (rn_nodes r) x"
    using s by (simp add: steady_def)
qed

text \<open>The calls of one object, when only one of the threads makes calls to it.\<close>

lemma client_calls_concat:
  "client_calls j (concat (map ev xs)) =
     concat (map (\<lambda>x. client_calls j (ev x)) (filter (\<lambda>x. client_calls j (ev x) \<noteq> []) xs))"
  by (induction xs) auto

lemma par_calls:
  assumes "k < length ts"
    and "\<And>t x. t < length ts \<Longrightarrow> t \<noteq> k \<Longrightarrow> x \<in> set (ts ! t) \<Longrightarrow> client_calls j (ev x) = []"
  shows "client_calls j (concat (map ev (par_order is ts))) = client_calls j (concat (map ev (ts ! k)))"
proof -
  have "filter (\<lambda>x. client_calls j (ev x) \<noteq> []) (par_order is ts) =
    filter (\<lambda>x. client_calls j (ev x) \<noteq> []) (ts ! k)"
    by (rule filter_par_order [OF _ assms(1)]) (use assms(2) in \<open>auto simp: filter_empty_conv\<close>)
  then show ?thesis by (simp only: client_calls_concat)
qed

section \<open>Creating the clients\<close>

lemma create_client_recorded:
  assumes "create_client (numbered K) i r = (Inr (), r')"
  shows "rn_nodes r' = rn_nodes r" "rn_leave_db_running r' = rn_leave_db_running r"
    "rn_nemesis r' = rn_nemesis r" "rn_indexs r' = rn_indexs r @ [i]"
    "map fst (rn_clients r') = map fst (rn_clients r) @ [next_number r]"
    "next_number r' = Suc (next_number r)"
    "run_log r' = run_log r @ [ClientEvent (next_number r) CreateCall]"
  using assms
  by (auto simp: create_client_def numbered_def create_numbered_def map_sum_def
      split: prod.splits sum.splits)

lemma create_nemesis_recorded:
  assumes "create_nemesis (numbered N) r = (Inr (), r')"
  shows "rn_nodes r' = rn_nodes r" "rn_leave_db_running r' = rn_leave_db_running r"
    "map_option fst (rn_nemesis r') = Some (next_number r)" "rn_indexs r' = rn_indexs r"
    "rn_clients r' = rn_clients r" "next_number r' = Suc (next_number r)"
    "run_log r' = run_log r @ [ClientEvent (next_number r) CreateCall]"
  using assms
  by (auto simp: create_nemesis_def numbered_def create_numbered_def map_sum_def
      split: prod.splits sum.splits)

text \<open>The calls while \<open>n\<close> clients are created with numbers from \<open>k\<close>, next to \<open>m\<close> steps of the nemesis.\<close>

definition creation_calls :: "nat \<Rightarrow> nat \<Rightarrow> nat \<Rightarrow> nat \<Rightarrow> nat \<Rightarrow> client_call list" where
  "creation_calls nm m k n j =
     (if j = nm then replicate m SetupCall else if k \<le> j \<and> j < k + n then [CreateCall] else [])"

lemma create_stage:
  assumes "act_for (run_step (numbered K) (numbered N)) xs r = (Inr (), r')"
    and "\<forall>x \<in> set xs. is_create x \<or> x = NemesisSetup"
    and "map_option fst (rn_nemesis r) = Some nm" and "nm < next_number r"
  shows "rn_nodes r' = rn_nodes r \<and> rn_leave_db_running r' = rn_leave_db_running r \<and>
    map_option fst (rn_nemesis r') = Some nm \<and>
    map CreateClient (rn_indexs r') = map CreateClient (rn_indexs r) @ filter is_create xs \<and>
    map fst (rn_clients r') = map fst (rn_clients r) @
      [next_number r ..< next_number r + length (filter is_create xs)] \<and>
    next_number r' = next_number r + length (filter is_create xs) \<and>
    (\<forall>j. client_calls j (run_log r') = client_calls j (run_log r) @
       creation_calls nm (length (filter (\<lambda>x. \<not> is_create x) xs)) (next_number r)
         (length (filter is_create xs)) j)"
  using assms
proof (induction xs arbitrary: r)
  case Nil
  then show ?case by (auto simp: act_return_def creation_calls_def)
next
  case (Cons x xs)
  obtain v where v: "run_step (numbered K) (numbered N) x r = (Inr (), v)"
    "act_for (run_step (numbered K) (numbered N)) xs v = (Inr (), r')"
    using Cons.prems(1) by (auto simp: act_bind_eq_Inr)
  have xs: "\<forall>x \<in> set xs. is_create x \<or> x = NemesisSetup" using Cons.prems(2) by simp
  show ?case
  proof (cases "is_create x")
    case True
    then obtain i where x: "x = CreateClient i" by (cases x) auto
    have made: "create_client (numbered K) i r = (Inr (), v)" using v(1) x by (simp add: run_step_def)
    note rec = create_client_recorded [OF made]
    have nm: "map_option fst (rn_nemesis v) = Some nm" "nm < next_number v"
      using Cons.prems(3,4) rec by simp_all
    note rest = Cons.IH [OF v(2) xs nm]
    have calls: "client_calls j (run_log r') = client_calls j (run_log r) @
       creation_calls nm (length (filter (\<lambda>x. \<not> is_create x) (x # xs))) (next_number r)
         (length (filter is_create (x # xs))) j" for j
      using rest rec(6,7) Cons.prems(4) x by (auto simp: creation_calls_def)
    have upt: "[a ..< a + Suc b] = a # [Suc a ..< Suc a + b]" for a b :: nat
      by (simp add: upt_conv_Cons)
    show ?thesis using rest rec x calls upt by simp
  next
    case False
    then have x: "x = NemesisSetup" using Cons.prems(2) by simp
    note rec = step_recorded [OF v(1) False Cons.prems(3)]
    have nm: "map_option fst (rn_nemesis v) = Some nm" "nm < next_number v"
      using Cons.prems(3,4) rec by (simp_all add: steady_def)
    note rest = Cons.IH [OF v(2) xs nm]
    have calls: "client_calls j (run_log r') = client_calls j (run_log r) @
       creation_calls nm (length (filter (\<lambda>x. \<not> is_create x) (x # xs))) (next_number r)
         (length (filter is_create (x # xs))) j" for j
      using rest rec Cons.prems(4) x False
      by (auto simp: creation_calls_def step_events_def steady_def)
    show ?thesis using rest rec x calls False by (simp add: steady_def)
  qed
qed

section \<open>Setting up and tearing down the clients\<close>

lemma nf_get_frame: "nf_get r = (Inr (), r') \<Longrightarrow> r' = r\<lparr>rn_nf := None\<rparr>"
  by (auto simp: nf_get_def split: option.splits)

lemma filter_creates:
  assumes "\<forall>x \<in> set ys. \<not> is_create x"
  shows "filter is_create (par_order is [ys, map CreateClient ns]) = map CreateClient ns"
    and "filter (\<lambda>x. \<not> is_create x) (par_order is [ys, map CreateClient ns]) = ys"
proof -
  have "filter is_create (par_order is [ys, map CreateClient ns]) =
      filter is_create ([ys, map CreateClient ns] ! 1)"
    by (rule filter_par_order) (use assms in \<open>auto simp: less_Suc_eq filter_empty_conv\<close>)
  then show "filter is_create (par_order is [ys, map CreateClient ns]) = map CreateClient ns"
    by (simp add: filter_id_conv)
  have "filter (\<lambda>x. \<not> is_create x) (par_order is [ys, map CreateClient ns]) =
      filter (\<lambda>x. \<not> is_create x) ([ys, map CreateClient ns] ! 0)"
    by (rule filter_par_order) (auto simp: less_Suc_eq filter_empty_conv)
  then show "filter (\<lambda>x. \<not> is_create x) (par_order is [ys, map CreateClient ns]) = ys"
    using assms by (simp add: filter_id_conv)
qed

lemma client_calls_tag:
  "list_all (\<lambda>e. \<exists>c. e = ClientEvent i c) es \<Longrightarrow> j \<noteq> i \<Longrightarrow> client_calls j es = []"
  by (induction es) auto

text \<open>The threads of the clients with numbers from \<open>k\<close>, and one of the nemesis.\<close>

lemma client_threads_calls:
  fixes first second :: "nat \<Rightarrow> node_step" and ys :: "node_step list" and sched :: "nat list"
  assumes first: "\<And>i. step_events nm tags nodes (first i) = [ClientEvent (tags ! i) (a i)]"
    and second: "\<And>i. step_events nm tags nodes (second i) = [ClientEvent (tags ! i) (b i)]"
    and ys: "concat (map (step_events nm tags nodes) ys) = map (ClientEvent nm) cs"
    and tags: "tags = [k ..< k + n]" and nm: "\<not> (k \<le> nm \<and> nm < k + n)"
  defines "es \<equiv> concat (map (step_events nm tags nodes)
    (par_order sched (ys # map (\<lambda>i. [first i, second i]) [0..<n])))"
  shows "i < n \<Longrightarrow> client_calls (k + i) es = [a i, b i]" and "client_calls nm es = cs"
    and "j < k \<Longrightarrow> j \<noteq> nm \<Longrightarrow> client_calls j es = []"
proof -
  let ?ts = "ys # map (\<lambda>i. [first i, second i]) [0..<n]" and ?ev = "step_events nm tags nodes"
  have cs: "client_calls j (map (ClientEvent nm) cs) = (if j = nm then cs else [])" for j
    by (induction cs) auto
  have ys0: "client_calls j (?ev x) = []" if "x \<in> set ys" "j \<noteq> nm" for x j
  proof -
    have "set (?ev x) \<subseteq> set (concat (map ?ev ys))" using that(1) by auto
    then have "list_all (\<lambda>e. \<exists>c. e = ClientEvent nm c) (?ev x)"
      unfolding ys by (auto simp: list_all_iff)
    then show ?thesis using that(2) by (rule client_calls_tag)
  qed
  show "client_calls (k + i) es = [a i, b i]" if i: "i < n"
  proof -
    have "client_calls (k + i) es = client_calls (k + i) (concat (map ?ev (?ts ! Suc i)))"
      unfolding es_def
    proof (rule par_calls)
      fix t x
      assume t: "t < length ?ts" "t \<noteq> Suc i" "x \<in> set (?ts ! t)"
      show "client_calls (k + i) (?ev x) = []"
      proof (cases t)
        case 0
        then show ?thesis using t ys0 nm i by auto
      next
        case (Suc u)
        then have "u < n" "u \<noteq> i" "x = first u \<or> x = second u" using t by auto
        then show ?thesis using first second tags by auto
      qed
    qed (use i in simp)
    also have "\<dots> = [a i, b i]" using i first second tags by simp
    finally show ?thesis .
  qed
  have "client_calls nm es = client_calls nm (concat (map ?ev (?ts ! 0)))"
    unfolding es_def
  proof (rule par_calls)
    fix t x
    assume t: "t < length ?ts" "t \<noteq> 0" "x \<in> set (?ts ! t)"
    then obtain u where "t = Suc u" "u < n" by (cases t) auto
    then have "x = first u \<or> x = second u" using t by auto
    then show "client_calls nm (?ev x) = []" using first second tags nm \<open>u < n\<close> by auto
  qed simp
  then show "client_calls nm es = cs" using ys cs by simp
  show "client_calls j es = []" if "j < k" "j \<noteq> nm"
  proof -
    have "client_calls j (?ev x) = []" if x: "x \<in> set (par_order sched ?ts)" for x
    proof (cases "x \<in> set ys")
      case True
      then show ?thesis using ys0 \<open>j \<noteq> nm\<close> by simp
    next
      case False
      then obtain u where "u < n" "x = first u \<or> x = second u"
        using x by (auto simp: set_par_order)
      then show ?thesis using first second tags \<open>j < k\<close> by auto
    qed
    then show ?thesis by (simp add: es_def client_calls_concat filter_False)
  qed
qed

lemma nemesis_thread:
  "concat (map (step_events nm tags nodes) (if b then [] else [NemesisSetup])) =
     map (ClientEvent nm) (if b then [] else [SetupCall])"
  by (simp add: step_events_def)

lemma setup_creation:
  fixes r :: "('o, 'd, nat \<times> 'c, 'w recorded) runner"
  defines "k \<equiv> next_number r" and "n \<equiv> length (rn_nodes r)"
  assumes made: "create_nemesis (numbered N) r = (Inr (), r1)"
    and par: "interleaved is1 (run_step (numbered K) (numbered N))
        [if early then [NemesisSetup] else [], map CreateClient [0..<length (rn_nodes r1)]] r1 = (Inr (), r2)"
    and fresh: "rn_clients r = []" "rn_indexs r = []"
  shows "rn_nodes r2 = rn_nodes r \<and> rn_leave_db_running r2 = rn_leave_db_running r \<and>
    rn_indexs r2 = [0..<n] \<and> map fst (rn_clients r2) = [Suc k ..< Suc k + n] \<and>
    map_option fst (rn_nemesis r2) = Some k \<and> next_number r2 = Suc k + n \<and>
    client_calls k (run_log r2) =
      client_calls k (run_log r) @ CreateCall # (if early then [SetupCall] else []) \<and>
    (\<forall>i < n. client_calls (Suc k + i) (run_log r2) = client_calls (Suc k + i) (run_log r) @ [CreateCall])"
proof -
  let ?A = "if early then [NemesisSetup] else []"
  let ?xs = "par_order is1 [?A, map CreateClient [0..<n]]"
  note rec = create_nemesis_recorded [OF made]
  have steps: "act_for (run_step (numbered K) (numbered N)) ?xs r1 = (Inr (), r2)"
    using par rec(1) by (simp add: interleaved_def n_def)
  have xs: "filter is_create ?xs = map CreateClient [0..<n]"
    "filter (\<lambda>x. \<not> is_create x) ?xs = ?A"
    by (rule filter_creates, simp)+
  have "\<forall>x \<in> set ?xs. is_create x \<or> x = NemesisSetup"
    by (auto simp: set_par_order)
  note stage = create_stage [OF steps this rec(3), unfolded xs]
  have "map CreateClient as = map CreateClient bs \<Longrightarrow> as = bs" for as bs
    by (induction as arbitrary: bs) auto
  then show ?thesis
    using stage rec fresh by (auto simp: k_def creation_calls_def)
qed

lemma setupClientNemesis_recorded:
  fixes r :: "('o, 'd, nat \<times> 'c, 'w recorded) runner"
  defines "k \<equiv> next_number r" and "n \<equiv> length (rn_nodes r)"
  assumes run: "setupClientNemesis (numbered K) (numbered N) early is1 is2 r = (Inr (), r')"
    and fresh: "rn_clients r = []" "rn_indexs r = []"
  shows "rn_nodes r' = rn_nodes r \<and> rn_leave_db_running r' = rn_leave_db_running r \<and>
    rn_indexs r' = [0..<n] \<and> map fst (rn_clients r') = [Suc k ..< Suc k + n] \<and>
    next_number r' = Suc k + n \<and>
    client_calls k (run_log r') = client_calls k (run_log r) @ [CreateCall, SetupCall] \<and>
    (\<forall>i < n. client_calls (Suc k + i) (run_log r') =
       client_calls (Suc k + i) (run_log r) @ [CreateCall, OpenCall (rn_nodes r ! i), SetupCall])"
proof -
  let ?step = "run_step (numbered K) (numbered N)"
  let ?B = "if early then [] else [NemesisSetup]"
  let ?ts = "?B # map (\<lambda>i. [OpenClient i, SetupClient i]) [0..<n]"
  obtain r1 r2 r3 where r1: "create_nemesis (numbered N) r = (Inr (), r1)"
    and r2: "interleaved is1 ?step [if early then [NemesisSetup] else [],
        map CreateClient [0..<length (rn_nodes r1)]] r1 = (Inr (), r2)"
    and r3: "par_for is2 ?step (?B # map (\<lambda>i. [OpenClient i, SetupClient i]) (rn_indexs r2)) r2 = (Inr (), r3)"
    and r4: "nf_get r3 = (Inr (), r')"
    using run by (auto simp: setupClientNemesis_def act_bind_eq_Inr)
  note stage1 = setup_creation [OF r1 r2 fresh, folded k_def n_def]
  have parts: "rn_nodes r2 = rn_nodes r" "rn_indexs r2 = [0..<n]"
    "map fst (rn_clients r2) = [Suc k ..< Suc k + n]" "map_option fst (rn_nemesis r2) = Some k"
    using stage1 by blast+
  have r3': "act_for ?step (par_order is2 ?ts) r2 = (Inr (), r3)"
    using r3 parts(2) by (simp add: par_for_Inr)
  have "\<forall>x \<in> set (par_order is2 ?ts). \<not> is_create x"
    by (auto simp: set_par_order)
  note stage2 = steps_recorded [OF r3' this parts(4), unfolded parts(1,3)]
  note calls = client_threads_calls [where first = OpenClient and second = SetupClient
      and nodes = "rn_nodes r" and tags = "[Suc k ..< Suc k + n]" and nm = k and k = "Suc k" and n = n
      and a = "\<lambda>i. OpenCall (rn_nodes r ! i)" and b = "\<lambda>_. SetupCall" and ys = ?B
      and cs = "if early then [] else [SetupCall]" and sched = is2, OF _ _ nemesis_thread refl]
  have r': "r' = r3\<lparr>rn_nf := None\<rparr>" by (rule nf_get_frame [OF r4])
  have nem: "client_calls k (run_log r') = client_calls k (run_log r) @ [CreateCall, SetupCall]"
    using stage1 stage2 calls(2) r' by (cases early) (simp_all add: step_events_def)
  have cl: "client_calls (Suc k + i) (run_log r') =
       client_calls (Suc k + i) (run_log r) @ [CreateCall, OpenCall (rn_nodes r ! i), SetupCall]"
    if "i < n" for i
    using stage1 stage2 calls(1) [OF _ _ _ that] r' that by (simp add: step_events_def)
  show ?thesis
    using stage1 stage2 r' nem cl by (simp add: steady_def)
qed

lemma teardownClientNemesis_recorded:
  fixes r :: "('o, 'd, nat \<times> 'c, 'w recorded) runner"
  assumes run: "teardownClientNemesis (numbered K) (numbered N) is r = (Inr (), r')"
    and parts: "rn_indexs r = [0..<n]" "map fst (rn_clients r) = [k ..< k + n]"
    and above: "k + n \<le> next_number r"
  shows "rn_nodes r' = rn_nodes r \<and> rn_leave_db_running r' = rn_leave_db_running r \<and>
    (\<forall>i < n. client_calls (k + i) (run_log r') =
       client_calls (k + i) (run_log r) @ [TeardownCall, CloseCall]) \<and>
    (\<forall>j < k. client_calls j (run_log r') = client_calls j (run_log r)) \<and>
    client_calls (next_number r) (run_log r') =
      client_calls (next_number r) (run_log r) @ [CreateCall, TeardownCall]"
proof -
  let ?step = "run_step (numbered K) (numbered N)" and ?m = "next_number r"
  let ?ts = "[NemesisTeardown] # map (\<lambda>i. [TeardownClient i, CloseClient i]) [0..<n]"
  obtain r1 r2 where r1: "create_nemesis (numbered N) r = (Inr (), r1)"
    and r2: "par_for is ?step
        ([NemesisTeardown] # map (\<lambda>i. [TeardownClient i, CloseClient i]) (rn_indexs r1)) r1 = (Inr (), r2)"
    and r3: "nf_get r2 = (Inr (), r')"
    using run by (auto simp: teardownClientNemesis_def act_bind_eq_Inr)
  note made = create_nemesis_recorded [OF r1]
  have r2': "act_for ?step (par_order is ?ts) r1 = (Inr (), r2)"
    using r2 made parts by (simp add: par_for_Inr)
  have "\<forall>x \<in> set (par_order is ?ts). \<not> is_create x"
    by (auto simp: set_par_order)
  note stage = steps_recorded [OF r2' this made(3), unfolded made(1,5) parts]
  have ys: "concat (map (step_events ?m tags nodes) [NemesisTeardown]) =
      map (ClientEvent ?m) [TeardownCall]" for tags nodes
    by (simp add: step_events_def)
  note calls = client_threads_calls [where first = TeardownClient and second = CloseClient
      and nodes = "rn_nodes r" and tags = "[k ..< k + n]" and nm = ?m and k = k and n = n
      and a = "\<lambda>_. TeardownCall" and b = "\<lambda>_. CloseCall" and sched = "is", OF _ _ ys refl]
  have r': "r' = r2\<lparr>rn_nf := None\<rparr>" by (rule nf_get_frame [OF r3])
  have "client_calls (k + i) (run_log r') = client_calls (k + i) (run_log r) @ [TeardownCall, CloseCall]"
    if "i < n" for i
    using stage calls(1) [OF _ _ _ that] made r' above that by (simp add: step_events_def)
  moreover have "client_calls j (run_log r') = client_calls j (run_log r)" if "j < k" for j
    using stage calls(3) [OF _ _ _ that] made r' above that by (simp add: step_events_def)
  moreover have "client_calls ?m (run_log r') = client_calls ?m (run_log r) @ [CreateCall, TeardownCall]"
    using stage calls(2) made r' above by (simp add: step_events_def)
  ultimately show ?thesis using stage made r' by (simp add: steady_def)
qed

section \<open>A run\<close>

text \<open>The settings never change, and the phases of clients and nemesis record only their calls.\<close>

definition settings where
  "settings r = (rn_nodes r, rn_leave_db_running r)"

definition client_phase where
  "client_phase r r' \<longleftrightarrow> settings r' = settings r \<and>
     (\<exists>es. run_log r' = run_log r @ es \<and> list_all is_client_event es)"

lemma client_phase_refl: "client_phase r r"
  by (simp add: client_phase_def)

lemma client_phase_trans:
  assumes "client_phase r s" and "client_phase s t"
  shows "client_phase r t"
proof -
  obtain es es' where "run_log s = run_log r @ es" "run_log t = run_log s @ es'"
    "list_all is_client_event es" "list_all is_client_event es'"
    using assms by (auto simp: client_phase_def)
  then have "run_log t = run_log r @ es @ es'" "list_all is_client_event (es @ es')" by simp_all
  then show ?thesis using assms unfolding client_phase_def by (metis (no_types, lifting))
qed

lemma client_phase_event:
  "settings r' = settings r \<Longrightarrow> run_log r' = run_log r @ [ClientEvent i e] \<Longrightarrow> client_phase r r'"
  by (simp add: client_phase_def)

lemma on_client_phase:
  "on_client i (\<lambda>node. call_numbered (e node) (m node)) r = (Inr (), r') \<Longrightarrow> client_phase r r'"
  using on_client_recorded [of i e m r r']
  by (auto simp: steady_def settings_def intro: client_phase_event)

lemma in_future_phase:
  assumes "in_future (call_numbered e m) r = (Inr (), r')"
  shows "client_phase r r'"
proof (cases "rn_nemesis r")
  case None
  then show ?thesis using assms by (auto simp: in_future_def client_phase_def settings_def)
next
  case (Some c)
  then show ?thesis
    using in_future_recorded [OF assms, of "fst c"]
    by (auto simp: steady_def settings_def intro: client_phase_event)
qed

lemma node_step_phase:
  assumes "run_step (numbered K) (numbered N) x r = (Inr (), r')"
  shows "client_phase r r'"
proof (cases x)
  case (CreateClient i)
  then have "create_client (numbered K) i r = (Inr (), r')" using assms by (simp add: run_step_def)
  from create_client_recorded [OF this] show ?thesis
    by (auto simp: settings_def intro: client_phase_event)
qed (use assms in \<open>auto simp: run_step_def numbered_def intro: in_future_phase on_client_phase\<close>)

lemma node_steps_phase:
  "act_for (run_step (numbered K) (numbered N)) xs r = (Inr (), r') \<Longrightarrow> client_phase r r'"
proof (induction xs arbitrary: r)
  case Nil
  then show ?case by (simp add: act_return_def client_phase_refl)
next
  case (Cons x xs)
  then show ?case
    by (auto simp: act_bind_eq_Inr intro: client_phase_trans [OF node_step_phase])
qed

lemma create_nemesis_phase: "create_nemesis (numbered N) r = (Inr (), r') \<Longrightarrow> client_phase r r'"
  using create_nemesis_recorded [of N r r'] by (auto simp: settings_def intro: client_phase_event)

lemma nf_get_phase: "nf_get r = (Inr (), r') \<Longrightarrow> client_phase r r'"
  by (auto simp: client_phase_def settings_def dest!: nf_get_frame)

lemma setupClientNemesis_phase:
  assumes "setupClientNemesis (numbered K) (numbered N) early is1 is2 r = (Inr (), r')"
  shows "client_phase r r'"
  using assms
  by (auto simp: setupClientNemesis_def act_bind_eq_Inr interleaved_def par_for_Inr
      dest!: create_nemesis_phase node_steps_phase nf_get_phase)
    (blast intro: client_phase_trans)

lemma teardownClientNemesis_phase:
  assumes "teardownClientNemesis (numbered K) (numbered N) is r = (Inr (), r')"
  shows "client_phase r r'"
  using assms
  by (auto simp: teardownClientNemesis_def act_bind_eq_Inr par_for_Inr
      dest!: create_nemesis_phase node_steps_phase nf_get_phase)
    (blast intro: client_phase_trans)

lemma runCases_frame:
  assumes "runCases gop gupd K N now as r = (res, r')"
  shows "settings r' = settings r" "rn_clients r' = rn_clients r" "rn_indexs r' = rn_indexs r"
  using assms by (auto simp: runCases_def settings_def split: sum.splits option.splits)

lemma runCases_later:
  assumes "runCases gop gupd (numbered K) (numbered N) now as r = (res, r')"
  shows "later (next_number r) (run_log r) (rn_world r')"
  by (rule numbered_system.runCases_kept [OF assms later_refl]) simp

lemma runCases_phase:
  assumes "runCases gop gupd (numbered K) (numbered N) now as r = (res, r')"
  shows "client_phase r r'"
  using runCases_later [OF assms] runCases_frame(1) [OF assms]
  by (auto simp: client_phase_def later_def list_all_iff dest: client_event_from_is)

end
