(* ===== verification/Runner_Safety.thy ===== *)
theory Runner_Safety
  imports Runner_Invariant
begin

text \<open>
  Safety of whole runs. The locale \<open>runner_system\<close> puts a generator, the registered client
  and nemesis together; inside it every reachable state of the system satisfies \<open>sys_inv\<close>,
  and the loop is left only with everything completed.
\<close>

section \<open>The system invariant\<close>

text \<open>While the loop waits for the workers: nothing but exits is under way.\<close>

definition drained :: "int \<Rightarrow> op_kind set \<Rightarrow> ('c, 'w) sys \<Rightarrow> bool" where
  "drained n C s \<longleftrightarrow>
     ctx_inv n (r_ctx (s_run s)) \<and> histories n C (r_ctx (s_run s)) (r_history (s_run s)) \<and>
     {0..<n} \<subseteq> set (free_threads (r_ctx (s_run s))) \<and>
     r_outstanding (s_run s) = 0 \<and> s_completions s = [] \<and>
     distinct (map fst (s_workers s)) \<and>
     (\<forall>t w. map_of (s_workers s) t = Some w \<longrightarrow>
        (\<forall>o1 \<in> set (w_in w). op_type o1 = kExit) \<and> (w_status w = Running \<longrightarrow> w_in w \<noteq> []))"

definition sys_inv ::
  "int \<Rightarrow> op_kind set \<Rightarrow> (gen_ptr \<Rightarrow> bool) \<Rightarrow> ('c, 'w) sys \<Rightarrow> bool" where
  "sys_inv n C G s \<longleftrightarrow>
     (case r_phase (s_run s) of
        Polling \<Rightarrow>
          accounts n C (r_ctx (s_run s)) (r_outstanding (s_run s)) (s_workers s) (s_completions s) \<and>
          histories n C (r_ctx (s_run s)) (r_history (s_run s)) \<and> G (r_gen (s_run s))
      | Joining \<Rightarrow> drained n C s
      | Done \<Rightarrow> drained n C s
      | Aborted e \<Rightarrow> e \<in> op_faults \<or> (\<exists>(t, w) \<in> set (s_workers s). w_status w = Crashed e))"

lemma accounts_time:
  "accounts n C c out ws cs \<Longrightarrow> accounts n C (c\<lparr>ctx_time := x\<rparr>) out ws cs"
  unfolding accounts_def
  by (auto simp: worker_ok_def thread_ok_def completion_ok_def ctx_inv_time)

lemma histories_time: "histories n C c h \<Longrightarrow> histories n C (c\<lparr>ctx_time := x\<rparr>) h"
  by (auto simp: histories_def proc_ok_def)

lemma accounts_idle:
  assumes acc: "accounts n C c out ws cs" and out: "out \<le> 0" and n: "0 < n"
  shows "cs = []" "out = 0" "{0..<n} \<subseteq> set (free_threads c)"
    "\<And>t w. map_of ws t = Some w \<Longrightarrow> w_in w = [] \<and> w_status w = Running"
proof -
  note A = accountsD [OF acc]
  have "sum_list (map (\<lambda>(t, w). load w) ws) + length cs = 0" using A(7) out by linarith
  then have sum: "sum_list (map (\<lambda>(t, w). load w) ws) = 0" and "length cs = 0" by auto
  then show "cs = []" "out = 0" using A(7) by auto
  have load: "load w = 0" if "map_of ws t = Some w" for t w
    using sum map_of_SomeD [OF that] by (force simp: sum_list_eq_0_iff)
  then show "w_in w = [] \<and> w_status w = Running" if "map_of ws t = Some w" for t w
    using load [OF that] by (auto simp: load_def split: if_splits)
  show "{0..<n} \<subseteq> set (free_threads c)"
  proof
    fix t assume t: "t \<in> {0..<n}"
    then have "t \<in> dom (map_of ws)" "t \<in> dom (map_of (workers c))"
      using A(1,3) by (auto simp: dom_map_of_keys ctx_inv_def simp del: set_map)
    then obtain w p where w: "map_of ws t = Some w" "map_of (workers c) t = Some p" by auto
    have "load w + length (proc_ops p cs) = (if t \<in> set (free_threads c) then 0 else 1)"
      using A(5) [OF w(1)] w(2) t by (auto simp: thread_ok_def)
    then show "t \<in> set (free_threads c)"
      using load [OF w(1)] \<open>cs = []\<close> by (auto split: if_splits)
  qed
qed

locale runner_system =
  generator_iface gop gupd ginv + client: client_contract K C + nem: client_contract N D
  for gop gupd ginv and K :: "('c, 'w) client_class" and C
    and N :: "('c, 'w) client_class" and D +
  fixes n :: int
  assumes n_pos: "0 < n"
begin

lemma dispatch_step:
  assumes acc: "accounts n C (r_ctx rs) (r_outstanding rs) ws cs"
    and hist: "histories n C (r_ctx rs) (r_history rs)"
    and type: "op_type op1 = kInvoke"
    and proc: "op_process op1 \<in> insert kNemesisProcess (free_procs (r_ctx rs))"
    and g: "ginv gen2"
  obtains (overflow) "dispatch gupd op1 gen2 rs ws = Inl SignedOverflow"
  | (ok) rs' ws' where "dispatch gupd op1 gen2 rs ws = Inr (rs', ws')"
      "accounts n C (r_ctx rs') (r_outstanding rs') ws' cs"
      "histories n C (r_ctx rs') (r_history rs')" "ginv (r_gen rs')" "r_phase rs' = r_phase rs"
proof -
  note A = accountsD [OF acc]
  have "\<exists>t. map_of (workers (r_ctx rs)) t = Some (op_process op1) \<and>
      (t = kNemesisProcess \<or> t \<in> set (free_threads (r_ctx rs)))"
    using proc A(1) by (auto simp: free_procs_def ctx_inv_def)
  then obtain t where p: "map_of (workers (r_ctx rs)) t = Some (op_process op1)"
    and free: "t = kNemesisProcess \<or> t \<in> set (free_threads (r_ctx rs))" by blast
  have t: "processToThread (r_ctx rs) (op_process op1) = t"
    by (rule processToThread_inverse [OF ctx_inv_wf [OF A(1)] p])
  have "t \<in> set (map fst ws)"
    using ctx_inv_worker_range [OF A(1) p] unfolding A(3) by auto
  then obtain w where w: "map_of ws t = Some w" by (metis dom_map_of_keys domD)
  obtain g' where g': "gupd gen2 (dispatch_ctx op1 t (r_ctx rs)) op1 = Inr g'" "ginv g'"
    using g_upd [OF g] by blast
  have eq: "dispatch gupd op1 gen2 rs ws =
    bind_res (add_i32 (r_outstanding rs) 1) (\<lambda>out.
      Inr (rs\<lparr>r_ctx := dispatch_ctx op1 t (r_ctx rs), r_gen := g',
              r_history := r_history rs @ [op1], r_outstanding := out, r_timeout := 0\<rparr>,
           AList.update t (putOp op1 w) ws))"
    using t w g'(1) by (simp add: dispatch_def dispatch_ctx_def Let_def)
  show thesis
  proof (cases "in_i32 (r_outstanding rs + 1)")
    case True
    then have "dispatch gupd op1 gen2 rs ws =
        Inr (rs\<lparr>r_ctx := dispatch_ctx op1 t (r_ctx rs), r_gen := g',
                r_history := r_history rs @ [op1], r_outstanding := r_outstanding rs + 1,
                r_timeout := 0\<rparr>, AList.update t (putOp op1 w) ws)"
      unfolding eq by (simp add: add_i32_def)
    then show thesis
      by (rule ok)
        (use accounts_dispatch [OF acc w p type free]
          histories_dispatch [OF A(1) hist p type free] g'(2) in simp_all)
  next
    case False
    then have "dispatch gupd op1 gen2 rs ws = Inl SignedOverflow"
      unfolding eq by (simp add: add_i32_def)
    then show thesis by (rule overflow)
  qed
qed

lemma exit_all:
  "map_of (map (\<lambda>(t, w). (t, putOp factory_exit w)) ws) t =
     map_option (putOp factory_exit) (map_of ws t)"
  by (induction ws) auto

lemma poll_step:
  assumes inv: "sys_inv n C ginv s" and poll: "r_phase (s_run s) = Polling"
  shows "run_poll gop gupd now r (s_run s) (s_workers s) = Inl e \<Longrightarrow> e \<in> op_faults"
    and "run_poll gop gupd now r (s_run s) (s_workers s) = Inr (rs, ws) \<Longrightarrow>
      sys_inv n C ginv (s\<lparr>s_run := rs, s_workers := ws\<rparr>)"
proof -
  let ?rs = "s_run s" and ?ws = "s_workers s" and ?cs = "s_completions s"
  let ?c0 = "(r_ctx ?rs)\<lparr>ctx_time := now\<rparr>"
  have acc: "accounts n C ?c0 (r_outstanding ?rs) ?ws ?cs"
    and hist: "histories n C ?c0 (r_history ?rs)" and g: "ginv (r_gen ?rs)"
    using inv poll by (auto simp: sys_inv_def accounts_time histories_time)
  note A = accountsD [OF acc]
  have wf: "ctx_wf ?c0" by (rule ctx_inv_wf [OF A(1)])
  have *: "case run_poll gop gupd now r ?rs ?ws of Inl e \<Rightarrow> e \<in> op_faults
    | Inr (rs, ws) \<Rightarrow> sys_inv n C ginv (s\<lparr>s_run := rs, s_workers := ws\<rparr>)"
  proof (cases "gop (r_gen ?rs) ?c0 r")
    case (Inl x)
    then show ?thesis using g_fault [OF wf g Inl] by (simp add: run_poll_def)
  next
    case (Inr y)
    obtain op1 gen2 g' r' where y: "y = ((op1, gen2), g', r')" by (cases y) auto
    note op = g_op [OF wf g Inr [unfolded y]]
    let ?rs1 = "?rs\<lparr>r_ctx := ?c0, r_gen := g'\<rparr>"
    have wait: "sys_inv n C ginv (s\<lparr>s_run := ?rs1\<lparr>r_timeout := x\<rparr>, s_workers := ?ws\<rparr>)" for x
      using acc hist op poll by (simp add: sys_inv_def)
    have type: "op_type op1 \<in> {kInvoke, kNil, kPending}" using op by blast
    show ?thesis
    proof (cases "op_type op1 = kNil")
      case True
      show ?thesis
      proof (cases "r_outstanding ?rs > 0")
        case pos: True
        then show ?thesis using True Inr y wait by (simp add: run_poll_def)
      next
        case False
        note idle = accounts_idle [OF acc _ n_pos]
        have exits: "op_type o1 = kExit"
          if m: "map_of (map (\<lambda>(t, w). (t, putOp factory_exit w)) ?ws) t = Some w" and o1: "o1 \<in> set (w_in w)"
          for t w o1
        proof -
          obtain v where v: "map_of ?ws t = Some v" "w = putOp factory_exit v"
            using m exit_all [of ?ws t] by (cases "map_of ?ws t") simp_all
          have "w_in v = []" using idle(4) [OF _ v(1)] False by simp
          then show ?thesis
            using o1 v(2) by (simp add: putOp_def factory_exit_def Operation_of_def)
        qed
        have some: "w_in w \<noteq> []"
          if m: "map_of (map (\<lambda>(t, w). (t, putOp factory_exit w)) ?ws) t = Some w" for t w
          using m exit_all [of ?ws t] by (cases "map_of ?ws t") (auto simp: putOp_def)
        have "distinct (map fst (map (\<lambda>(t, w). (t, putOp factory_exit w)) ?ws))"
          using A(2) by (simp add: comp_def split_def)
        then have "drained n C (s\<lparr>s_run := ?rs1\<lparr>r_phase := Joining\<rparr>,
            s_workers := map (\<lambda>(t, w). (t, putOp factory_exit w)) ?ws\<rparr>)"
          unfolding drained_def using exits some idle(1-3) False A(1) hist by auto
        then show ?thesis using True Inr y False by (simp add: run_poll_def sys_inv_def)
      qed
    next
      case not_nil: False
      show ?thesis
      proof (cases "op_type op1 = kPending")
        case True
        then show ?thesis using Inr y wait by (simp add: run_poll_def)
      next
        case False
        then have invoke: "op_type op1 = kInvoke" using type not_nil by blast
        show ?thesis
        proof (cases "now < op_time op1")
          case True
          then show ?thesis
            using Inr y wait invoke by (simp add: run_poll_def add_i64_def)
        next
          case False
          have eq: "run_poll gop gupd now r ?rs ?ws = dispatch gupd op1 gen2 ?rs1 ?ws"
            using Inr y invoke False by (simp add: run_poll_def)
          have acc1: "accounts n C (r_ctx ?rs1) (r_outstanding ?rs1) ?ws ?cs"
            and hist1: "histories n C (r_ctx ?rs1) (r_history ?rs1)"
            and proc1: "op_process op1 \<in> insert kNemesisProcess (free_procs (r_ctx ?rs1))"
            using acc hist op invoke by simp_all
          have g2: "ginv gen2" using op by blast
          show ?thesis
            by (rule dispatch_step [OF acc1 hist1 invoke proc1 g2])
              (use poll in \<open>auto simp: eq sys_inv_def\<close>)
        qed
      qed
    qed
  qed
  show "run_poll gop gupd now r (s_run s) (s_workers s) = Inl e \<Longrightarrow> e \<in> op_faults"
    using * by simp
  show "run_poll gop gupd now r (s_run s) (s_workers s) = Inr (rs, ws) \<Longrightarrow>
      sys_inv n C ginv (s\<lparr>s_run := rs, s_workers := ws\<rparr>)"
    using * by simp
qed

lemma complete_step:
  assumes inv: "sys_inv n C ginv s" and poll: "r_phase (s_run s) = Polling"
    and cs: "s_completions s = xs @ op1 # ys"
  shows "run_complete gupd now op1 (s_run s) = Inl e \<Longrightarrow> e \<in> op_faults"
    and "run_complete gupd now op1 (s_run s) = Inr rs \<Longrightarrow>
      sys_inv n C ginv (s\<lparr>s_run := rs, s_completions := xs @ ys\<rparr>)"
proof -
  let ?rs = "s_run s"
  have acc: "accounts n C (r_ctx ?rs) (r_outstanding ?rs) (s_workers s) (xs @ op1 # ys)"
    and hist: "histories n C (r_ctx ?rs) (r_history ?rs)" and g: "ginv (r_gen ?rs)"
    using inv poll cs by (auto simp: sys_inv_def)
  note A = accountsD [OF acc]
  have "completion_ok C (r_ctx ?rs) op1" using A(6) by simp
  then obtain t where p: "map_of (workers (r_ctx ?rs)) t = Some (op_process op1)"
    by (auto simp: completion_ok_def)
  have upd: "\<exists>g'. gupd (r_gen ?rs) c e = Inr g'" for c e using g_upd [OF g] by blast
  have *: "case run_complete gupd now op1 ?rs of Inl e \<Rightarrow> e \<in> op_faults
    | Inr rs \<Rightarrow> sys_inv n C ginv (s\<lparr>s_run := rs, s_completions := xs @ ys\<rparr>)"
  proof (rule run_complete_eval [where gupd = gupd and now = now, OF A(1) n_pos p upd])
    assume "run_complete gupd now op1 ?rs = Inl SignedOverflow"
    then show ?thesis by simp
  next
    fix g2
    assume eq: "run_complete gupd now op1 ?rs =
        Inr (?rs\<lparr>r_ctx := complete_ctx n now op1 t (r_ctx ?rs), r_gen := g2,
                r_history := r_history ?rs @ [op1\<lparr>op_time := now\<rparr>],
                r_outstanding := r_outstanding ?rs - 1, r_timeout := 0\<rparr>)"
      and "\<exists>c e. gupd (r_gen ?rs) c e = Inr g2"
    then have "ginv g2" using g_upd [OF g] by (metis sum.inject(2))
    then show ?thesis
      using eq poll accounts_complete [OF acc n_pos p, of now]
        histories_complete [OF acc n_pos hist p, of "op1\<lparr>op_time := now\<rparr>" now]
      by (simp add: sys_inv_def)
  qed
  show "run_complete gupd now op1 (s_run s) = Inl e \<Longrightarrow> e \<in> op_faults" using * by simp
  show "run_complete gupd now op1 (s_run s) = Inr rs \<Longrightarrow>
      sys_inv n C ginv (s\<lparr>s_run := rs, s_completions := xs @ ys\<rparr>)"
    using * by simp
qed

end

section \<open>The first state\<close>

lemma map_of_client_workers:
  "map_of (map (\<lambda>i. (i, f i)) is @ [(k, x)]) t =
     (if t \<in> set is then Some (f t) else if t = k then Some x else None)"
  by (induction "is") auto

lemma init_ctx_free: "0 < n \<Longrightarrow> free_threads (init_ctx now n) = kNemesisProcess # [0..n - 1]"
  using Context_init_free [of n now] by (simp add: init_ctx_def)

lemma init_ctx_process:
  "map_of (workers (init_ctx now n)) t =
     (if t = kNemesisProcess \<or> 0 \<le> t \<and> t < n then Some t else None)"
  using map_of_client_workers [of "\<lambda>i. i" "[0..n - 1]" kNemesisProcess kNemesisProcess t]
  by (auto simp: init_ctx_def)

lemma upto_less: "set [0..n - 1] = {0..<n}" for n :: int
  by auto

lemma ctx_inv_init: "0 < n \<Longrightarrow> ctx_inv n (init_ctx now n)"
proof -
  assume n: "0 < n"
  have "map fst (workers (init_ctx now n)) = [0..n - 1] @ [kNemesisProcess]"
    by (simp add: init_ctx_def comp_def)
  moreover have "ascending (kNemesisProcess # [0..n - 1])"
    by (simp add: ascending_def)
  ultimately show ?thesis
    unfolding ctx_inv_def using n
    by (auto simp: init_ctx_free init_ctx_process upto_less simp del: set_map split: if_splits)
qed

lemma histories_init: "0 < n \<Longrightarrow> histories n C (init_ctx now n) []"
  unfolding histories_def proc_ok_def
  by (auto simp: init_ctx_process init_ctx_free upto_less split: if_splits)
    (metis pos_mod_sign zmod_le_nonneg_dividend not_less)+

lemma init_workers_eval:
  assumes "init_workers N nodes n w0 = (Inr ws, w1)" and "0 < n"
  obtains nw where
    "ws = map (\<lambda>i. (i, ClientWorker i (nodes ! nat (i mod int (length nodes))))) [0..n - 1]
       @ [(kNemesisProcess, nw)]"
    and "w_kind nw = NemesisKind" and "w_in nw = []" and "w_status nw = Running"
  using assms by (auto simp: init_workers_def NemesisWorker_def res_simps split: if_splits)

lemma accounts_init:
  assumes ws: "init_workers N nodes n w0 = (Inr ws, w1)" and n: "0 < n"
  shows "accounts n C (init_ctx now n) 0 ws []"
proof -
  obtain nw where nw:
    "ws = map (\<lambda>i. (i, ClientWorker i (nodes ! nat (i mod int (length nodes))))) [0..n - 1]
       @ [(kNemesisProcess, nw)]"
    "w_kind nw = NemesisKind" "w_in nw = []" "w_status nw = Running"
    using ws n by (rule init_workers_eval)
  have keys: "map fst ws = [0..n - 1] @ [kNemesisProcess]" by (simp add: nw(1) comp_def)
  have idle: "w_in w = [] \<and> w_status w = Running \<and> (w_kind w = ClientKind \<longleftrightarrow> t \<noteq> kNemesisProcess) \<and>
      (t = kNemesisProcess \<or> 0 \<le> t \<and> t < n)"
    if "map_of ws t = Some w" for t w
    using that nw unfolding nw(1) map_of_client_workers
    by (auto simp: ClientWorker_def split: if_splits)
  have "sum_list (map (\<lambda>(t, w). load w) ws) = 0"
    using nw by (auto simp: sum_list_eq_0_iff load_def ClientWorker_def)
  moreover have "worker_ok (init_ctx now n) t w" "thread_ok (init_ctx now n) t w []"
    if "map_of ws t = Some w" for t w
    using idle [OF that] n
    by (auto simp: worker_ok_def thread_ok_def load_def init_ctx_free upto_less)
  ultimately show ?thesis
    unfolding accounts_def keys using ctx_inv_init [OF n] by auto
qed

context runner_system
begin

lemma work_step:
  assumes inv: "sys_inv n C ginv s" and phase: "r_phase (s_run s) \<in> {Polling, Joining}"
    and w: "map_of (s_workers s) t = Some w" and run: "w_status w = Running"
    and it: "runAsync_iter K N w (s_world s) = (w', out, v)"
  shows "sys_inv n C ginv (s\<lparr>s_workers := AList.update t w' (s_workers s),
          s_completions := s_completions s @ out, s_world := v\<rparr>)"
proof (cases "r_phase (s_run s) = Polling")
  case True
  then have acc: "accounts n C (r_ctx (s_run s)) (r_outstanding (s_run s)) (s_workers s)
      (s_completions s)" and rest: "histories n C (r_ctx (s_run s)) (r_history (s_run s))"
    "ginv (r_gen (s_run s))"
    using inv by (auto simp: sys_inv_def)
  note A = accountsD [OF acc]
  have ok: "worker_ok (r_ctx (s_run s)) t w" by (rule A(4) [OF w])
  have "accounts n C (r_ctx (s_run s)) (r_outstanding (s_run s))
      (AList.update t w' (s_workers s)) (s_completions s @ out)"
  proof (cases "w_in w")
    case Nil
    then have "w' = w" "out = []" using it by auto
    then show ?thesis using accounts_worker [OF acc w ok, of "[]"] by simp
  next
    case (Cons op1 q)
    then have op1: "op_type op1 = kInvoke"
      "map_of (workers (r_ctx (s_run s))) t = Some (op_process op1)"
      using ok by (auto simp: worker_ok_def)
    then have "op_type op1 \<noteq> kExit" by simp
    with Cons show ?thesis
    proof (cases rule: runAsync_iter_invoke [where K = K and N = N and s = "s_world s"])
      case (crash e s')
      then have "w' = w\<lparr>w_in := q, w_status := Crashed e\<rparr>" "out = []" using it by auto
      then show ?thesis
        using accounts_worker [OF acc w, of w' "[]"] ok Cons run
        by (auto simp: worker_ok_def load_def)
    next
      case (ok b op2 w2 s')
      have w': "w' = w2" "out = [op2]" using it ok(2) by auto
      have kind: "w_kind w = ClientKind \<longleftrightarrow> t \<noteq> kNemesisProcess"
        using A(4) [OF w] by (simp add: worker_ok_def)
      have out: "op_process op2 = op_process op1 \<and> (t \<noteq> kNemesisProcess \<longrightarrow> op_type op2 \<in> C)"
      proof (cases "w_kind w")
        case ClientKind
        then show ?thesis
          using ok(1) client.ClientWorker_invoke_outcome [of op1 "w\<lparr>w_in := q\<rparr>"] op1(1)
          by (auto simp: Worker_invoke_def)
      next
        case NemesisKind
        then show ?thesis
          using ok(1) nem.NemesisWorker_invoke_outcome [of op1 "w\<lparr>w_in := q\<rparr>"] kind
          by (auto simp: Worker_invoke_def)
      qed
      show ?thesis
        unfolding w'
      proof (rule accounts_worker [OF acc w])
        show "worker_ok (r_ctx (s_run s)) t w2"
          using A(4) [OF w] ok Cons run by (auto simp: worker_ok_def)
        show "load w2 + length [op2] = load w"
          using ok Cons run by (simp add: load_def)
      qed (use out op1(2) in \<open>auto simp: completion_ok_def\<close>)
    qed
  qed
  then show ?thesis using True rest by (simp add: sys_inv_def)
next
  case False
  then have joining: "r_phase (s_run s) = Joining" using phase by simp
  then have dr: "drained n C s" using inv by (simp add: sys_inv_def)
  have "out = [] \<and> w_status w' \<noteq> Running \<and> set (w_in w') \<subseteq> set (w_in w)"
  proof (cases "w_in w")
    case Nil
    then show ?thesis using dr w run by (simp add: drained_def)
  next
    case (Cons op1 q)
    then have "op_type op1 = kExit" using dr w by (auto simp: drained_def)
    with Cons show ?thesis
      by (rule runAsync_iter_exit [where K = K and N = N and s = "s_world s"]) (use it Cons in auto)
  qed
  then have "drained n C (s\<lparr>s_workers := AList.update t w' (s_workers s),
      s_completions := s_completions s @ out, s_world := v\<rparr>)"
    using dr w unfolding drained_def by (auto simp: update_conv' AList.distinct_update split: if_splits)
  then show ?thesis using joining by (simp add: sys_inv_def)
qed

lemma step_inv:
  assumes "sys_step gop gupd K N s s'" and inv: "sys_inv n C ginv s"
  shows "sys_inv n C ginv s'"
  using assms(1)
proof cases
  case (complete xs op1 ys now rs)
  then show ?thesis using complete_step(2) [OF inv complete(2,3), of now rs] by simp
next
  case (complete_fault xs op1 ys now e)
  then show ?thesis using complete_step(1) [OF inv complete_fault(2,3), of now e] by (simp add: sys_inv_def)
next
  case (poll now r rs ws)
  then show ?thesis using poll_step(2) [OF inv poll(2), of now r rs ws] by simp
next
  case (poll_fault now r e)
  then show ?thesis using poll_step(1) [OF inv poll_fault(2), of now r e] by (simp add: sys_inv_def)
next
  case (work t w w' out v)
  then show ?thesis using work_step [OF inv work(2-5)] by simp
next
  case join
  then show ?thesis using inv by (auto simp: sys_inv_def drained_def)
next
  case (join_fault t w e)
  then show ?thesis by (auto simp: sys_inv_def)
qed

lemma steps_inv:
  "sys_steps gop gupd K N s s' \<Longrightarrow> sys_inv n C ginv s \<Longrightarrow> sys_inv n C ginv s'"
  unfolding sys_steps_def by (induction rule: rtranclp_induct) (auto intro: step_inv)

lemma init_inv:
  assumes "runCases_init N nodes n now g w0 = Inr s" and "ginv g"
  shows "sys_inv n C ginv s"
  using assms accounts_init [OF _ n_pos, of N nodes w0] histories_init [OF n_pos]
  by (auto simp: runCases_init_def sys_inv_def split: prod.splits sum.splits)

lemma reachable_inv:
  assumes "runCases_init N nodes n now g w0 = Inr s0" and "ginv g"
    and "sys_steps gop gupd K N s0 s"
  shows "sys_inv n C ginv s"
  using steps_inv [OF assms(3) init_inv [OF assms(1,2)]] .

end

end
