(* ===== verification/Runner_Liveness.thy ===== *)
theory Runner_Liveness
  imports Runner_Safety
begin

text \<open>
  How a run ends. When the loop has been left and closing a client does not raise, the
  workers can finish and the run is done. When the invocation of some client raised, the
  completion it owes never comes: the loop is never left.
\<close>

section \<open>Statuses along a run\<close>

definition worker_has :: "(int \<times> 'c worker) list \<Rightarrow> int \<Rightarrow> worker_status \<Rightarrow> bool" where
  "worker_has ws t st \<longleftrightarrow> (\<exists>w. map_of ws t = Some w \<and> w_status w = st)"

lemma run_complete_phase:
  "run_complete gupd now op1 rs = Inr rs' \<Longrightarrow> r_phase rs' = r_phase rs"
  by (auto simp: run_complete_def res_simps Let_def split: if_splits prod.splits)

lemma worker_has_put:
  "map_of ws u = Some w \<Longrightarrow>
     worker_has (AList.update u (putOp op1 w) ws) t st \<longleftrightarrow> worker_has ws t st"
  by (auto simp: worker_has_def putOp_def update_conv')

lemma dispatch_status:
  assumes "dispatch gupd op1 gen2 rs ws = Inr (rs', ws')"
  shows "worker_has ws' t st \<longleftrightarrow> worker_has ws t st" and "r_phase rs' = r_phase rs"
  using assms
  by (auto simp: dispatch_def res_simps Let_def worker_has_put split: option.splits)

lemma worker_has_exit:
  "worker_has (map (\<lambda>(t, w). (t, putOp factory_exit w)) ws) t st \<longleftrightarrow> worker_has ws t st"
  by (induction ws) (auto simp: worker_has_def putOp_def)

lemma run_poll_status:
  assumes "run_poll gop gupd now r rs ws = Inr (rs', ws')"
  shows "worker_has ws' t st \<longleftrightarrow> worker_has ws t st"
    and "r_phase rs' = r_phase rs \<or> r_phase rs' = Joining \<and> r_outstanding rs \<le> 0"
proof -
  let ?c0 = "(r_ctx rs)\<lparr>ctx_time := now\<rparr>"
  have "(worker_has ws' t st \<longleftrightarrow> worker_has ws t st) \<and>
    (r_phase rs' = r_phase rs \<or> r_phase rs' = Joining \<and> r_outstanding rs \<le> 0)"
  proof (cases "gop (r_gen rs) ?c0 r")
    case (Inl e)
    then show ?thesis using assms by (simp add: run_poll_def)
  next
    case (Inr y)
    obtain op1 gen2 g' r' where y: "y = ((op1, gen2), g', r')" by (cases y) auto
    let ?rs1 = "rs\<lparr>r_ctx := ?c0, r_gen := g'\<rparr>"
    let ?nil = "op_type op1 = kNil \<or> op_type op1 = kExit"
    have eq: "run_poll gop gupd now r rs ws =
      (if ?nil then
         if r_outstanding rs > 0 then Inr (?rs1\<lparr>r_timeout := kMaxPendingInterval\<rparr>, ws)
         else Inr (?rs1\<lparr>r_phase := Joining\<rparr>, map (\<lambda>(t, w). (t, putOp factory_exit w)) ws)
       else if op_type op1 = kPending then Inr (?rs1\<lparr>r_timeout := kMaxPendingInterval\<rparr>, ws)
       else if now < op_time op1 then
         bind_res (add_i64 (op_time op1) (- now)) (\<lambda>d. Inr (?rs1\<lparr>r_timeout := d div 1000\<rparr>, ws))
       else dispatch gupd op1 gen2 ?rs1 ws)"
      by (simp add: run_poll_def Inr y Let_def)
    show ?thesis
    proof (cases ?nil)
      case True
      then show ?thesis
        using assms eq worker_has_exit [of ws t st] by (cases "r_outstanding rs > 0") auto
    next
      case not_nil: False
      show ?thesis
      proof (cases "op_type op1 = kPending")
        case True
        then show ?thesis using assms eq by auto
      next
        case not_pending: False
        show ?thesis
        proof (cases "now < op_time op1")
          case True
          then show ?thesis using assms eq not_nil not_pending by (auto simp: add_i64_def split: if_splits)
        next
          case False
          then have "dispatch gupd op1 gen2 ?rs1 ws = Inr (rs', ws')"
            using assms eq not_nil not_pending by simp
          from dispatch_status [OF this] show ?thesis by simp
        qed
      qed
    qed
  qed
  then show "worker_has ws' t st \<longleftrightarrow> worker_has ws t st"
    and "r_phase rs' = r_phase rs \<or> r_phase rs' = Joining \<and> r_outstanding rs \<le> 0" by blast+
qed

context runner_system
begin

text \<open>A crashed worker keeps \<open>outstanding\<close> positive.\<close>

lemma crashed_outstanding:
  assumes inv: "sys_inv n C ginv s" and poll: "r_phase (s_run s) = Polling"
    and crash: "worker_has (s_workers s) t (Crashed e)"
  shows "0 < r_outstanding (s_run s)"
proof (rule ccontr)
  assume "\<not> ?thesis"
  then have le: "r_outstanding (s_run s) \<le> 0" by simp
  have acc: "accounts n C (r_ctx (s_run s)) (r_outstanding (s_run s)) (s_workers s)
      (s_completions s)" using inv poll by (simp add: sys_inv_def)
  obtain w where "map_of (s_workers s) t = Some w" "w_status w = Crashed e"
    using crash by (auto simp: worker_has_def)
  then show False using accounts_idle(4) [OF acc le n_pos, of t w] by simp
qed

lemma crash_step:
  assumes step: "sys_step gop gupd K N s s'" and inv: "sys_inv n C ginv s"
    and poll: "r_phase (s_run s) = Polling" and crash: "worker_has (s_workers s) t (Crashed e)"
  shows "worker_has (s_workers s') t (Crashed e) \<and>
    (r_phase (s_run s') = Polling \<or> (\<exists>x \<in> op_faults. r_phase (s_run s') = Aborted x))"
  using step
proof cases
  case (complete xs op1 ys now rs)
  then show ?thesis using run_complete_phase [of gupd now op1 "s_run s" rs] crash poll by simp
next
  case (complete_fault xs op1 ys now e)
  then show ?thesis using complete_step(1) [OF inv poll] crash by fastforce
next
  case (poll now r rs ws)
  then have "worker_has ws t (Crashed e)"
    using run_poll_status(1) [OF poll(3)] crash by simp
  moreover have "r_phase rs = Polling"
    using run_poll_status(2) [OF poll(3)] crashed_outstanding [OF inv poll(2) crash] poll(2) by auto
  ultimately show ?thesis using poll(1) by simp
next
  case (poll_fault now r e)
  then show ?thesis using poll_step(1) [OF inv poll] crash by fastforce
next
  case (work u w w' out v)
  then show ?thesis using crash poll by (auto simp: worker_has_def update_conv')
next
  case join
  then show ?thesis using poll by simp
next
  case join_fault
  then show ?thesis using poll by simp
qed

lemma crash_steps:
  assumes "sys_steps gop gupd K N s s'" and "sys_inv n C ginv s"
    and "r_phase (s_run s) = Polling" and "worker_has (s_workers s) t (Crashed e)"
  shows "worker_has (s_workers s') t (Crashed e) \<and>
    (r_phase (s_run s') = Polling \<or> (\<exists>x \<in> op_faults. r_phase (s_run s') = Aborted x))"
  using assms unfolding sys_steps_def
proof (induction rule: rtranclp_induct)
  case base
  then show ?case by simp
next
  case (step s1 s2)
  then have IH: "worker_has (s_workers s1) t (Crashed e)"
    "r_phase (s_run s1) = Polling \<or> (\<exists>x \<in> op_faults. r_phase (s_run s1) = Aborted x)"
    by auto
  have inv: "sys_inv n C ginv s1"
    using steps_inv [of s s1] step.hyps(1) step.prems(1) by (simp add: sys_steps_def)
  from IH(2) show ?case
  proof
    assume "r_phase (s_run s1) = Polling"
    then show ?thesis using crash_step [OF step.hyps(2) inv _ IH(1)] by blast
  next
    assume "\<exists>x \<in> op_faults. r_phase (s_run s1) = Aborted x"
    then show ?thesis using step.hyps(2) by (auto elim: sys_step.cases)
  qed
qed

text \<open>Every worker step of the joining phase finishes a worker.\<close>

definition running :: "(int \<times> 'x worker) list \<Rightarrow> nat" where
  "running ws = sum_list (map (\<lambda>(t, w). if w_status w = Running then 1 else 0) ws)"

lemma exit_finishes:
  assumes closes: "\<And>c v. \<exists>b c' v'. cl_close K c v = (Inr (b, c'), v')"
    and op: "w_in w = op1 # q" "op_type op1 = kExit"
    and it: "runAsync_iter K N w v = (w', out, v')"
  shows "w_status w' = Finished"
proof -
  have "\<exists>b w2 v2. Worker_close K (w\<lparr>w_in := q\<rparr>) v = (Inr (b, w2), v2)"
  proof (cases "w_kind w = ClientKind \<and> w_client w \<noteq> None")
    case True
    then obtain c where c: "w_client w = Some c" by auto
    obtain b c' v2 where "cl_close K c v = (Inr (b, c'), v2)" using closes by blast
    then show ?thesis
      using c True by (auto simp: Worker_close_def ClientWorker_close_def act_bind_def act_return_def)
  next
    case False
    then show ?thesis
      by (cases "w_kind w") (auto simp: Worker_close_def ClientWorker_close_def act_return_def)
  qed
  then show ?thesis using op it by (auto simp: runAsync_iter_def Let_def)
qed

lemma joining_done:
  assumes closes: "\<And>c v. \<exists>b c' v'. cl_close K c v = (Inr (b, c'), v')"
  shows "sys_inv n C ginv s \<Longrightarrow> r_phase (s_run s) = Joining \<Longrightarrow>
    \<forall>t e. \<not> worker_has (s_workers s) t (Crashed e) \<Longrightarrow>
    \<exists>s'. sys_steps gop gupd K N s s' \<and> r_phase (s_run s') = Done \<and>
      r_history (s_run s') = r_history (s_run s)"
proof (induction "running (s_workers s)" arbitrary: s)
  case 0
  have "w_status w = Finished" if w: "(t, w) \<in> set (s_workers s)" for t w
  proof -
    have "distinct (map fst (s_workers s))" using 0 by (simp add: sys_inv_def drained_def)
    then have "map_of (s_workers s) t = Some w" using w by simp
    moreover have "w_status w \<noteq> Running"
      using 0(1) w unfolding running_def by (force simp: sum_list_eq_0_iff)
    ultimately show ?thesis using 0(4) by (cases "w_status w") (auto simp: worker_has_def)
  qed
  then have "\<forall>(t, w) \<in> set (s_workers s). w_status w = Finished" by auto
  then have "sys_step gop gupd K N s (s\<lparr>s_run := (s_run s)\<lparr>r_phase := Done\<rparr>\<rparr>)"
    using 0(3) by (intro sys_step.join)
  then show ?case
    unfolding sys_steps_def by (intro exI conjI, rule r_into_rtranclp) simp_all
next
  case (Suc k)
  have dr: "drained n C s" using Suc.prems by (simp add: sys_inv_def)
  have "\<exists>(t, w) \<in> set (s_workers s). w_status w = Running"
  proof (rule ccontr)
    assume none: "\<not> ?thesis"
    have "running (s_workers s) = 0"
      unfolding running_def sum_list_eq_0_iff using none by auto
    then show False using Suc.hyps(2) by simp
  qed
  then obtain t w where tw: "(t, w) \<in> set (s_workers s)" "w_status w = Running" by auto
  then have w: "map_of (s_workers s) t = Some w" using dr by (simp add: drained_def)
  obtain w' out v where it: "runAsync_iter K N w (s_world s) = (w', out, v)"
    by (cases "runAsync_iter K N w (s_world s)") auto
  obtain op1 q where op1: "w_in w = op1 # q" "op_type op1 = kExit"
    using dr w tw(2) unfolding drained_def by (cases "w_in w") fastforce+
  have fin: "w_status w' = Finished" by (rule exit_finishes [OF closes op1 it])
  let ?s1 = "s\<lparr>s_workers := AList.update t w' (s_workers s),
    s_completions := s_completions s @ out, s_world := v\<rparr>"
  have step: "sys_step gop gupd K N s ?s1"
    using Suc.prems w tw it by (intro sys_step.work) auto
  have "running (AList.update t w' (s_workers s)) + 1 = running (s_workers s) + 0"
    unfolding running_def
    using sum_list_update_key [OF w, of "\<lambda>w. if w_status w = Running then 1 else 0" w'] fin tw(2)
    by simp
  then have k: "k = running (s_workers ?s1)" using Suc.hyps(2) by simp
  have "\<forall>t e. \<not> worker_has (s_workers ?s1) t (Crashed e)"
    using Suc.prems(3) fin by (auto simp: worker_has_def update_conv')
  then obtain s' where "sys_steps gop gupd K N ?s1 s'" "r_phase (s_run s') = Done"
    "r_history (s_run s') = r_history (s_run ?s1)"
    using Suc.hyps(1) [OF k step_inv [OF step Suc.prems(1)]] Suc.prems(2) by auto
  then show ?case
    using step unfolding sys_steps_def by (auto intro: converse_rtranclp_into_rtranclp)
qed

end

text \<open>Every generator, client and nemesis that keep their contracts make such a system.\<close>

lemma runner_systemI:
  "client_contract K C \<Longrightarrow> client_contract N D \<Longrightarrow> 0 < n \<Longrightarrow>
     runner_system (gen_op d) gen_update good_gen K C N D n"
  by (intro runner_system.intro runner_system_axioms.intro scheduling.generator_iface_axioms)

interpretation noop_system:
  runner_system "gen_op d" gen_update good_gen "NoopClient c0" "{kInvoke}" "NoopNemesis c0"
    "{kSuccess}" "int (Suc m)" for d m and c0 :: 'c
  by (intro runner_systemI noop_client.client_contract_axioms
      noop_nemesis.client_contract_axioms) simp

end
