(* ===== verification/Runner_Properties.thy ===== *)
theory Runner_Properties
  imports Runner_Liveness
begin

text \<open>
  The properties of \<open>Runner::runCases\<close>, for every generator of schedulable operations, every
  registered client and nemesis that keep their contract, every number of threads, every
  clock and every interleaving.
\<close>

section \<open>Runs\<close>

definition run_reaches ::
  "nat \<Rightarrow> ('c, 'w) client_class \<Rightarrow> ('c, 'w) client_class \<Rightarrow> string list \<Rightarrow> int \<Rightarrow> gen_ptr
     \<Rightarrow> ('c, 'w) sys \<Rightarrow> bool" where
  "run_reaches d K N nodes n g s \<longleftrightarrow>
     (\<exists>now w0 s0. runCases_init N nodes n now (setGenerator g) w0 = Inr s0 \<and>
        sys_steps (gen_op d) gen_update K N s0 s)"

lemma good_gen_set: "good_gen g \<Longrightarrow> g \<noteq> None \<Longrightarrow> good_gen (setGenerator g)"
  by (auto simp: good_gen_def setGenerator_def createValidate_def)

lemma run_inv:
  assumes "client_contract K C" "client_contract N D" "0 < n" "good_gen g" "g \<noteq> None"
    and "run_reaches d K N nodes n g s"
  shows "sys_inv n C good_gen s"
  using assms(6) runner_system.reachable_inv [OF runner_systemI [OF assms(1-3)]]
    good_gen_set [OF assms(4,5)]
  unfolding run_reaches_def by blast

lemma run_reaches_step:
  "run_reaches d K N nodes n g s \<Longrightarrow> sys_steps (gen_op d) gen_update K N s s' \<Longrightarrow>
     run_reaches d K N nodes n g s'"
  unfolding run_reaches_def sys_steps_def by (meson rtranclp_trans)

lemma current_process:
  assumes "ctx_inv n c" and "0 < n"
  obtains p where "map_of (workers c) (q mod n) = Some p" and "0 \<le> p"
proof -
  have "q mod n \<in> set (map fst (workers c))"
    using assms by (auto simp: ctx_inv_def simp del: set_map)
  then obtain p where p: "map_of (workers c) (q mod n) = Some p" by (metis dom_map_of_keys domD)
  have "0 \<le> q mod n" using assms(2) by simp
  then have "0 \<le> p" using ctx_inv_worker_range [OF assms(1) p] by auto
  with p that show thesis by blast
qed

lemma drained_closed:
  assumes dr: "drained n C s" and n: "0 < n" and q: "0 \<le> q"
  shows "open_after C False (proc_ops q (r_history (s_run s))) = Some False"
proof -
  have inv: "ctx_inv n (r_ctx (s_run s))"
    and ok: "proc_ok n C (r_ctx (s_run s)) (r_history (s_run s)) q"
    and free: "{0..<n} \<subseteq> set (free_threads (r_ctx (s_run s)))"
    using dr q by (auto simp: drained_def histories_def)
  obtain p where p: "map_of (workers (r_ctx (s_run s))) (q mod n) = Some p"
    using inv n by (rule current_process)
  have "q mod n \<in> {0..<n}" using n by simp
  then have "q mod n \<in> set (free_threads (r_ctx (s_run s)))" using free by blast
  then show ?thesis
    using ok p by (cases q p rule: linorder_cases) (auto simp: proc_ok_def retired_def)
qed

section \<open>A run to evaluate\<close>

text \<open>One client thread, one operation; the schedule is a complete run.\<close>

definition demo_gen :: gen_ptr where
  "demo_gen = createGenerator_op (Operation_of ''read'' nullValue kInit)"

definition demo_start :: "('c, unit) client_class \<Rightarrow> ('c, unit) client_class \<Rightarrow> ('c, unit) sys" where
  "demo_start K N =
     \<lparr>s_run = \<lparr>r_ctx = init_ctx 0 1, r_gen = setGenerator demo_gen, r_outstanding = 0,
               r_timeout = 0, r_history = [], r_phase = Polling\<rparr>,
      s_workers = [(0, ClientWorker 0 ''n1''), (- 1,
        case fst (NemesisWorker N (- 1) ()) of Inr w \<Rightarrow> w | Inl e \<Rightarrow> ClientWorker 0 [])],
      s_completions = [], s_world = ()\<rparr>"

definition demo_run ::
  "('c, unit) client_class \<Rightarrow> ('c, unit) client_class \<Rightarrow> action list \<Rightarrow> ('c, unit) sys option" where
  "demo_run K N as = sys_execs (gen_op 5) gen_update K N as (demo_start K N)"

definition demo_actions :: "action list" where
  "demo_actions = [Ask 5 [1], Work 0, Take 0 7, Ask 8 []]"

lemma demo_good: "good_gen demo_gen" "demo_gen \<noteq> None"
  by (simp_all add: demo_gen_def good_gen_def createGenerator_op_def schedulable_def
      Operation_of_def)

lemma demo_reaches:
  assumes "demo_run K (NoopNemesis c0) as = Some s"
  shows "run_reaches 5 K (NoopNemesis c0) [''n1''] 1 demo_gen s"
proof -
  have "runCases_init (NoopNemesis c0) [''n1''] 1 0 (setGenerator demo_gen) () =
      Inr (demo_start K (NoopNemesis c0))"
    by (simp add: runCases_init_def init_workers_def act_bind_def NemesisWorker_def
        NoopNemesis_def act_return_def demo_start_def)
  moreover have "sys_steps (gen_op 5) gen_update K (NoopNemesis c0) (demo_start K (NoopNemesis c0)) s"
    using assms unfolding demo_run_def by (rule sys_execs_steps)
  ultimately show ?thesis unfolding run_reaches_def by blast
qed

lemma demo_joining:
  "(case demo_run (NoopClient ()) (NoopNemesis ()) demo_actions of
      Some s \<Rightarrow> r_phase (s_run s) = Joining \<and> length (proc_ops 0 (r_history (s_run s))) = 2 \<and>
        list_all (\<lambda>(t, w). w_status w = Running) (s_workers s)
    | None \<Rightarrow> False)"
  by code_simp

lemma demo_state:
  obtains s :: "(unit, unit) sys" where "run_reaches 5 (NoopClient ()) (NoopNemesis ()) [''n1''] 1 demo_gen s"
    and "r_phase (s_run s) = Joining" and "length (proc_ops 0 (r_history (s_run s))) = 2"
    and "list_all (\<lambda>(t, w). w_status w = Running) (s_workers s)"
proof (cases "demo_run (NoopClient ()) (NoopNemesis ()) demo_actions")
  case None
  then show thesis using demo_joining by simp
next
  case (Some s)
  then show thesis using that [OF demo_reaches [OF Some]] demo_joining by simp
qed

text \<open>A client whose \<open>invoke\<close> raises.\<close>

definition RaisingClient :: "(unit, 'w) client_class" where
  "RaisingClient = (NoopClient ())\<lparr>cl_invoke := \<lambda>op c. act_raise LogicError\<rparr>"

lemma raising_contract: "client_contract RaisingClient {}"
  by unfold_locales (auto simp: RaisingClient_def res_simps)

lemma demo_crashing:
  "(case demo_run RaisingClient (NoopNemesis ()) [Ask 5 [1], Work 0] of
      Some s \<Rightarrow> r_phase (s_run s) = Polling \<and>
        map_option w_status (map_of (s_workers s) 0) = Some (Crashed LogicError)
    | None \<Rightarrow> False)"
  by code_simp

lemma demo_crash_state:
  obtains s :: "(unit, unit) sys" where "run_reaches 5 RaisingClient (NoopNemesis ()) [''n1''] 1 demo_gen s"
    and "r_phase (s_run s) = Polling" and "worker_has (s_workers s) 0 (Crashed LogicError)"
proof (cases "demo_run RaisingClient (NoopNemesis ()) [Ask 5 [1], Work 0]")
  case None
  then show thesis using demo_crashing by simp
next
  case (Some s)
  then show thesis
    using that [OF demo_reaches [OF Some]] demo_crashing by (auto simp: worker_has_def)
qed

lemmas noop_contracts =
  noop_client.client_contract_axioms [of "()"] noop_nemesis.client_contract_axioms [of "()"]

section \<open>Properties\<close>

text \<open>
  When the loop of \<open>runCases\<close> has been left, the history of every client process is a
  sequence of pairs, an invocation and then its completion: no invocation that was dispatched
  is missing its completion from the saved history.
\<close>

theorem run_history_complete:
  assumes "client_contract K C" and "client_contract N D" and "0 < n"
    and "good_gen g" and "g \<noteq> None" and "run_reaches d K N nodes n g s"
    and "r_phase (s_run s) \<in> {Joining, Done}" and "0 \<le> q"
  shows "open_after C False (proc_ops q (r_history (s_run s))) = Some False"
  using run_inv [OF assms(1-6)] assms(7) drained_closed [OF _ assms(3,8), of C s]
  by (auto simp: sys_inv_def)

theorem run_history_complete_witness:
  "\<exists>s :: (unit, unit) sys.
     length (proc_ops 0 (r_history (s_run s))) = 2 \<and>
     open_after {kInvoke} False (proc_ops 0 (r_history (s_run s))) = Some False"
proof (rule demo_state)
  fix s :: "(unit, unit) sys"
  assume s: "run_reaches 5 (NoopClient ()) (NoopNemesis ()) [''n1''] 1 demo_gen s"
    "r_phase (s_run s) = Joining" "length (proc_ops 0 (r_history (s_run s))) = 2"
  show ?thesis
    using run_history_complete [OF noop_contracts _ demo_good s(1), of 0] s(2,3) by auto
qed

text \<open>
  C2. While the loop runs, the operations of every client process (one that is not negative) take
  turns: an invocation is only dispatched when the one before has completed, and the last one is
  open exactly when the process is the one its thread runs now and the thread is not free. This
  holds for clients and a nemesis that leave the process of an operation alone, and schedulable
  operations. The nemesis itself may have several operations under way.
\<close>

theorem run_history_turns:
  assumes "client_contract K C" and "client_contract N D" and "0 < n"
    and "good_gen g" and "g \<noteq> None" and "run_reaches d K N nodes n g s"
    and "r_phase (s_run s) = Polling" and "0 \<le> q"
  shows "open_after C False (proc_ops q (r_history (s_run s))) =
    Some (map_of (workers (r_ctx (s_run s))) (q mod n) = Some q \<and>
          q mod n \<notin> set (free_threads (r_ctx (s_run s))))"
proof -
  let ?c = "r_ctx (s_run s)"
  have acc: "accounts n C ?c (r_outstanding (s_run s)) (s_workers s) (s_completions s)"
    and ok: "proc_ok n C ?c (r_history (s_run s)) q"
    using run_inv [OF assms(1-6)] assms(7,8) by (auto simp: sys_inv_def histories_def)
  obtain p where p: "map_of (workers ?c) (q mod n) = Some p"
    using accountsD(1) [OF acc] assms(3) by (rule current_process)
  then show ?thesis
    using ok by (cases q p rule: linorder_cases) (auto simp: proc_ok_def retired_def)
qed

theorem run_history_turns_witness:
  "\<exists>s :: (unit, unit) sys. r_phase (s_run s) = Polling \<and>
     open_after {} False (proc_ops 0 (r_history (s_run s))) =
       Some (map_of (workers (r_ctx (s_run s))) (0 mod 1) = Some 0 \<and>
          0 mod 1 \<notin> set (free_threads (r_ctx (s_run s))))"
proof (rule demo_crash_state)
  fix s :: "(unit, unit) sys"
  assume s: "run_reaches 5 RaisingClient (NoopNemesis ()) [''n1''] 1 demo_gen s"
    "r_phase (s_run s) = Polling"
  show ?thesis
    using run_history_turns [OF raising_contract noop_contracts(2) _ demo_good s, of 0] s(2) by auto
qed

text \<open>
  C11. A client process whose operation ended indeterminately (\<open>:info\<close>) is never used again:
  in every history the loop builds, such an operation is the last one of its process.
\<close>

theorem run_info_is_last:
  assumes "client_contract K C" and "client_contract N D" and "0 < n"
    and "good_gen g" and "g \<noteq> None" and "run_reaches d K N nodes n g s"
    and "r_phase (s_run s) \<in> {Polling, Joining, Done}" and "0 \<le> q"
    and "i < length (proc_ops q (r_history (s_run s)))"
    and "op_type (proc_ops q (r_history (s_run s)) ! i) = kInfo"
  shows "Suc i = length (proc_ops q (r_history (s_run s)))"
proof -
  let ?c = "r_ctx (s_run s)" and ?h = "proc_ops q (r_history (s_run s))"
  have inv: "ctx_inv n ?c" and ok: "proc_ok n C ?c (r_history (s_run s)) q"
    using run_inv [OF assms(1-6)] assms(7,8)
    by (auto simp: sys_inv_def histories_def drained_def dest: accountsD(1))
  obtain p where p: "map_of (workers ?c) (q mod n) = Some p"
    using inv assms(3) by (rule current_process)
  have "?h ! i \<in> set ?h" using assms(9) by simp
  then have ret: "retired C ?h"
    using ok p assms(10) by (cases q p rule: linorder_cases) (auto simp: proc_ok_def)
  show ?thesis
  proof (rule ccontr)
    assume "\<not> ?thesis"
    then have "i < length (butlast ?h)" using assms(9) by simp
    then have "?h ! i \<in> set (butlast ?h)" by (metis nth_butlast nth_mem)
    then show False using ret assms(10) by (auto simp: retired_def)
  qed
qed

text \<open>A client that does not know how its operations ended.\<close>

definition UnsureClient :: "(unit, 'w) client_class" where
  "UnsureClient =
     (NoopClient ())\<lparr>cl_invoke := \<lambda>op c. act_return (True, op\<lparr>op_type := kInfo\<rparr>, c)\<rparr>"

lemma unsure_contract: "client_contract UnsureClient {kInfo}"
  by unfold_locales (auto simp: UnsureClient_def res_simps)

lemma demo_unsure:
  "(case demo_run UnsureClient (NoopNemesis ()) demo_actions of
      Some s \<Rightarrow> r_phase (s_run s) = Joining \<and>
        map op_type (proc_ops 0 (r_history (s_run s))) = [kInvoke, kInfo]
    | None \<Rightarrow> False)"
  by code_simp

theorem run_info_is_last_witness:
  "\<exists>s :: (unit, unit) sys. Suc 1 = length (proc_ops 0 (r_history (s_run s)))"
proof (cases "demo_run UnsureClient (NoopNemesis ()) demo_actions")
  case None
  then show ?thesis using demo_unsure by simp
next
  case (Some s)
  then have s: "r_phase (s_run s) = Joining"
    "map op_type (proc_ops 0 (r_history (s_run s))) = [kInvoke, kInfo]"
    using demo_unsure by simp_all
  then have "1 < length (proc_ops 0 (r_history (s_run s)))"
    "op_type (proc_ops 0 (r_history (s_run s)) ! 1) = kInfo"
    by (auto dest: arg_cong [of _ _ length] arg_cong [of _ _ "\<lambda>xs. xs ! 1"])
  then show ?thesis
    using run_info_is_last [OF unsure_contract noop_contracts(2) _ demo_good
        demo_reaches [OF Some], of 0 1] s(1) by auto
qed

text \<open>
  C12. The only faults that end a run are those of the generator (call depth, a remainder by
  zero, a signed overflow), the overflow of a process number or of the counter, and an
  exception a worker's thread ended with: the loop never dereferences a null worker, never
  looks up a thread that has no process.
\<close>

theorem run_faults:
  assumes "client_contract K C" and "client_contract N D" and "0 < n"
    and "good_gen g" and "g \<noteq> None" and "run_reaches d K N nodes n g s"
    and "r_phase (s_run s) = Aborted e"
  shows "e \<in> {StackOverflow, DivByZero, SignedOverflow} \<or>
    (\<exists>(t, w) \<in> set (s_workers s). w_status w = Crashed e)"
  using run_inv [OF assms(1-6)] assms(7) by (auto simp: sys_inv_def op_faults_def)

text \<open>With a call depth of 1 the wrapped generator cannot be asked.\<close>

lemma demo_shallow:
  "(case sys_execs (gen_op 1) gen_update (NoopClient ()) (NoopNemesis ()) [Ask 5 [1]]
          (demo_start (NoopClient ()) (NoopNemesis ())) of
      Some s \<Rightarrow> r_phase (s_run s) = Aborted StackOverflow
    | None \<Rightarrow> False)"
  by code_simp

theorem run_faults_witness:
  "\<exists>s :: (unit, unit) sys. r_phase (s_run s) = Aborted StackOverflow \<and>
     (StackOverflow \<in> {StackOverflow, DivByZero, SignedOverflow} \<or>
      (\<exists>(t, w) \<in> set (s_workers s). w_status w = Crashed StackOverflow))"
proof (cases "sys_execs (gen_op 1) gen_update (NoopClient ()) (NoopNemesis ()) [Ask 5 [1]]
          (demo_start (NoopClient ()) (NoopNemesis ()))")
  case None
  then show ?thesis using demo_shallow by simp
next
  case (Some s)
  have "runCases_init (NoopNemesis ()) [''n1''] 1 0 (setGenerator demo_gen) () =
      Inr (demo_start (NoopClient ()) (NoopNemesis ()))"
    by (simp add: runCases_init_def init_workers_def act_bind_def NemesisWorker_def
        NoopNemesis_def act_return_def demo_start_def)
  then have "run_reaches 1 (NoopClient ()) (NoopNemesis ()) [''n1''] 1 demo_gen s"
    using sys_execs_steps [OF Some] unfolding run_reaches_def by blast
  moreover have phase: "r_phase (s_run s) = Aborted StackOverflow"
    using demo_shallow Some by simp
  ultimately have "StackOverflow \<in> {StackOverflow, DivByZero, SignedOverflow} \<or>
      (\<exists>(t, w) \<in> set (s_workers s). w_status w = Crashed StackOverflow)"
    by (rule run_faults [OF noop_contracts _ demo_good, rotated]) simp
  then show ?thesis using phase by blast
qed

text \<open>
  C4. While the loop runs, \<open>outstanding\<close> is exactly the number of operations under way: in
  the input queue of a worker, in the completion queue, or lost in a worker whose client
  raised.
\<close>

theorem run_outstanding:
  assumes "client_contract K C" and "client_contract N D" and "0 < n"
    and "good_gen g" and "g \<noteq> None" and "run_reaches d K N nodes n g s"
    and "r_phase (s_run s) = Polling"
  shows "r_outstanding (s_run s) =
    int (sum_list (map (\<lambda>(t, w). length (w_in w) + (if w_status w = Running then 0 else 1))
           (s_workers s)) + length (s_completions s))"
  using run_inv [OF assms(1-6)] assms(7)
  by (auto simp: sys_inv_def load_def dest: accountsD(7))

theorem run_outstanding_witness:
  "\<exists>s :: (unit, unit) sys. worker_has (s_workers s) 0 (Crashed LogicError) \<and>
     r_outstanding (s_run s) =
       int (sum_list (map (\<lambda>(t, w). length (w_in w) + (if w_status w = Running then 0 else 1))
              (s_workers s)) + length (s_completions s))"
proof (rule demo_crash_state)
  fix s :: "(unit, unit) sys"
  assume s: "run_reaches 5 RaisingClient (NoopNemesis ()) [''n1''] 1 demo_gen s"
    "r_phase (s_run s) = Polling" "worker_has (s_workers s) 0 (Crashed LogicError)"
  show ?thesis
    using run_outstanding [OF raising_contract noop_contracts(2) _ demo_good s(1,2)] s(3) by auto
qed

text \<open>
  C3. A client thread has at most one operation under way, and none when it is free; what
  its worker is to run is an invocation for the process the thread runs now, so that process
  \<open>q\<close> is always served by thread \<open>q mod n\<close>.
\<close>

theorem run_one_operation_per_thread:
  assumes "client_contract K C" and "client_contract N D" and "0 < n"
    and "good_gen g" and "g \<noteq> None" and "run_reaches d K N nodes n g s"
    and "r_phase (s_run s) = Polling" and "map_of (s_workers s) t = Some w" and "0 \<le> t"
  shows "length (w_in w) \<le> (if t \<in> set (free_threads (r_ctx (s_run s))) then 0 else 1) \<and>
    (\<forall>o1 \<in> set (w_in w). op_type o1 = kInvoke \<and> op_process o1 mod n = t \<and>
      processToThread (r_ctx (s_run s)) (op_process o1) = t)"
proof -
  let ?c = "r_ctx (s_run s)"
  have acc: "accounts n C ?c (r_outstanding (s_run s)) (s_workers s) (s_completions s)"
    using run_inv [OF assms(1-6)] assms(7) by (simp add: sys_inv_def)
  note A = accountsD [OF acc]
  have "t \<in> set (map fst (s_workers s))" using assms(8) by (metis dom_map_of_keys domI)
  then have "t \<in> {0..<n}" unfolding A(3) using assms(9) by auto
  then obtain p where p: "map_of (workers ?c) t = Some p"
    using current_process [OF A(1) assms(3), of t] by auto
  then have "length (w_in w) \<le> (if t \<in> set (free_threads ?c) then 0 else 1)"
    using A(5) [OF assms(8)] assms(9)
    by (auto simp: thread_ok_def load_def split: if_splits)
  moreover have "\<forall>o1 \<in> set (w_in w). op_type o1 = kInvoke \<and> op_process o1 mod n = t \<and>
      processToThread ?c (op_process o1) = t"
    using A(4) [OF assms(8)] assms(9) ctx_inv_worker_range [OF A(1)]
      processToThread_inverse [OF ctx_inv_wf [OF A(1)]]
    by (fastforce simp: worker_ok_def)
  ultimately show ?thesis by blast
qed

lemma demo_dispatched:
  "(case demo_run (NoopClient ()) (NoopNemesis ()) [Ask 5 [1]] of
      Some s \<Rightarrow> r_phase (s_run s) = Polling \<and>
        map_option (\<lambda>w. length (w_in w)) (map_of (s_workers s) 0) = Some 1
    | None \<Rightarrow> False)"
  by code_simp

theorem run_one_operation_per_thread_witness:
  "\<exists>(s :: (unit, unit) sys) w. map_of (s_workers s) 0 = Some w \<and> length (w_in w) = 1 \<and>
     length (w_in w) \<le> (if 0 \<in> set (free_threads (r_ctx (s_run s))) then 0 else 1)"
proof (cases "demo_run (NoopClient ()) (NoopNemesis ()) [Ask 5 [1]]")
  case None
  then show ?thesis using demo_dispatched by simp
next
  case (Some s)
  then obtain w where w: "map_of (s_workers s) 0 = Some w" "length (w_in w) = 1"
    "r_phase (s_run s) = Polling"
    using demo_dispatched by auto
  have "length (w_in w) \<le> (if 0 \<in> set (free_threads (r_ctx (s_run s))) then 0 else 1)"
    using run_one_operation_per_thread [OF noop_contracts _ demo_good demo_reaches [OF Some]
        w(3,1)] by simp
  then show ?thesis using w by blast
qed

text \<open>
  C14. An exception in a client's \<open>invoke\<close> hangs the run. The worker's thread ends with the
  exception in its future, the completion it owes is never enqueued, \<open>outstanding\<close> stays
  positive, and the loop goes on polling for ever: no continuation of such a run reaches the
  end of \<open>runCases\<close>, and no history is saved.
\<close>

theorem run_crash_never_ends:
  assumes "client_contract K C" and "client_contract N D" and "0 < n"
    and "good_gen g" and "g \<noteq> None" and "run_reaches d K N nodes n g s"
    and "r_phase (s_run s) = Polling" and "worker_has (s_workers s) t (Crashed e)"
    and "sys_steps (gen_op d) gen_update K N s s'"
  shows "r_phase (s_run s') \<noteq> Joining \<and> r_phase (s_run s') \<noteq> Done"
  using runner_system.crash_steps [OF runner_systemI [OF assms(1-3)] assms(9)
      run_inv [OF assms(1-6)] assms(7,8)] by auto

theorem run_crash_never_ends_witness:
  "\<exists>s :: (unit, unit) sys. worker_has (s_workers s) 0 (Crashed LogicError) \<and>
     r_phase (s_run s) \<noteq> Joining"
proof (rule demo_crash_state)
  fix s :: "(unit, unit) sys"
  assume s: "run_reaches 5 RaisingClient (NoopNemesis ()) [''n1''] 1 demo_gen s"
    "r_phase (s_run s) = Polling" "worker_has (s_workers s) 0 (Crashed LogicError)"
  have "sys_steps (gen_op 5) gen_update RaisingClient (NoopNemesis ()) s s"
    by (simp add: sys_steps_def)
  then show ?thesis
    using run_crash_never_ends [OF raising_contract noop_contracts(2) _ demo_good s] s(3) by auto
qed

text \<open>
  C13. Once the loop has been left, and provided closing a client does not raise, the run can
  always be finished: every worker takes its exit operation and ends, the loop joins them
  all, and the history is what it was.
\<close>

theorem run_joins:
  assumes "client_contract K C" and "client_contract N D" and "0 < n"
    and "good_gen g" and "g \<noteq> None" and "run_reaches d K N nodes n g s"
    and "r_phase (s_run s) = Joining" and "\<forall>t e. \<not> worker_has (s_workers s) t (Crashed e)"
    and "\<And>c v. \<exists>b c' v'. cl_close K c v = (Inr (b, c'), v')"
  shows "\<exists>s'. sys_steps (gen_op d) gen_update K N s s' \<and> r_phase (s_run s') = Done \<and>
    r_history (s_run s') = r_history (s_run s)"
  by (rule runner_system.joining_done [OF runner_systemI [OF assms(1-3)] assms(9)
        run_inv [OF assms(1-6)] assms(7,8)])

theorem run_joins_witness:
  "\<exists>s s' :: (unit, unit) sys. r_phase (s_run s) = Joining \<and>
     sys_steps (gen_op 5) gen_update (NoopClient ()) (NoopNemesis ()) s s' \<and>
     r_phase (s_run s') = Done \<and> r_history (s_run s') = r_history (s_run s)"
proof (rule demo_state)
  fix s :: "(unit, unit) sys"
  assume s: "run_reaches 5 (NoopClient ()) (NoopNemesis ()) [''n1''] 1 demo_gen s"
    "r_phase (s_run s) = Joining" "list_all (\<lambda>(t, w). w_status w = Running) (s_workers s)"
  have fine: "\<forall>t e. \<not> worker_has (s_workers s) t (Crashed e)"
    using s(3) by (fastforce simp: worker_has_def list_all_iff dest!: map_of_SomeD)
  have closes: "\<exists>b c' v'. cl_close (NoopClient ()) c v = (Inr (b, c'), v')" for c v :: unit
    by (auto simp: NoopClient_def act_return_def)
  have "\<exists>s'. sys_steps (gen_op 5) gen_update (NoopClient ()) (NoopNemesis ()) s s' \<and>
      r_phase (s_run s') = Done \<and> r_history (s_run s') = r_history (s_run s)"
    by (rule run_joins [OF noop_contracts _ demo_good s(1,2) fine closes]) simp
  then show ?thesis using s(2) by blast
qed

end
