(* ===== verification/Lifecycle_Properties.thy ===== *)
theory Lifecycle_Properties
  imports Lifecycle_Phases Runner_Properties
begin

text \<open>
  Properties of a whole test: the order of its phases, what every client goes through, what a
  failure leaves behind, and the histories of a run that returns.
\<close>

section \<open>The phases of a run\<close>

lemma run_phases:
  assumes "Runner_run O1 D gop gupd K N sd r = (Inr (), r9)"
  obtains r1 r2 r3 r4 r5 r6 r7 r8 where "setupOS O1 (sd_os_up sd) r = (Inr (), r1)"
    and "teardownDB D (sd_db_clean sd) r1 = (Inr (), r2)"
    and "setupDB D (sd_db_up sd) r2 = (Inr (), r3)"
    and "r4 = r3\<lparr>rn_relative_time := sd_start sd\<rparr>"
    and "setupClientNemesis K N (sd_early sd) (sd_create sd) (sd_clients_up sd) r4 = (Inr (), r5)"
    and "runCases gop gupd K N (sd_now sd) (sd_actions sd) r5 = (Inr (), r6)"
    and "teardownClientNemesis K N (sd_clients_down sd) r6 = (Inr (), r7)"
    and "finishDB D (sd_db_down sd) r7 = (Inr (), r8)"
    and "teardownOS O1 (sd_os_down sd) r8 = (Inr (), r9)"
  using assms unfolding Runner_run_def act_bind_eq_Inr by auto

definition db_end_events :: "bool \<Rightarrow> string list \<Rightarrow> event multiset" where
  "db_end_events leave nodes = (if leave then {#} else mset (map DbTeardown nodes))"

lemma finishDB_recorded:
  assumes "finishDB (recorded_db D) is r = (Inr (), r')"
  shows "\<exists>es. client_parts r' = client_parts r \<and> run_log r' = run_log r @ es \<and>
    mset es = db_end_events (rn_leave_db_running r) (rn_nodes r)"
  using assms teardownDB_recorded [of D "is" r r']
  by (auto simp: finishDB_def db_end_events_def split: if_splits intro: exI [of _ "[]"])

section \<open>A test to evaluate\<close>

definition QuietDB :: "(unit, 'w) db_class" where
  "QuietDB =
     \<lparr>db_initRemotes = (\<lambda>m db. db), db_setup = (\<lambda>node db. act_return (True, db)),
      db_teardown = (\<lambda>node db. act_return (True, db)), db_primary = None\<rparr>"

definition demo_runner :: "'w \<Rightarrow> (remotes, unit, 'c, 'w) runner" where
  "demo_runner w =
     \<lparr>rn_nodes = [''n1'', ''n2''], rn_concurrency = 1,
      rn_ssh = \<lparr>si_username = [], si_password = [], si_sudo_password = [], si_port = 22,
                si_private_key_path = [], si_strict_host_key_checking = False\<rparr>,
      rn_leave_db_running = False, rn_os = Some [(''n1'', Some 0), (''n2'', Some 1)], rn_db = Some (),
      rn_generator = setGenerator demo_gen, rn_history = [],
      rn_remotes = [(''n1'', Some 0), (''n2'', Some 1)], rn_relative_time = 0, rn_nemesis = None,
      rn_nf = None, rn_clients = [], rn_indexs = [], rn_world = w\<rparr>"

definition demo_schedule :: schedule where
  "demo_schedule =
     \<lparr>sd_os_up = [1], sd_db_clean = [], sd_db_up = [1, 0], sd_start = 0, sd_early = False,
      sd_create = [], sd_clients_up = [2, 1, 0], sd_now = 0,
      sd_actions = demo_actions @ [Work 0, Work (- 1), JoinAll], sd_clients_down = [1, 2],
      sd_db_down = [], sd_os_down = []\<rparr>"

definition demo_test ::
  "unit res \<times> (remotes, unit, nat \<times> unit, unit recorded) runner" where
  "demo_test = Runner_run (recorded_os Ubuntu) (recorded_db QuietDB) (gen_op 5) gen_update
     (numbered (NoopClient ())) (numbered (NoopNemesis ())) demo_schedule (demo_runner ((), 0, []))"

lemma demo_test_returns: "fst demo_test = Inr ()"
  by code_simp

lemma demo_test_run:
  "Runner_run (recorded_os Ubuntu) (recorded_db QuietDB) (gen_op 5) gen_update
     (numbered (NoopClient ())) (numbered (NoopNemesis ())) demo_schedule (demo_runner ((), 0, []))
   = (Inr (), snd demo_test)"
  using demo_test_returns unfolding demo_test_def by (metis prod.collapse)

section \<open>Properties\<close>

text \<open>
  C15. The order of a test: when \<open>Runner::run\<close> returns, whatever the interleaving of its parallel
  loops, the calls it has made are, one after the other, one \<open>os->setup\<close> per node, one \<open>db->teardown\<close>
  per node, one \<open>db->setup\<close> per node, the set up of the primaries, everything the clients and the
  nemesis do, one \<open>db->teardown\<close> per node unless the database is left running, and one \<open>os->teardown\<close>
  per node.
\<close>

theorem run_order:
  assumes "Runner_run (recorded_os O1) (recorded_db D) gop gupd (numbered K) (numbered N) sd r
    = (Inr (), r')"
  shows "\<exists>os_up db_clean db_up primaries clients db_end os_down.
    run_log r' = run_log r @ os_up @ db_clean @ db_up @ map DbPrimary primaries @ clients @ db_end
      @ os_down \<and>
    mset os_up = mset (map OsSetup (rn_nodes r)) \<and>
    mset db_clean = mset (map DbTeardown (rn_nodes r)) \<and>
    mset db_up = mset (map DbSetup (rn_nodes r)) \<and>
    list_all is_client_event clients \<and>
    mset db_end = db_end_events (rn_leave_db_running r) (rn_nodes r) \<and>
    mset os_down = mset (map OsTeardown (rn_nodes r))"
proof -
  obtain r1 r2 r3 r4 r5 r6 r7 r8 where run:
    "setupOS (recorded_os O1) (sd_os_up sd) r = (Inr (), r1)"
    "teardownDB (recorded_db D) (sd_db_clean sd) r1 = (Inr (), r2)"
    "setupDB (recorded_db D) (sd_db_up sd) r2 = (Inr (), r3)"
    "r4 = r3\<lparr>rn_relative_time := sd_start sd\<rparr>"
    "setupClientNemesis (numbered K) (numbered N) (sd_early sd) (sd_create sd) (sd_clients_up sd) r4
      = (Inr (), r5)"
    "runCases gop gupd (numbered K) (numbered N) (sd_now sd) (sd_actions sd) r5 = (Inr (), r6)"
    "teardownClientNemesis (numbered K) (numbered N) (sd_clients_down sd) r6 = (Inr (), r7)"
    "finishDB (recorded_db D) (sd_db_down sd) r7 = (Inr (), r8)"
    "teardownOS (recorded_os O1) (sd_os_down sd) r8 = (Inr (), r')"
    using assms by (rule run_phases)
  obtain a where a: "client_parts r1 = client_parts r" "run_log r1 = run_log r @ a"
    "mset a = mset (map OsSetup (rn_nodes r))"
    using setupOS_recorded [OF run(1)] by blast
  obtain b where b: "client_parts r2 = client_parts r1" "run_log r2 = run_log r1 @ b"
    "mset b = mset (map DbTeardown (rn_nodes r1))"
    using teardownDB_recorded [OF run(2)] by blast
  obtain c ps where c: "client_parts r3 = client_parts r2" "run_log r3 = run_log r2 @ c @ map DbPrimary ps"
    "mset c = mset (map DbSetup (rn_nodes r2))"
    using setupDB_recorded [OF run(3)] by blast
  have "client_phase r4 r7"
    using setupClientNemesis_phase [OF run(5)] runCases_phase [OF run(6)]
      teardownClientNemesis_phase [OF run(7)]
    by (blast intro: client_phase_trans)
  then obtain cl where cl: "settings r7 = settings r4" "run_log r7 = run_log r4 @ cl"
    "list_all is_client_event cl"
    unfolding client_phase_def by blast
  obtain t where t: "client_parts r8 = client_parts r7" "run_log r8 = run_log r7 @ t"
    "mset t = db_end_events (rn_leave_db_running r7) (rn_nodes r7)"
    using finishDB_recorded [OF run(8)] by blast
  obtain d where d: "run_log r' = run_log r8 @ d" "mset d = mset (map OsTeardown (rn_nodes r8))"
    using teardownOS_recorded [OF run(9)] by blast
  have nodes: "rn_nodes r1 = rn_nodes r" "rn_nodes r2 = rn_nodes r" "rn_nodes r7 = rn_nodes r"
    "rn_nodes r8 = rn_nodes r" "rn_leave_db_running r7 = rn_leave_db_running r"
    using a(1) b(1) c(1) run(4) cl(1) t(1) by (simp_all add: client_parts_def settings_def)
  have "run_log r' = run_log r @ a @ b @ c @ map DbPrimary ps @ cl @ t @ d"
    using a(2) b(2) c(2) run(4) cl(2) t(2) d(1) by simp
  then show ?thesis
    using a(3) b(3) c(3) cl(3) t(3) d(2) unfolding nodes by blast
qed

theorem run_order_witness:
  "\<exists>os_up db_clean db_up primaries clients db_end os_down.
    run_log (snd demo_test) =
      os_up @ db_clean @ db_up @ map DbPrimary primaries @ clients @ db_end @ os_down \<and>
    mset os_up = {# OsSetup ''n1'', OsSetup ''n2'' #} \<and>
    mset db_clean = {# DbTeardown ''n1'', DbTeardown ''n2'' #} \<and>
    mset db_up = {# DbSetup ''n1'', DbSetup ''n2'' #} \<and>
    list_all is_client_event clients \<and>
    mset db_end = {# DbTeardown ''n1'', DbTeardown ''n2'' #} \<and>
    mset os_down = {# OsTeardown ''n1'', OsTeardown ''n2'' #}"
  using run_order [OF demo_test_run] by (simp add: demo_runner_def db_end_events_def)

section \<open>The life of a client\<close>

lemma infra_calls:
  "mset es = mset (map OsSetup ns) \<Longrightarrow> client_calls j es = []"
  "mset es = mset (map OsTeardown ns) \<Longrightarrow> client_calls j es = []"
  "mset es = mset (map DbSetup ns) \<Longrightarrow> client_calls j es = []"
  "mset es = mset (map DbTeardown ns) \<Longrightarrow> client_calls j es = []"
  "mset es = db_end_events b ns \<Longrightarrow> client_calls j es = []"
  "client_calls j (map DbPrimary ns) = []"
proof -
  have other: "client_calls j es = []"
    if "mset es = mset (map f ns)" "\<And>n. \<not> is_client_event (f n)" for f :: "string \<Rightarrow> event" and es
  proof (rule client_calls_other)
    have "set es = f ` set ns" using mset_eq_setD [OF that(1)] by simp
    then show "list_all (\<lambda>e. \<not> is_client_event e) es" using that(2) by (auto simp: list_all_iff)
  qed
  show "mset es = mset (map OsSetup ns) \<Longrightarrow> client_calls j es = []"
    "mset es = mset (map OsTeardown ns) \<Longrightarrow> client_calls j es = []"
    "mset es = mset (map DbSetup ns) \<Longrightarrow> client_calls j es = []"
    "mset es = mset (map DbTeardown ns) \<Longrightarrow> client_calls j es = []"
    by (rule other, assumption, simp)+
  show "mset es = db_end_events b ns \<Longrightarrow> client_calls j es = []"
    by (cases b) (auto simp: db_end_events_def intro: other)
  show "client_calls j (map DbPrimary ns) = []"
    by (rule other [OF refl]) simp
qed

text \<open>What a run that starts with no clients, at number \<open>0\<close>, records about the objects it makes first.\<close>

lemma run_objects:
  assumes run: "Runner_run (recorded_os O1) (recorded_db D) gop gupd (numbered K) (numbered N) sd r
    = (Inr (), r')"
    and fresh: "rn_clients r = []" "rn_indexs r = []" "rn_world r = (w, 0, [])"
  shows "client_calls 0 (run_log r') = [CreateCall, SetupCall] \<and>
    (\<forall>i < length (rn_nodes r). client_calls (Suc i) (run_log r') =
       [CreateCall, OpenCall (rn_nodes r ! i), SetupCall, TeardownCall, CloseCall]) \<and>
    (\<exists>j cs. length (rn_nodes r) < j \<and> client_calls j (run_log r') = cs @ [CreateCall, TeardownCall])"
proof -
  obtain r1 r2 r3 r4 r5 r6 r7 r8 where run:
    "setupOS (recorded_os O1) (sd_os_up sd) r = (Inr (), r1)"
    "teardownDB (recorded_db D) (sd_db_clean sd) r1 = (Inr (), r2)"
    "setupDB (recorded_db D) (sd_db_up sd) r2 = (Inr (), r3)"
    "r4 = r3\<lparr>rn_relative_time := sd_start sd\<rparr>"
    "setupClientNemesis (numbered K) (numbered N) (sd_early sd) (sd_create sd) (sd_clients_up sd) r4
      = (Inr (), r5)"
    "runCases gop gupd (numbered K) (numbered N) (sd_now sd) (sd_actions sd) r5 = (Inr (), r6)"
    "teardownClientNemesis (numbered K) (numbered N) (sd_clients_down sd) r6 = (Inr (), r7)"
    "finishDB (recorded_db D) (sd_db_down sd) r7 = (Inr (), r8)"
    "teardownOS (recorded_os O1) (sd_os_down sd) r8 = (Inr (), r')"
    using run by (rule run_phases)
  let ?n = "length (rn_nodes r)"
  have c1: "client_parts r1 = client_parts r" "client_calls j (run_log r1) = []" for j
    using setupOS_recorded [OF run(1)] infra_calls(1) fresh by auto
  have c2: "client_parts r2 = client_parts r" "client_calls j (run_log r2) = []" for j
    using teardownDB_recorded [OF run(2)] infra_calls(4) c1 by auto
  have c3: "client_parts r3 = client_parts r" "client_calls j (run_log r3) = []" for j
    using setupDB_recorded [OF run(3)] infra_calls(3,6) c2 by auto
  have fresh4: "rn_clients r4 = []" "rn_indexs r4 = []" "rn_nodes r4 = rn_nodes r"
    "next_number r4 = 0" "client_calls j (run_log r4) = []" for j
    using c3 fresh run(4) by (simp_all add: client_parts_def)
  note c5 = setupClientNemesis_recorded [OF run(5) fresh4(1,2), unfolded fresh4]
  have idx5: "rn_indexs r5 = [0..<?n]" "map fst (rn_clients r5) = [1..<1 + ?n]"
    "next_number r5 = 1 + ?n" using c5 by simp_all
  have c6: "client_calls j (run_log r6) = client_calls j (run_log r5)" if "j < 1 + ?n" for j
    using runCases_later [OF run(6)] client_calls_from that idx5(3) by (auto simp: later_def)
  have idx6: "rn_indexs r6 = [0..<?n]" "map fst (rn_clients r6) = [1..<1 + ?n]"
    "1 + ?n \<le> next_number r6"
    using runCases_frame [OF run(6)] runCases_later [OF run(6)] idx5 by (simp_all add: later_def)
  note c7 = teardownClientNemesis_recorded [OF run(7) idx6]
  have c9: "client_calls j (run_log r') = client_calls j (run_log r7)" for j
    using finishDB_recorded [OF run(8)] infra_calls(5) teardownOS_recorded [OF run(9)] infra_calls(2)
    by auto
  have "\<exists>j cs. ?n < j \<and> client_calls j (run_log r') = cs @ [CreateCall, TeardownCall]"
    using c7 c9 idx6(3) by (intro exI [of _ "next_number r6"]) simp
  then show ?thesis using c5 c6 c7 c9 by simp
qed

section \<open>Every client of a node\<close>

text \<open>
  C16. Every node gets one client that lives through the whole test: for every node, in every run
  that returns, the calls of the client are its creation, \<open>open\<close> with its own node, \<open>setup\<close>, and at the
  end \<open>teardown\<close> and \<open>close\<close>. The workers of \<open>runCases\<close> use other objects.
\<close>

theorem run_client_life:
  assumes "Runner_run (recorded_os O1) (recorded_db D) gop gupd (numbered K) (numbered N) sd r
    = (Inr (), r')"
    and "rn_clients r = []" and "rn_indexs r = []" and "rn_world r = (w, 0, [])"
    and "i < length (rn_nodes r)"
  shows "client_calls (Suc i) (run_log r') =
    [CreateCall, OpenCall (rn_nodes r ! i), SetupCall, TeardownCall, CloseCall]"
  using run_objects [OF assms(1-4)] assms(5) by blast

theorem run_client_life_witness:
  "client_calls 2 (run_log (snd demo_test)) =
     [CreateCall, OpenCall ''n2'', SetupCall, TeardownCall, CloseCall]"
  using run_client_life [OF demo_test_run, of "()" 1] by (simp add: demo_runner_def numeral_2_eq_2)

text \<open>
  C18. The nemesis that is set up is never torn down: the only calls it ever gets are its creation and
  \<open>setup\<close>. The teardown goes to another object \<open>j\<close>, made after the clients of the nodes: the last
  calls of \<open>j\<close> are its creation and \<open>teardown\<close>, with no \<open>setup\<close> between them.
\<close>

theorem run_nemesis_not_torn_down:
  assumes "Runner_run (recorded_os O1) (recorded_db D) gop gupd (numbered K) (numbered N) sd r
    = (Inr (), r')"
    and "rn_clients r = []" and "rn_indexs r = []" and "rn_world r = (w, 0, [])"
  shows "client_calls 0 (run_log r') = [CreateCall, SetupCall] \<and>
    (\<exists>j cs. length (rn_nodes r) < j \<and> client_calls j (run_log r') = cs @ [CreateCall, TeardownCall])"
  using run_objects [OF assms] by blast

theorem run_nemesis_not_torn_down_witness:
  "client_calls 0 (run_log (snd demo_test)) = [CreateCall, SetupCall] \<and>
    (\<exists>j cs. 2 < j \<and> client_calls j (run_log (snd demo_test)) = cs @ [CreateCall, TeardownCall])"
  using run_nemesis_not_torn_down [OF demo_test_run, of "()"] by (simp add: demo_runner_def numeral_2_eq_2)

section \<open>A failure\<close>

text \<open>A phase over the nodes that appends calls of one kind, whether it returns or raises.\<close>

definition appends where
  "appends l ev r \<longleftrightarrow> (\<exists>ns. run_log r = l @ map ev ns)"

lemma appends_event: "appends l ev r \<Longrightarrow> run_log r' = run_log r @ [ev node] \<Longrightarrow> appends l ev r'"
  unfolding appends_def by (auto intro: exI [of _ "ns @ [node]" for ns])

lemma on_os_appends:
  "keeps (appends l ev) (on_os (\<lambda>os. log_event (ev node) (m os))) (\<lambda>_. True)"
  by (auto simp: keeps_def on_os_def log_event_def
      split: option.splits prod.splits sum.splits intro: appends_event)

lemma void_db_appends:
  "keeps (appends l ev) (act_void (on_db (\<lambda>db. log_event (ev node) (m db)))) (\<lambda>_. True)"
  unfolding act_void_def
  by (rule keeps_bind [where Q = "\<lambda>_. True"])
    (auto simp: keeps_def on_db_def log_event_def act_return_def
      split: option.splits prod.splits sum.splits intro: appends_event)

lemma for_nodes_appends:
  assumes "\<And>node. keeps (appends (run_log r) ev) (f node) (\<lambda>_. True)"
    and "for_nodes is f r = (res, r')"
  obtains ns where "run_log r' = run_log r @ map ev ns"
proof -
  have "keeps (appends (run_log r) ev) (act_for f xs) (\<lambda>_. True)" for xs
    by (rule keeps_act_for) (rule assms(1))
  moreover have "appends (run_log r) ev r" unfolding appends_def by (rule exI [of _ "[]"]) simp
  ultimately have "appends (run_log r) ev r'"
    using assms(2) by (auto simp: for_nodes_def dest: keepsD(1) elim!: par_for_frame)
  then show thesis using that unfolding appends_def by blast
qed

lemma setupDB_raises:
  fixes r :: "('o, 'd, 'c, 'w recorded) runner"
  assumes "node \<in> set (rn_nodes r)" and "\<And>db w. \<exists>e w'. db_setup D node db w = (Inl e, w')"
  shows "\<exists>e r'. for_nodes is (\<lambda>node. act_void (on_db (db_setup (recorded_db D) node))) r = (Inl e, r')"
proof -
  let ?f = "\<lambda>node. act_void (on_db (db_setup (recorded_db D) node))"
  have "\<exists>e r'. act_for ?f (par_order is (map (\<lambda>node. [node]) (rn_nodes r))) r = (Inl e, r')"
  proof (rule act_for_raises [of node])
    show "node \<in> set (par_order is (map (\<lambda>node. [node]) (rn_nodes r)))"
      using assms(1) by (auto simp: set_par_order)
    fix s :: "('o, 'd, 'c, 'w recorded) runner"
    show "\<exists>e r'. act_void (on_db (db_setup (recorded_db D) node)) s = (Inl e, r')"
    proof (cases "rn_db s")
      case None
      then show ?thesis by (simp add: act_void_def act_bind_def on_db_def)
    next
      case (Some db)
      obtain e w' where "db_setup D node db (fst (rn_world s)) = (Inl e, w')" using assms(2) by blast
      then show ?thesis
        using Some by (simp add: act_void_def act_bind_def on_db_def recorded_db_def log_event_def)
    qed
  qed
  then show ?thesis unfolding for_nodes_def using par_for_raises by metis
qed

lemma for_nodes_Inl: "for_nodes is f r = (Inl e, r') \<Longrightarrow> \<not> thrown e"
  unfolding for_nodes_def by (rule par_for_Inl)

text \<open>
  C17. A failure is not cleaned up after: if setting up the database always fails on one of the nodes,
  the run fails, and all it has done on the nodes is, in this order, setting up operating systems,
  tearing down databases and setting up databases. So no operating system is torn down, no database
  after any set up, and no client is created. The failure is not an exception that the caller
  could handle.
\<close>

theorem run_failed_setup:
  assumes "node \<in> set (rn_nodes r)" and "\<And>db w. \<exists>e w'. db_setup D node db w = (Inl e, w')"
    and "run_log r = []"
  shows "\<exists>e r' os_up db_clean db_up.
    Runner_run (recorded_os O1) (recorded_db D) gop gupd K N sd r = (Inl e, r') \<and> \<not> thrown e \<and>
    run_log r' = map OsSetup os_up @ map DbTeardown db_clean @ map DbSetup db_up"
proof -
  let ?run = "Runner_run (recorded_os O1) (recorded_db D) gop gupd K N sd"
  let ?set_up = "\<lambda>node. act_void (on_db (db_setup (recorded_db D) node))"
  obtain x1 r1 where r1: "setupOS (recorded_os O1) (sd_os_up sd) r = (x1, r1)" by (meson surj_pair)
  obtain l1 where l1: "run_log r1 = map OsSetup l1"
    using for_nodes_appends [OF on_os_appends [where ev = OsSetup] r1 [unfolded setupOS_def recorded_os_def os_class.simps]]
      assms(3) by auto
  obtain x2 r2 where r2: "teardownDB (recorded_db D) (sd_db_clean sd) r1 = (x2, r2)" by (meson surj_pair)
  obtain l2 where l2: "run_log r2 = map OsSetup l1 @ map DbTeardown l2"
    using for_nodes_appends [OF void_db_appends [where ev = DbTeardown] r2 [unfolded teardownDB_def recorded_db_def db_class.simps]]
      l1 by auto
  consider e where "x1 = Inl e" | e where "x1 = Inr ()" "x2 = Inl e" | "x1 = Inr ()" "x2 = Inr ()"
    by (cases x1; cases x2) auto
  then show ?thesis
  proof cases
    case 1
    then have "?run r = (Inl e, r1)" using r1 by (simp add: Runner_run_def act_bind_def)
    then show ?thesis
      using l1 r1 1 by (intro exI [of _ e] exI [of _ r1] exI [of _ l1] exI [of _ "[]"])
        (auto simp: setupOS_def dest: for_nodes_Inl)
  next
    case 2
    then have "?run r = (Inl e, r2)" using r1 r2 by (simp add: Runner_run_def act_bind_def)
    then show ?thesis
      using l2 r2 2 by (intro exI [of _ e] exI [of _ r2] exI [of _ l1] exI [of _ l2] exI [of _ "[]"])
        (auto simp: teardownDB_def dest: for_nodes_Inl)
  next
    case 3
    have "rn_nodes r2 = rn_nodes r"
      using setupOS_recorded [of O1 "sd_os_up sd" r r1] teardownDB_recorded [of D "sd_db_clean sd" r1 r2]
        r1 r2 3 by (auto simp: client_parts_def)
    then obtain e r3 where r3: "for_nodes (sd_db_up sd) ?set_up r2 = (Inl e, r3)"
      using setupDB_raises [of node r2 D "sd_db_up sd"] assms(1,2) by auto
    obtain l3 where "run_log r3 = map OsSetup l1 @ map DbTeardown l2 @ map DbSetup l3"
      using for_nodes_appends [OF void_db_appends [where ev = DbSetup] r3 [unfolded recorded_db_def db_class.simps]] l2 by auto
    moreover have "?run r = (Inl e, r3)"
      using r1 r2 r3 3 by (simp add: Runner_run_def act_bind_def setupDB_def)
    ultimately show ?thesis using for_nodes_Inl [OF r3] by blast
  qed
qed

definition BrokenDB :: "(unit, 'w) db_class" where
  "BrokenDB = QuietDB\<lparr>db_setup := \<lambda>node db. if node = ''n2'' then act_raise LogicError else act_return (True, db)\<rparr>"

theorem run_failed_setup_witness:
  "\<exists>e r' os_up db_clean db_up. Runner_run (recorded_os Ubuntu) (recorded_db BrokenDB) (gen_op 5) gen_update
     (numbered (NoopClient ())) (numbered (NoopNemesis ())) demo_schedule (demo_runner ((), 0, []))
     = (Inl e, r') \<and> \<not> thrown e \<and>
     run_log r' = map OsSetup os_up @ map DbTeardown db_clean @ map DbSetup db_up"
  by (rule run_failed_setup [of "''n2''"]) (simp_all add: demo_runner_def BrokenDB_def act_raise_def)

section \<open>The saved history\<close>

text \<open>What \<open>runCases\<close> reads and writes, which the other phases leave alone.\<close>

definition case_parts where
  "case_parts r = (rn_nodes r, rn_concurrency r, rn_generator r, rn_history r)"

lemma on_os_case: "on_os m r = (x, r') \<Longrightarrow> case_parts r' = case_parts r"
  by (auto simp: on_os_def case_parts_def split: option.splits prod.splits sum.splits)

lemma on_db_case: "on_db m r = (x, r') \<Longrightarrow> case_parts r' = case_parts r"
  by (auto simp: on_db_def case_parts_def split: option.splits prod.splits sum.splits)

lemma void_db_case: "act_void (on_db m) r = (Inr x, r') \<Longrightarrow> case_parts r' = case_parts r"
  by (auto simp: act_void_eq dest: on_db_case)

lemma void_db_case_any: "act_void (on_db m) r = (x, r') \<Longrightarrow> case_parts r' = case_parts r"
  by (cases x) (auto simp: act_void_def res_simps dest: on_db_case)

lemma for_nodes_case:
  assumes "\<And>node r x r'. f node r = (x, r') \<Longrightarrow> case_parts r' = case_parts r"
    and "for_nodes is f r = (x, r')"
  shows "case_parts r' = case_parts r"
  by (rule par_for_frame [OF assms(2) [unfolded for_nodes_def]], erule act_for_frame [rotated]) (rule assms(1))

lemma os_case:
  "setupOS O1 is r = (x, r') \<Longrightarrow> case_parts r' = case_parts r"
  "teardownOS O1 is r = (x, r') \<Longrightarrow> case_parts r' = case_parts r"
  unfolding setupOS_def teardownOS_def
  by (rule for_nodes_case [of "\<lambda>node. on_os (os_setup O1 node)"], erule on_os_case, assumption)
    (rule for_nodes_case [of "\<lambda>node. on_os (os_teardown O1 node)"], erule on_os_case, assumption)

lemma teardownDB_case: "teardownDB D is r = (x, r') \<Longrightarrow> case_parts r' = case_parts r"
  unfolding teardownDB_def
  by (rule for_nodes_case [of "\<lambda>node. act_void (on_db (db_teardown D node))"],
      erule void_db_case_any, assumption)

lemma finishDB_case: "finishDB D is r = (x, r') \<Longrightarrow> case_parts r' = case_parts r"
  by (auto simp: finishDB_def split: if_splits dest: teardownDB_case)

lemma setupDB_case:
  assumes "setupDB D is r = (Inr (), r')"
  shows "case_parts r' = case_parts r"
proof -
  obtain v where v: "for_nodes is (\<lambda>node. act_void (on_db (db_setup D node))) r = (Inr (), v)"
    "setupPrimaries D v = (Inr (), r')"
    using assms by (auto simp: setupDB_def act_bind_eq_Inr)
  have "case_parts v = case_parts r"
    by (rule for_nodes_case [OF _ v(1)]) (erule void_db_case_any)
  moreover have "case_parts r' = case_parts v"
  proof (cases "db_primary D")
    case None
    then show ?thesis using v(2) by (simp add: setupPrimaries_def act_return_def)
  next
    case (Some P)
    then obtain ps u where u: "on_db (getPrimaries P) v = (Inr ps, u)"
      "act_for (\<lambda>p. act_void (on_db (setupPrimary P p))) ps u = (Inr (), r')"
      using v(2) by (auto simp: setupPrimaries_def act_bind_eq_Inr)
    have "case_parts r' = case_parts u"
      by (rule act_for_frame [OF _ u(2)]) (erule void_db_case_any)
    then show ?thesis using on_db_case [OF u(1)] by simp
  qed
  ultimately show ?thesis by simp
qed

lemma node_step_case: "run_step K N x r = (y, r') \<Longrightarrow> case_parts r' = case_parts r"
  by (cases x)
    (auto simp: run_step_def in_future_def on_client_def create_client_def case_parts_def
      split: option.splits prod.splits sum.splits if_splits)

lemma node_steps_case: "act_for (run_step K N) xs r = (y, r') \<Longrightarrow> case_parts r' = case_parts r"
  by (rule act_for_frame) (rule node_step_case)

lemma create_nemesis_case: "create_nemesis N r = (y, r') \<Longrightarrow> case_parts r' = case_parts r"
  by (auto simp: create_nemesis_def case_parts_def split: prod.splits sum.splits)

lemma nf_get_case: "nf_get r = (y, r') \<Longrightarrow> case_parts r' = case_parts r"
  by (auto simp: nf_get_def case_parts_def split: option.splits)

lemma setupClientNemesis_case:
  "setupClientNemesis K N early is1 is2 r = (Inr (), r') \<Longrightarrow> case_parts r' = case_parts r"
  by (auto simp: setupClientNemesis_def act_bind_eq_Inr interleaved_def par_for_Inr
      dest!: create_nemesis_case node_steps_case nf_get_case)

lemma teardownClientNemesis_case:
  "teardownClientNemesis K N is r = (Inr (), r') \<Longrightarrow> case_parts r' = case_parts r"
  by (auto simp: teardownClientNemesis_def act_bind_eq_Inr par_for_Inr
      dest!: create_nemesis_case node_steps_case nf_get_case)

text \<open>
  The loop of a test that returns: its schedule leads from an initial state of the runner's nodes and
  threads to one in which all workers have been joined, with the history of the test.
\<close>

lemma run_schedule:
  assumes "Runner_run O1 D gop gupd K N sd r = (Inr (), r')" and "rn_history r = []"
  obtains w0 s0 s where
    "runCases_init N (rn_nodes r) (rn_concurrency r) (sd_now sd) (rn_generator r) w0 = Inr s0"
    and "sys_execs gop gupd K N (sd_actions sd) s0 = Some s"
    and "r_phase (s_run s) = Done" and "rn_history r' = r_history (s_run s)"
proof -
  obtain r1 r2 r3 r4 r5 r6 r7 r8 where run:
    "setupOS O1 (sd_os_up sd) r = (Inr (), r1)"
    "teardownDB D (sd_db_clean sd) r1 = (Inr (), r2)"
    "setupDB D (sd_db_up sd) r2 = (Inr (), r3)"
    "r4 = r3\<lparr>rn_relative_time := sd_start sd\<rparr>"
    "setupClientNemesis K N (sd_early sd) (sd_create sd) (sd_clients_up sd) r4 = (Inr (), r5)"
    "runCases gop gupd K N (sd_now sd) (sd_actions sd) r5 = (Inr (), r6)"
    "teardownClientNemesis K N (sd_clients_down sd) r6 = (Inr (), r7)"
    "finishDB D (sd_db_down sd) r7 = (Inr (), r8)"
    "teardownOS O1 (sd_os_down sd) r8 = (Inr (), r')"
    using assms(1) by (rule run_phases)
  have "case_parts r5 = case_parts r"
    using os_case(1) [OF run(1)] teardownDB_case [OF run(2)] setupDB_case [OF run(3)]
      setupClientNemesis_case [OF run(5)] run(4) by (simp add: case_parts_def)
  then have before: "rn_nodes r5 = rn_nodes r" "rn_concurrency r5 = rn_concurrency r"
    "rn_generator r5 = rn_generator r" "rn_history r5 = []"
    using assms(2) by (simp_all add: case_parts_def)
  have "case_parts r' = case_parts r6"
    using teardownClientNemesis_case [OF run(7)] finishDB_case [OF run(8)] os_case(2) [OF run(9)]
    by simp
  then have after: "rn_history r' = rn_history r6" by (simp add: case_parts_def)
  obtain s0 s where "runCases_init N (rn_nodes r5) (rn_concurrency r5) (sd_now sd) (rn_generator r5)
      (rn_world r5) = Inr s0" "sys_execs gop gupd K N (sd_actions sd) s0 = Some s"
    "r_phase (s_run s) = Done" "rn_history r6 = rn_history r5 @ r_history (s_run s)"
    using run(6) by (auto simp: runCases_def split: sum.splits option.splits phase.splits)
  then show thesis using that before after by simp
qed

text \<open>Hence a reachable one.\<close>

lemma run_loop:
  assumes "Runner_run O1 D (gen_op d) gen_update K N sd r = (Inr (), r')"
    and "rn_generator r = setGenerator g" and "rn_history r = []"
  obtains s where "run_reaches d K N (rn_nodes r) (rn_concurrency r) g s"
    and "r_phase (s_run s) = Done" and "rn_history r' = r_history (s_run s)"
proof -
  obtain w0 s0 s where s:
    "runCases_init N (rn_nodes r) (rn_concurrency r) (sd_now sd) (rn_generator r) w0 = Inr s0"
    "sys_execs (gen_op d) gen_update K N (sd_actions sd) s0 = Some s"
    "r_phase (s_run s) = Done" "rn_history r' = r_history (s_run s)"
    using assms(1,3) by (rule run_schedule)
  have "run_reaches d K N (rn_nodes r) (rn_concurrency r) g s"
    using s(1) sys_execs_steps [OF s(2)] assms(2) unfolding run_reaches_def by auto
  then show thesis using that s by blast
qed

text \<open>
  C1. The history a test ends with is complete: when \<open>Runner::run\<close> returns, for every client and
  nemesis that keep their contract, every generator of schedulable operations and every schedule, the
  operations of each client process (one that is not negative; the nemesis may have several operations
  under way) alternate between an invocation and its completion, and none is open.
\<close>

theorem run_saved_history:
  assumes "client_contract K C" and "client_contract N E" and "0 < rn_concurrency r"
    and "good_gen g" and "g \<noteq> None" and "rn_generator r = setGenerator g" and "rn_history r = []"
    and "Runner_run O1 D (gen_op d) gen_update K N sd r = (Inr (), r')" and "0 \<le> q"
  shows "open_after C False (proc_ops q (rn_history r')) = Some False"
proof -
  obtain s where s: "run_reaches d K N (rn_nodes r) (rn_concurrency r) g s"
    "r_phase (s_run s) = Done" "rn_history r' = r_history (s_run s)"
    using assms(8,6,7) by (rule run_loop)
  show ?thesis
    using run_inv [OF assms(1-5) s(1)] s(2,3) drained_closed [OF _ assms(3,9), of C s]
    by (simp add: sys_inv_def)
qed

definition plain_test :: "unit res \<times> (remotes, unit, unit, unit) runner" where
  "plain_test = Runner_run Ubuntu QuietDB (gen_op 5) gen_update (NoopClient ()) (NoopNemesis ())
     demo_schedule (demo_runner ())"

lemma plain_test_returns: "fst plain_test = Inr () \<and> length (rn_history (snd plain_test)) = 2"
  by code_simp

theorem run_saved_history_witness:
  "length (rn_history (snd plain_test)) = 2 \<and>
     open_after {kInvoke} False (proc_ops 0 (rn_history (snd plain_test))) = Some False"
proof
  have "Runner_run Ubuntu QuietDB (gen_op 5) gen_update (NoopClient ()) (NoopNemesis ())
     demo_schedule (demo_runner ()) = (Inr (), snd plain_test)"
    using plain_test_returns unfolding plain_test_def by (metis prod.collapse)
  then show "open_after {kInvoke} False (proc_ops 0 (rn_history (snd plain_test))) = Some False"
    by (rule run_saved_history [OF noop_contracts _ demo_good _ _, rotated 3])
      (simp_all add: demo_runner_def)
qed (simp add: plain_test_returns)

end
