(* ===== verification/Runner_Dispatch.thy ===== *)
theory Runner_Dispatch
  imports Lifecycle_Properties Generator_Classes
begin

text \<open>
  What a law of a generator says about the histories of a run.

  \<^item> \<open>dispatch_law\<close> relates a generator to the invocations that have been dispatched: asking,
    adopting an answer and updating keep the relation \<open>J\<close>, what is dispatched satisfies \<open>Q\<close>, and
    the generator is only exhausted when the invocations satisfy \<open>F\<close>. A law of a generator is one of
    its \<open>Validate\<close>, which is how the runner holds it.
  \<^item> \<open>settling_clients\<close>: clients and nemesis report an outcome for the operations a law lets
    through.
  \<^item> \<open>dispatch_system\<close> puts both together with the runner: the relation holds while the loop runs,
    and \<open>F\<close> when it has been left. It is proved once, for all laws. A law may depend on the time, when
    the clock of the schedule does not go back.
\<close>

section \<open>Laws of generators\<close>

definition invocations :: "operation list \<Rightarrow> operation list" where
  "invocations h = filter (\<lambda>o1. op_type o1 = kInvoke) h"

lemma invocations_append [simp]: "invocations (h @ [o1]) = invocations h @ (if op_type o1 = kInvoke then [o1] else [])"
  by (simp add: invocations_def)

lemma invocations_Nil [simp]: "invocations [] = []"
  by (simp add: invocations_def)

text \<open>What an operation is about: everything but its process, time and state.\<close>

definition op_sig :: "operation \<Rightarrow> string \<times> json \<times> json" where
  "op_sig o1 = (op_func o1, op_info o1, op_helper o1)"

text \<open>The runner dispatches an answer that is due, and keeps the receiver of any other.\<close>

definition due :: "ctx \<Rightarrow> operation \<Rightarrow> bool" where
  "due c o1 \<longleftrightarrow> op_type o1 = kInvoke \<and> op_time o1 \<le> ctx_time c"

locale dispatch_law =
  fixes gop :: op_fun and gupd :: upd_fun and n :: int
    and J :: "int \<Rightarrow> gen_ptr \<Rightarrow> operation list \<Rightarrow> bool" and Q :: "operation \<Rightarrow> bool"
    and F :: "operation list \<Rightarrow> bool"
  assumes j_wait: "ctx_inv n c \<Longrightarrow> J (ctx_time c) g h \<Longrightarrow> gop g c r = Inr ((o1, g2), g', r') \<Longrightarrow>
      \<not> due c o1 \<Longrightarrow> J (ctx_time c) g' h"
    and j_go: "ctx_inv n c \<Longrightarrow> J (ctx_time c) g h \<Longrightarrow> gop g c r = Inr ((o1, g2), g', r') \<Longrightarrow>
      due c o1 \<Longrightarrow> J (ctx_time c) g2 (h @ [o1]) \<and> Q o1"
    and j_nil: "ctx_inv n c \<Longrightarrow> J (ctx_time c) g h \<Longrightarrow> gop g c r = Inr ((o1, g2), g', r') \<Longrightarrow>
      op_type o1 = kNil \<Longrightarrow> F h"
    and j_none: "J t None h \<Longrightarrow> F h"
    and j_upd: "J t g h \<Longrightarrow> gupd g c e = Inr g' \<Longrightarrow> J t g' h"
    and j_later: "J t g h \<Longrightarrow> t \<le> t' \<Longrightarrow> J t' g h"

text \<open>\<open>setGenerator\<close> wraps the generator in \<open>Validate\<close>, and every answer is wrapped again.\<close>

definition validated :: "(gen_ptr \<Rightarrow> operation list \<Rightarrow> bool) \<Rightarrow> gen_ptr \<Rightarrow> operation list \<Rightarrow> bool" where
  "validated J g h \<longleftrightarrow>
     (case g of None \<Rightarrow> J None h | Some (Validate p) \<Rightarrow> J p h | _ \<Rightarrow> False)"

lemma validated_simps [simp]:
  "validated J None h = J None h"
  "validated J (Some (Validate p)) h = J p h"
  by (simp_all add: validated_def)

lemma validated_set [simp]: "validated J (setGenerator p) h = J p h"
  by (simp add: setGenerator_def createValidate_def)

lemma validatedE:
  assumes "validated J g h"
  obtains (none) "g = None" and "J None h" | (wrapped) p where "g = Some (Validate p)" and "J p h"
  using assms by (auto simp: validated_def split: option.splits gen.splits)

lemma validated_update:
  assumes J: "validated J g h" and upd: "gen_update g c e = Inr g'"
    and law: "\<And>p p'. J p h \<Longrightarrow> gen_update p c e = Inr p' \<Longrightarrow> J p' h"
  shows "validated J g' h"
  using J
proof (cases rule: validatedE)
  case (wrapped p)
  then obtain p' where "gen_update p c e = Inr p'" "g' = Some (Validate p')"
    using upd by (auto simp: bind_res_eq_Inr createValidate_def)
  then show ?thesis using law [OF wrapped(2)] by simp
qed (use upd in simp)

lemma validated_mono: "validated J g h \<Longrightarrow> (\<And>p. J p h \<Longrightarrow> J' p h') \<Longrightarrow> validated J' g h'"
  by (erule validatedE) simp_all

text \<open>The answer of a wrapper, from the answer of the generator inside.\<close>

lemma validate_answer:
  assumes "gen_op (Suc k) (Some (Validate p)) c r = Inr ((o1, g2), g', r')"
  shows "\<exists>g3 p'. gen_op k p c r = Inr ((o1, g3), p', r') \<and> g' = Some (Validate p') \<and>
    (op_type o1 \<noteq> kNil \<longrightarrow> g2 = None \<and> g3 = None \<or> g2 = Some (Validate g3))"
proof (cases "gen_op k p c r")
  case (Inr y)
  obtain o2 g3 p' r2 where "y = ((o2, g3), p', r2)" by (cases y) auto
  then show ?thesis
    using assms Inr by (cases g3) (auto simp: op_validate_def createValidate_def split: if_splits)
qed (use assms in \<open>simp add: op_validate_def\<close>)

lemma law_validated:
  assumes law: "dispatch_law (gen_op k) gen_update n J Q F"
  shows "dispatch_law (gen_op (Suc k)) gen_update n (\<lambda>t. validated (J t)) Q F"
proof
  note L = dispatch_law.j_wait [OF law] dispatch_law.j_go [OF law] dispatch_law.j_nil [OF law]
  fix c g h r o1 g2 g' r'
  assume c: "ctx_inv n c" and J: "validated (J (ctx_time c)) g h"
    and ans: "gen_op (Suc k) g c r = Inr ((o1, g2), g', r')"
  have "(\<not> due c o1 \<longrightarrow> validated (J (ctx_time c)) g' h) \<and>
    (due c o1 \<longrightarrow> validated (J (ctx_time c)) g2 (h @ [o1]) \<and> Q o1) \<and> (op_type o1 = kNil \<longrightarrow> F h)"
    using J
  proof (cases rule: validatedE)
    case none
    then show ?thesis
      using ans dispatch_law.j_none [OF law none(2)]
      by (auto simp: nil_op_def Operation_of_type_def due_def)
  next
    case (wrapped p)
    obtain g3 p' where "gen_op k p c r = Inr ((o1, g3), p', r')" "g' = Some (Validate p')"
      "op_type o1 \<noteq> kNil \<longrightarrow> g2 = None \<and> g3 = None \<or> g2 = Some (Validate g3)"
      using validate_answer [OF ans [unfolded wrapped(1)]] by blast
    then show ?thesis using L [OF c wrapped(2)] by (auto simp: due_def)
  qed
  then show "\<not> due c o1 \<Longrightarrow> validated (J (ctx_time c)) g' h"
    "due c o1 \<Longrightarrow> validated (J (ctx_time c)) g2 (h @ [o1]) \<and> Q o1"
    "op_type o1 = kNil \<Longrightarrow> F h" by blast+
next
  show "validated (J t) None h \<Longrightarrow> F h" for t h using dispatch_law.j_none [OF law] by simp
next
  show "validated (J t) g h \<Longrightarrow> gen_update g c e = Inr g' \<Longrightarrow> validated (J t) g' h" for t g h c e g'
    by (rule validated_update [OF _ _ dispatch_law.j_upd [OF law]])
next
  show "validated (J t) g h \<Longrightarrow> t \<le> t' \<Longrightarrow> validated (J t') g h" for t g h t'
    by (rule validated_mono [OF _ dispatch_law.j_later [OF law]])
qed

text \<open>Without depth nothing is answered, so a law may suppose a depth.\<close>

lemma law_depth:
  assumes law: "\<And>k. d = Suc k \<Longrightarrow> dispatch_law (gen_op k) gen_update n J Q F"
    and none: "\<And>t h. J t None h \<Longrightarrow> F h"
    and upd: "\<And>t g h c e g'. J t g h \<Longrightarrow> gen_update g c e = Inr g' \<Longrightarrow> J t g' h"
    and later: "\<And>t g h t'. J t g h \<Longrightarrow> t \<le> t' \<Longrightarrow> J t' g h"
  shows "dispatch_law (gen_op d) gen_update n (\<lambda>t. validated (J t)) Q F"
proof (cases d)
  case 0
  show ?thesis
    by unfold_locales (use 0 none in \<open>auto intro: validated_update [OF _ _ upd] validated_mono [OF _ later]\<close>)
qed (simp add: law_validated law del: gen_op.simps)

text \<open>Two laws hold together.\<close>

lemma law_conj:
  assumes 1: "dispatch_law gop gupd n J1 Q1 F1" and 2: "dispatch_law gop gupd n J2 Q2 F2"
  shows "dispatch_law gop gupd n (\<lambda>t g h. J1 t g h \<and> J2 t g h) (\<lambda>o1. Q1 o1 \<and> Q2 o1) (\<lambda>h. F1 h \<and> F2 h)"
proof
  note wait = dispatch_law.j_wait [OF 1] dispatch_law.j_wait [OF 2]
  note go = dispatch_law.j_go [OF 1] dispatch_law.j_go [OF 2]
  note nil = dispatch_law.j_nil [OF 1] dispatch_law.j_nil [OF 2]
  fix c g h r o1 g2 g' r'
  assume c: "ctx_inv n c" and J: "J1 (ctx_time c) g h \<and> J2 (ctx_time c) g h"
    and ans: "gop g c r = Inr ((o1, g2), g', r')"
  show "\<not> due c o1 \<Longrightarrow> J1 (ctx_time c) g' h \<and> J2 (ctx_time c) g' h"
    using wait [OF c _ ans] J by blast
  show "due c o1 \<Longrightarrow> (J1 (ctx_time c) g2 (h @ [o1]) \<and> J2 (ctx_time c) g2 (h @ [o1])) \<and> Q1 o1 \<and> Q2 o1"
    using go [OF c _ ans] J by blast
  show "op_type o1 = kNil \<Longrightarrow> F1 h \<and> F2 h" using nil [OF c _ ans] J by blast
next
  show "J1 t None h \<and> J2 t None h \<Longrightarrow> F1 h \<and> F2 h" for t h
    using dispatch_law.j_none [OF 1] dispatch_law.j_none [OF 2] by blast
  show "J1 t g h \<and> J2 t g h \<Longrightarrow> gupd g c e = Inr g' \<Longrightarrow> J1 t g' h \<and> J2 t g' h" for t g h c e g'
    using dispatch_law.j_upd [OF 1, of t g h c e g'] dispatch_law.j_upd [OF 2, of t g h c e g'] by blast
  show "J1 t g h \<and> J2 t g h \<Longrightarrow> t \<le> t' \<Longrightarrow> J1 t' g h \<and> J2 t' g h" for t g h t'
    using dispatch_law.j_later [OF 1, of t g h t'] dispatch_law.j_later [OF 2, of t g h t'] by blast
qed

lemma validated_conj: "validated J1 g h \<and> validated J2 g h \<longleftrightarrow> validated (\<lambda>p h. J1 p h \<and> J2 p h) g h"
  by (auto simp: validated_def split: option.splits gen.splits)

section \<open>Clients that report an outcome\<close>

locale settling_clients =
  fixes K :: "('c, 'w) client_class" and N :: "('c, 'w) client_class" and Q :: "operation \<Rightarrow> bool"
  assumes client_settles: "cl_invoke K op c s = (Inr (b, op', c'), s') \<Longrightarrow> Q op \<Longrightarrow>
      op_type op = kInvoke \<Longrightarrow> op_process op \<noteq> kNemesisProcess \<Longrightarrow> op_type op' \<noteq> kInvoke"
    and nemesis_settles: "cl_invoke N op c s = (Inr (b, op', c'), s') \<Longrightarrow> Q op \<Longrightarrow>
      op_type op = kInvoke \<Longrightarrow> op_process op = kNemesisProcess \<Longrightarrow> op_type op' \<noteq> kInvoke"
begin

lemma worker_settles:
  assumes run: "Worker_invoke K N op w s = (Inr (b, op', w'), s')"
    and op: "Q op" "op_type op = kInvoke" "w_kind w = ClientKind \<longleftrightarrow> op_process op \<noteq> kNemesisProcess"
  shows "op_type op' \<noteq> kInvoke"
proof (cases "w_kind w")
  case ClientKind
  then obtain c s0 c1 where "cl_invoke K op c s0 = (Inr (b, op', c1), s')"
    using run by (auto simp: Worker_invoke_def ClientWorker_invoke_def res_simps split: option.splits)
  then show ?thesis using client_settles op ClientKind by blast
next
  case NemesisKind
  then obtain c s0 c1 where "cl_invoke N op c s0 = (Inr (b, op', c1), s')"
    using run by (auto simp: Worker_invoke_def NemesisWorker_invoke_def res_simps split: option.splits)
  then show ?thesis using nemesis_settles op NemesisKind by auto
qed

end

section \<open>The relation along a run\<close>

definition law_inv ::
  "(gen_ptr \<Rightarrow> operation list \<Rightarrow> bool) \<Rightarrow> (operation \<Rightarrow> bool) \<Rightarrow> (operation list \<Rightarrow> bool)
     \<Rightarrow> ('c, 'w) sys \<Rightarrow> bool" where
  "law_inv J Q F s \<longleftrightarrow>
     (case r_phase (s_run s) of
        Polling \<Rightarrow>
          J (r_gen (s_run s)) (invocations (r_history (s_run s))) \<and>
          list_all (\<lambda>o1. op_type o1 \<noteq> kInvoke) (s_completions s) \<and>
          list_all (\<lambda>(t, w). list_all Q (w_in w)) (s_workers s)
      | Aborted e \<Rightarrow> True
      | _ \<Rightarrow> F (invocations (r_history (s_run s))))"

lemma workers_hold_update:
  "list_all (\<lambda>(t, w). list_all Q (w_in w)) ws \<Longrightarrow> list_all Q (w_in w') \<Longrightarrow>
     list_all (\<lambda>(t, w). list_all Q (w_in w)) (AList.update t w' ws)"
  by (induction ws) auto

lemma workers_hold:
  "list_all (\<lambda>(t, w). list_all Q (w_in w)) ws \<Longrightarrow> map_of ws t = Some w \<Longrightarrow> list_all Q (w_in w)"
  by (auto simp: list_all_iff dest: map_of_SomeD)

text \<open>The parts of an iteration a law has to do with.\<close>

lemma run_complete_parts:
  assumes "run_complete gupd now op1 rs = Inr rs'"
  obtains c1 where "gupd (r_gen rs) c1 (op1\<lparr>op_time := now\<rparr>) = Inr (r_gen rs')"
    and "r_history rs' = r_history rs @ [op1\<lparr>op_time := now\<rparr>]" and "r_phase rs' = r_phase rs"
  using assms by (auto simp: run_complete_def Let_def bind_res_eq_Inr)

lemma dispatch_parts:
  assumes "dispatch gupd op1 gen2 rs ws = Inr (rs', ws')"
  obtains t w c1 where "map_of ws t = Some w" and "gupd gen2 c1 op1 = Inr (r_gen rs')"
    and "r_history rs' = r_history rs @ [op1]" and "r_phase rs' = r_phase rs"
    and "ws' = AList.update t (putOp op1 w) ws"
  using assms by (auto simp: dispatch_def Let_def bind_res_eq_Inr split: option.splits)

lemma run_poll_parts:
  assumes poll: "run_poll gop gupd now r rs ws = Inr (rs', ws')" and phase: "r_phase rs = Polling"
    and type: "\<And>o1 g2 g' r'. gop (r_gen rs) ((r_ctx rs)\<lparr>ctx_time := now\<rparr>) r = Inr ((o1, g2), g', r')
      \<Longrightarrow> op_type o1 \<in> {kInvoke, kNil, kPending}"
  obtains (due) o1 g2 g' r' where
      "gop (r_gen rs) ((r_ctx rs)\<lparr>ctx_time := now\<rparr>) r = Inr ((o1, g2), g', r')"
      and "due ((r_ctx rs)\<lparr>ctx_time := now\<rparr>) o1"
      and "dispatch gupd o1 g2 (rs\<lparr>r_ctx := (r_ctx rs)\<lparr>ctx_time := now\<rparr>, r_gen := g'\<rparr>) ws = Inr (rs', ws')"
  | (wait) o1 g2 g' r' where
      "gop (r_gen rs) ((r_ctx rs)\<lparr>ctx_time := now\<rparr>) r = Inr ((o1, g2), g', r')"
      and "\<not> due ((r_ctx rs)\<lparr>ctx_time := now\<rparr>) o1" and "r_gen rs' = g'"
      and "r_history rs' = r_history rs" and "r_phase rs' = Polling" and "ws' = ws"
  | (leave) o1 g2 g' r' where
      "gop (r_gen rs) ((r_ctx rs)\<lparr>ctx_time := now\<rparr>) r = Inr ((o1, g2), g', r')"
      and "op_type o1 = kNil" and "r_history rs' = r_history rs" and "r_phase rs' = Joining"
proof (cases "gop (r_gen rs) ((r_ctx rs)\<lparr>ctx_time := now\<rparr>) r")
  case (Inl e)
  then show thesis using poll by (simp add: run_poll_def)
next
  case (Inr y)
  obtain o1 g2 g' r' where y: "y = ((o1, g2), g', r')" by (cases y) auto
  let ?c = "(r_ctx rs)\<lparr>ctx_time := now\<rparr>"
  note ans = Inr [unfolded y]
  consider (nil) "op_type o1 = kNil" | (pending) "op_type o1 = kPending" | (invoke) "op_type o1 = kInvoke"
    using type [OF ans] by blast
  then show thesis
  proof cases
    case nil
    then show thesis
      using poll ans phase leave [OF ans] wait [OF ans]
      by (cases "r_outstanding rs > 0") (auto simp: run_poll_def due_def)
  next
    case pending
    then show thesis using poll ans phase wait [OF ans] by (auto simp: run_poll_def due_def)
  next
    case invoke
    show thesis
    proof (cases "now < op_time o1")
      case True
      then show thesis
        using poll ans invoke phase wait [OF ans]
        by (auto simp: run_poll_def due_def bind_res_eq_Inr)
    next
      case False
      then show thesis using poll ans invoke due [OF ans] by (simp add: run_poll_def due_def)
    qed
  qed
qed

text \<open>A schedule whose clock does not go back.\<close>

definition action_time :: "int \<Rightarrow> action \<Rightarrow> int" where
  "action_time t a = (case a of Take i now \<Rightarrow> now | Ask now r \<Rightarrow> now | _ \<Rightarrow> t)"

lemma action_time_simps [simp]:
  "action_time t (Take i now) = now" "action_time t (Ask now r) = now"
  "action_time t (Work u) = t" "action_time t JoinAll = t"
  by (simp_all add: action_time_def)

fun clocked :: "int \<Rightarrow> action list \<Rightarrow> bool" where
  "clocked t [] = True"
| "clocked t (a # as) = (t \<le> action_time t a \<and> clocked (action_time t a) as)"

locale dispatch_system =
  runner_system gop gupd ginv K C N D n + dispatch_law gop gupd n J Q F + settling_clients K N Q
  for gop gupd ginv and K :: "('c, 'w) client_class" and C and N :: "('c, 'w) client_class" and D
    and n J Q F
begin

lemma law_complete:
  assumes inv: "law_inv (J t) Q F s" and poll: "r_phase (s_run s) = Polling"
    and cs: "s_completions s = xs @ op1 # ys" and run: "run_complete gupd now op1 (s_run s) = Inr rs"
  shows "law_inv (J t) Q F (s\<lparr>s_run := rs, s_completions := xs @ ys\<rparr>)"
proof -
  obtain c1 where "gupd (r_gen (s_run s)) c1 (op1\<lparr>op_time := now\<rparr>) = Inr (r_gen rs)"
    "r_history rs = r_history (s_run s) @ [op1\<lparr>op_time := now\<rparr>]" "r_phase rs = r_phase (s_run s)"
    using run by (rule run_complete_parts)
  then show ?thesis using inv poll cs j_upd by (auto simp: law_inv_def)
qed

lemma law_poll:
  assumes good: "sys_inv n C ginv s" and inv: "law_inv (J t) Q F s" and poll: "r_phase (s_run s) = Polling"
    and now: "t \<le> now" and run: "run_poll gop gupd now r (s_run s) (s_workers s) = Inr (rs, ws)"
  shows "law_inv (J now) Q F (s\<lparr>s_run := rs, s_workers := ws\<rparr>)"
proof -
  let ?c = "(r_ctx (s_run s))\<lparr>ctx_time := now\<rparr>"
  have c: "ctx_inv n ?c" and g: "ginv (r_gen (s_run s))"
    using good poll by (auto simp: sys_inv_def ctx_inv_time dest: accountsD(1))
  have J: "J (ctx_time ?c) (r_gen (s_run s)) (invocations (r_history (s_run s)))"
    and cs: "list_all (\<lambda>o1. op_type o1 \<noteq> kInvoke) (s_completions s)"
    and ws: "list_all (\<lambda>(t, w). list_all Q (w_in w)) (s_workers s)"
    using inv poll j_later [OF _ now] by (simp_all add: law_inv_def)
  have type: "op_type o1 \<in> {kInvoke, kNil, kPending}"
    if "gop (r_gen (s_run s)) ?c r = Inr ((o1, g2), g', r')" for o1 g2 g' r'
    using g_op [OF ctx_inv_wf [OF c] g that] by blast
  show ?thesis
  proof (rule run_poll_parts [OF run poll type])
    fix o1 g2 g' r'
    assume ans: "gop (r_gen (s_run s)) ?c r = Inr ((o1, g2), g', r')" and due: "due ?c o1"
      and dispatch: "dispatch gupd o1 g2 ((s_run s)\<lparr>r_ctx := ?c, r_gen := g'\<rparr>) (s_workers s) = Inr (rs, ws)"
    note go = j_go [OF c J ans due]
    obtain t w c1 where d: "map_of (s_workers s) t = Some w" "gupd g2 c1 o1 = Inr (r_gen rs)"
      "r_history rs = r_history (s_run s) @ [o1]" "r_phase rs = r_phase (s_run s)"
      "ws = AList.update t (putOp o1 w) (s_workers s)"
      using dispatch by (rule dispatch_parts) simp
    have "list_all Q (w_in (putOp o1 w))"
      using workers_hold [OF ws d(1)] go by (simp add: putOp_def)
    then have "list_all (\<lambda>(t, w). list_all Q (w_in w)) ws"
      unfolding d(5) by (rule workers_hold_update [OF ws])
    then show ?thesis
      using j_upd [OF conjunct1 [OF go] d(2)] d(3,4) poll cs due by (simp add: law_inv_def due_def)
  next
    fix o1 g2 g' r'
    assume "gop (r_gen (s_run s)) ?c r = Inr ((o1, g2), g', r')" "\<not> due ?c o1" "r_gen rs = g'"
      "r_history rs = r_history (s_run s)" "r_phase rs = Polling" "ws = s_workers s"
    then show ?thesis using j_wait [OF c J] cs ws by (simp add: law_inv_def)
  next
    fix o1 g2 g' r'
    assume "gop (r_gen (s_run s)) ?c r = Inr ((o1, g2), g', r')" "op_type o1 = kNil"
      "r_history rs = r_history (s_run s)" "r_phase rs = Joining"
    then show ?thesis using j_nil [OF c J] by (simp add: law_inv_def)
  qed
qed

lemma law_work:
  assumes good: "sys_inv n C ginv s" and inv: "law_inv (J t) Q F s"
    and phase: "r_phase (s_run s) \<in> {Polling, Joining}"
    and w: "map_of (s_workers s) u = Some w" and it: "runAsync_iter K N w (s_world s) = (w', out, v)"
  shows "law_inv (J t) Q F (s\<lparr>s_workers := AList.update u w' (s_workers s),
          s_completions := s_completions s @ out, s_world := v\<rparr>)"
proof (cases "r_phase (s_run s) = Polling")
  case False
  then show ?thesis using inv phase by (auto simp: law_inv_def)
next
  case True
  then have acc: "accounts n C (r_ctx (s_run s)) (r_outstanding (s_run s)) (s_workers s) (s_completions s)"
    using good by (simp add: sys_inv_def)
  have ok: "worker_ok (r_ctx (s_run s)) u w" using acc w by (rule accountsD(4))
  have ws: "list_all (\<lambda>(t, w). list_all Q (w_in w)) (s_workers s)"
    using inv True by (simp add: law_inv_def)
  note Q = workers_hold [OF ws w]
  have "list_all Q (w_in w') \<and> list_all (\<lambda>o1. op_type o1 \<noteq> kInvoke) out"
  proof (cases "w_in w")
    case Nil
    then show ?thesis using it by auto
  next
    case (Cons op1 q)
    then have op1: "op_type op1 = kInvoke" "map_of (workers (r_ctx (s_run s))) u = Some (op_process op1)"
      "w_kind w = ClientKind \<longleftrightarrow> u \<noteq> kNemesisProcess"
      using ok by (auto simp: worker_ok_def)
    have kind: "w_kind (w\<lparr>w_in := q\<rparr>) = ClientKind \<longleftrightarrow> op_process op1 \<noteq> kNemesisProcess"
      using op1(3) ctx_inv_worker_range [OF accountsD(1) [OF acc] op1(2)] by auto
    have "op_type op1 \<noteq> kExit" using op1(1) by simp
    with Cons show ?thesis
    proof (cases rule: runAsync_iter_invoke [where K = K and N = N and s = "s_world s"])
      case (crash e s')
      then show ?thesis using it Q Cons by auto
    next
      case (ok b op2 w2 s')
      then show ?thesis using it Q Cons worker_settles [OF ok(1) _ op1(1) kind] by auto
    qed
  qed
  then show ?thesis
    using inv True workers_hold_update [OF ws] by (simp add: law_inv_def)
qed

text \<open>
  One action of a schedule, whose clock does not go back; and one step of the relation, for laws that
  do not depend on the time.
\<close>

lemma law_exec:
  assumes exec: "sys_exec gop gupd K N a s = Some s'" and clock: "t \<le> action_time t a"
    and good: "sys_inv n C ginv s" and inv: "law_inv (J t) Q F s"
  shows "law_inv (J (action_time t a)) Q F s'"
proof (cases a)
  case (Take i now)
  have polling: "r_phase (s_run s) = Polling" and i: "i < length (s_completions s)"
    using exec Take by (auto split: if_splits)
  have "law_inv (J now) Q F s"
    using inv clock Take polling j_later by (auto simp: law_inv_def)
  then show ?thesis
    using exec Take polling i law_complete [OF _ polling id_take_nth_drop [OF i], of now now]
    by (auto simp: law_inv_def split: sum.splits)
next
  case (Ask now r)
  then show ?thesis
    using exec law_poll [OF good inv _ _, of now r] clock
    by (auto simp: law_inv_def split: if_splits sum.splits prod.splits)
next
  case (Work u)
  then show ?thesis
    using exec law_work [OF good inv, where u = u] by (auto split: if_splits option.splits prod.splits)
next
  case JoinAll
  then show ?thesis using exec inv by (auto simp: law_inv_def split: if_splits)
qed

lemma law_step:
  assumes step: "sys_step gop gupd K N s s'" and timeless: "\<And>t'. J t' = J t"
    and good: "sys_inv n C ginv s" and inv: "law_inv (J t) Q F s"
  shows "law_inv (J t) Q F s'"
  using step
proof cases
  case (complete xs op1 ys now rs)
  then show ?thesis using law_complete [OF inv] by simp
next
  case (poll now r rs ws)
  have "law_inv (J now) Q F s" unfolding timeless [of now] by (rule inv)
  then have "law_inv (J now) Q F s'" using law_poll [OF good, of now now r rs ws] poll by simp
  then show ?thesis unfolding timeless [of now] .
next
  case (work u w w' out v)
  then show ?thesis using law_work [OF good inv] by simp
qed (use inv in \<open>simp_all add: law_inv_def\<close>)

lemma law_init:
  assumes "runCases_init N nodes n now g w0 = Inr s" and "J t g []"
  shows "law_inv (J t) Q F s"
proof -
  obtain ws w1 where ws: "init_workers N nodes n w0 = (Inr ws, w1)"
    using assms(1) by (auto simp: runCases_init_def split: prod.splits sum.splits)
  obtain nw where "ws = map (\<lambda>i. (i, ClientWorker i (nodes ! nat (i mod int (length nodes))))) [0..n - 1]
       @ [(kNemesisProcess, nw)]" "w_in nw = []"
    using ws n_pos by (rule init_workers_eval)
  then have "list_all (\<lambda>(t, w). list_all Q (w_in w)) ws"
    by (auto simp: list_all_iff ClientWorker_def)
  then show ?thesis using assms ws by (auto simp: runCases_init_def law_inv_def)
qed

lemma law_steps:
  assumes "sys_steps gop gupd K N s s'" and "\<And>t'. J t' = J t"
    and "sys_inv n C ginv s" and "law_inv (J t) Q F s"
  shows "law_inv (J t) Q F s'"
  using assms unfolding sys_steps_def
proof (induction rule: rtranclp_induct)
  case (step s1 s2)
  then have "sys_inv n C ginv s1" using steps_inv [of s s1] by (simp add: sys_steps_def)
  then show ?case using law_step [OF step.hyps(2)] step by blast
qed

lemma law_execs:
  "sys_execs gop gupd K N as s = Some s' \<Longrightarrow> clocked t as \<Longrightarrow> sys_inv n C ginv s \<Longrightarrow>
     law_inv (J t) Q F s \<Longrightarrow> \<exists>t'. law_inv (J t') Q F s'"
proof (induction as arbitrary: s t)
  case (Cons a as)
  then obtain s1 where s1: "sys_exec gop gupd K N a s = Some s1" "sys_execs gop gupd K N as s1 = Some s'"
    by (auto split: option.splits)
  have "sys_inv n C ginv s1" "law_inv (J (action_time t a)) Q F s1"
    using step_inv [OF sys_exec_step [OF s1(1)] Cons.prems(3)] law_exec [OF s1(1) _ Cons.prems(3,4)] Cons.prems(2)
    by auto
  then show ?case using Cons.IH [OF s1(2)] Cons.prems(2) by auto
qed auto

end

section \<open>Reachable states and whole tests\<close>

lemma dispatch_systemI:
  assumes "client_contract K C" and "client_contract N D" and "0 < n" and "settling_clients K N Q"
    and "dispatch_law (gen_op d) gen_update n J Q F"
  shows "dispatch_system (gen_op d) gen_update good_gen K C N D n J Q F"
  by (intro dispatch_system.intro runner_systemI assms)

lemma run_reaches_law:
  assumes sys: "dispatch_system (gen_op d) gen_update good_gen K C N D n (\<lambda>t. validated (J t)) Q F"
    and timeless: "\<And>t'. J t' = J t"
    and g: "good_gen g" "g \<noteq> None" "J t g []" and reach: "run_reaches d K N nodes n g s"
  shows "law_inv (validated (J t)) Q F s"
proof -
  have rs: "runner_system (gen_op d) gen_update good_gen K C N D n" using sys by (rule dispatch_system.axioms)
  obtain now w0 s0 where s0: "runCases_init N nodes n now (setGenerator g) w0 = Inr s0"
    and steps: "sys_steps (gen_op d) gen_update K N s0 s"
    using reach unfolding run_reaches_def by blast
  have init: "law_inv (validated (J t)) Q F s0" using dispatch_system.law_init [OF sys s0, of t] g(3) by simp
  have same: "validated (J t') = validated (J t)" for t' by (simp only: timeless [of t'])
  show ?thesis
    using dispatch_system.law_steps [OF sys steps same _ init] runner_system.init_inv [OF rs s0]
      good_gen_set [OF g(1,2)] by blast
qed

lemma whole_test_law:
  assumes sys: "dispatch_system (gen_op d) gen_update good_gen K C N D n (\<lambda>t. validated (J t)) Q F"
    and g: "good_gen g" "g \<noteq> None" "J (sd_now sd) g []"
    and r: "rn_generator r = setGenerator g" "rn_history r = []"
    and n: "rn_concurrency r = n" and clock: "clocked (sd_now sd) (sd_actions sd)"
    and run: "Runner_run O1 B (gen_op d) gen_update K N sd r = (Inr (), r')"
  shows "F (invocations (rn_history r'))"
proof -
  have rs: "runner_system (gen_op d) gen_update good_gen K C N D n" using sys by (rule dispatch_system.axioms)
  obtain w0 s0 s where s: "runCases_init N (rn_nodes r) n (sd_now sd) (setGenerator g) w0 = Inr s0"
    "sys_execs (gen_op d) gen_update K N (sd_actions sd) s0 = Some s"
    "r_phase (s_run s) = Done" "rn_history r' = r_history (s_run s)"
    using run_schedule [OF run r(2)] unfolding r(1) n by metis
  have "law_inv (validated (J (sd_now sd))) Q F s0"
    using dispatch_system.law_init [OF sys s(1), of "sd_now sd"] g(3) by simp
  moreover have "sys_inv n C good_gen s0"
    by (rule runner_system.init_inv [OF rs s(1) good_gen_set [OF g(1,2)]])
  ultimately obtain t where "law_inv (validated (J t)) Q F s"
    using dispatch_system.law_execs [OF sys s(2) clock] by blast
  then show ?thesis using s(3,4) by (simp add: law_inv_def)
qed

text \<open>Clients that never hand an invocation back settle every operation.\<close>

lemma contract_settles:
  assumes "client_contract K C" and "client_contract N D" and "kInvoke \<notin> C" and "kInvoke \<notin> D"
  shows "settling_clients K N Q"
  using client_contract.outcome [OF assms(1)] client_contract.outcome [OF assms(2)] assms(3,4)
  by unfold_locales metis+

interpretation noop_settling: settling_clients "NoopNemesis c0" "NoopNemesis c0" Q for c0 :: 'c and Q
  by (rule contract_settles [OF noop_nemesis.client_contract_axioms noop_nemesis.client_contract_axioms])
    simp_all

end
