(* ===== verification/Runner_Lists.thy ===== *)
theory Runner_Lists
  imports Runner_Dispatch
begin

text \<open>
  Tests over a list of operations, as a law of the queue that a list generator is: the invocations of
  the history, followed by what the generator still holds, are the list at every moment of a run;
  when the loop is left the generator is empty.
\<close>

section \<open>The law of a queue\<close>

definition list_law :: "nat \<Rightarrow> operation list \<Rightarrow> gen_ptr \<Rightarrow> operation list \<Rightarrow> bool" where
  "list_law d ops p h \<longleftrightarrow>
     all_ptr ops_node p \<and> psize p < d \<and> map op_sig (h @ ptr_ops p) = map op_sig ops"

lemma queue_loop:
  assumes ans: "queue_answer p c r res" and p: "all_ptr ops_node p" "psize p < d"
  obtains o1 g2 r' where "res = Inr ((o1, g2), p, r')"
    and "op_type o1 = kNil \<longrightarrow> ptr_ops p = []"
    and "op_type o1 \<noteq> kNil \<longrightarrow> all_ptr ops_node g2 \<and> psize g2 < d"
    and "op_type o1 = kInvoke \<longrightarrow> (\<exists>o0. ptr_ops p = o0 # ptr_ops g2 \<and> op_sig o1 = op_sig o0)"
proof (cases "ptr_ops p")
  case Nil
  then show thesis
    using ans that [of "fst nil_op" "snd nil_op" r]
    by (simp add: queue_answer_empty nil_op_def Operation_of_type_def)
next
  case (Cons o0 os)
  have type: "op_type o0 \<in> {kInit, kInvoke}" using ops_types(2) [OF p(1), of o0] Cons by simp
  show thesis
  proof (cases "free_threads c = []")
    case True
    then obtain g2 where "res = Inr ((o0\<lparr>op_type := kPending\<rparr>, g2), p, r)"
      "all_ptr ops_node g2" "psize g2 \<le> psize p"
      using ans Cons by (auto simp: queue_answer_def)
    then show thesis using that [of "o0\<lparr>op_type := kPending\<rparr>" g2 r] p(2) by simp
  next
    case False
    then obtain g2 q where "res = Inr ((filled c q o0, g2), p, snd (draw r))"
      "all_ptr ops_node g2" "psize g2 \<le> psize p" "ptr_ops g2 = os"
      using ans Cons by (auto simp: queue_answer_def)
    moreover have "op_type (filled c q o0) \<noteq> kNil" "op_sig (filled c q o0) = op_sig o0"
      using type by (auto simp: op_sig_def)
    ultimately show thesis
      using that [of "filled c q o0" g2 "snd (draw r)"] p(2) Cons by auto
  qed
qed

lemma list_law_answer:
  assumes c: "ctx_inv n c" and law: "list_law (Suc k) ops p h"
    and ans: "gen_op k p c r = Inr ((o1, g2), p', r')"
  shows "p' = p" "due c o1 \<Longrightarrow> list_law (Suc k) ops g2 (h @ [o1])"
    "op_type o1 = kNil \<Longrightarrow> map op_sig h = map op_sig ops"
proof -
  have p: "all_ptr ops_node p" "psize p < Suc k" "map op_sig (h @ ptr_ops p) = map op_sig ops"
    using law by (simp_all add: list_law_def)
  have "queue_answer p c r (gen_op k p c r)"
    by (rule queue_gen_op [OF ctx_inv_wf [OF c] p(1)]) (use p(2) in simp)
  then obtain o2 g3 r2 where q: "gen_op k p c r = Inr ((o2, g3), p, r2)"
    "op_type o2 = kNil \<longrightarrow> ptr_ops p = []" "op_type o2 \<noteq> kNil \<longrightarrow> all_ptr ops_node g3 \<and> psize g3 < Suc k"
    "op_type o2 = kInvoke \<longrightarrow> (\<exists>o0. ptr_ops p = o0 # ptr_ops g3 \<and> op_sig o2 = op_sig o0)"
    using queue_loop p(1,2) by blast
  then have eq: "o2 = o1" "g3 = g2" "p' = p" using ans by auto
  show "p' = p" by (rule eq(3))
  show "due c o1 \<Longrightarrow> list_law (Suc k) ops g2 (h @ [o1])" using q(3,4) p(3) eq by (auto simp: list_law_def due_def)
  show "op_type o1 = kNil \<Longrightarrow> map op_sig h = map op_sig ops" using q(2) p(3) eq by auto
qed

lemma list_law_update: "list_law d ops p h \<Longrightarrow> gen_update p c e = Inr p' \<Longrightarrow> list_law d ops p' h"
  using ops_update(1) [of p c e] by (auto simp: list_law_def)

interpretation list_law:
  dispatch_law "gen_op d" gen_update n "\<lambda>t. validated (list_law d ops)" "\<lambda>_. True"
    "\<lambda>h. map op_sig h = map op_sig ops" for d n ops
proof (rule law_depth)
  fix k assume "d = Suc k"
  then show "dispatch_law (gen_op k) gen_update n (\<lambda>t. list_law d ops) (\<lambda>_. True)
      (\<lambda>h. map op_sig h = map op_sig ops)"
    by unfold_locales (auto intro: list_law_update dest: list_law_answer simp: list_law_def [of _ _ None])
qed (auto intro: list_law_update simp: list_law_def [of _ _ None])

text \<open>One instance of the whole system: noop clients and a noop nemesis, on any number of threads.\<close>

interpretation listed_noops:
  dispatch_system "gen_op d" gen_update good_gen "NoopNemesis c0" "{kSuccess}" "NoopNemesis c0"
    "{kSuccess}" "int (Suc m)" "\<lambda>t. validated (list_law d ops)" "\<lambda>_. True"
    "\<lambda>h. map op_sig h = map op_sig ops" for d c0 m ops
  by (intro dispatch_systemI noop_nemesis.client_contract_axioms noop_settling.settling_clients_axioms
      list_law.dispatch_law_axioms) simp

section \<open>The whole test\<close>

lemma createGenerator_ops_node:
  assumes "list_all schedulable ops" and "ops \<noteq> []"
  shows "good_gen (createGenerator_ops ops)" "createGenerator_ops ops \<noteq> None"
    "all_ptr ops_node (createGenerator_ops ops)" "ptr_ops (createGenerator_ops ops) = ops"
    "psize (createGenerator_ops ops) = length ops + 2"
proof -
  have "all_ptrs (raw_node schedulable) (map createGenerator_op ops)"
    "all_ptrs ops_node (map createGenerator_op ops)"
    using assms(1) by (induction ops) (auto simp: factory_defs schedulable_def)
  then show "good_gen (createGenerator_ops ops)" "all_ptr ops_node (createGenerator_ops ops)"
    using assms(2) by (simp_all add: good_gen_def createGenerator_ops_def)
  show "createGenerator_ops ops \<noteq> None" by (simp add: factory_defs)
  show "ptr_ops (createGenerator_ops ops) = ops" by (induction ops) (auto simp: factory_defs)
  show "psize (createGenerator_ops ops) = length ops + 2" by (induction ops) (auto simp: factory_defs)
qed


text \<open>Two operations on one thread, with a client that reports success.\<close>

definition list_ops :: "operation list" where
  "list_ops = [Operation_of ''read'' nullValue kInit, Operation_of ''write'' nullValue kInit]"

definition list_schedule :: schedule where
  "list_schedule = demo_schedule\<lparr>sd_actions := [Ask 5 [1], Work 0, Take 0 7, Ask 8 [1], Work 0,
     Take 0 9, Ask 10 [], Work 0, Work (- 1), JoinAll]\<rparr>"

definition list_runner :: "(remotes, unit, unit, unit) runner" where
  "list_runner = (demo_runner ())\<lparr>rn_generator := setGenerator (createGenerator_ops list_ops)\<rparr>"

definition list_test :: "unit res \<times> (remotes, unit, unit, unit) runner" where
  "list_test = Runner_run Ubuntu QuietDB (gen_op 5) gen_update (NoopNemesis ()) (NoopNemesis ())
     list_schedule list_runner"

lemma list_test_returns: "fst list_test = Inr () \<and> length (rn_history (snd list_test)) = 4"
  by code_simp


end
