(* ===== verification/Rendering.thy ===== *)
theory Rendering
  imports Operations
begin

text \<open>
  The text of operations in the log (\<open>Operation::toString\<close>) tells payloads apart: on payloads of
  signed and unsigned 32-bit integers, truth values, words and nested arrays it is a reference printer
  that is injective but for the signedness of the integers. Decimal numbers are read back digit by
  digit.
\<close>

section \<open>Decimal numbers\<close>

definition is_digit :: "char \<Rightarrow> bool" where
  "is_digit c \<longleftrightarrow> 48 \<le> (of_char c :: nat) \<and> (of_char c :: nat) \<le> 57"

fun digits_value :: "nat \<Rightarrow> string \<Rightarrow> nat" where
  "digits_value n [] = n"
| "digits_value n (c # cs) = digits_value (10 * n + (of_char c - 48)) cs"

lemma digits_value_append: "digits_value n (xs @ ys) = digits_value (digits_value n xs) ys"
  by (induction n xs rule: digits_value.induct) auto

lemma of_char_digit: "d < 10 \<Longrightarrow> (of_char (digit d) :: nat) = 48 + d"
  by (simp add: digit_def of_char_of)

lemma nat_to_string_digits:
  "list_all is_digit (nat_to_string n) \<and> nat_to_string n \<noteq> [] \<and> digits_value 0 (nat_to_string n) = n"
proof (induction n rule: less_induct)
  case (less n)
  show ?case
  proof (cases "n < 10")
    case True
    then show ?thesis
      by (subst (1 2 3) nat_to_string.simps) (simp add: is_digit_def of_char_digit)
  next
    case False
    then have "list_all is_digit (nat_to_string (n div 10)) \<and>
        digits_value 0 (nat_to_string (n div 10)) = n div 10"
      using less.IH [of "n div 10"] by simp
    moreover have "n mod 10 < 10" by simp
    ultimately show ?thesis
      using False
      by (subst (1 2 3) nat_to_string.simps)
        (simp add: is_digit_def of_char_digit digits_value_append)
  qed
qed

lemma int_to_string_token:
  "is_digit (hd (int_to_string i)) \<or> hd (int_to_string i) = CHR ''-''"
  "int_to_string i \<noteq> []"
  "c \<in> set (int_to_string i) \<Longrightarrow> is_digit c \<or> c = CHR ''-''"
  using nat_to_string_digits [of "nat i"] nat_to_string_digits [of "nat (- i)"]
  by (auto simp: int_to_string_def list_all_iff split: if_splits)

lemma nat_to_string_inject: "nat_to_string m = nat_to_string n \<Longrightarrow> m = n"
  using nat_to_string_digits [of m] nat_to_string_digits [of n] by metis

lemma no_digits: "\<not> is_digit CHR ''-''" "\<not> is_digit CHR '' ''" "\<not> is_digit CHR '']''" "\<not> is_digit CHR ''n''"
  "\<not> is_digit CHR ''t''" "\<not> is_digit CHR ''f''" "\<not> is_digit CHR ''[''"
  by (simp_all add: is_digit_def)

lemma minus_not_digits: "CHR ''-'' # xs \<noteq> nat_to_string n"
proof
  assume "CHR ''-'' # xs = nat_to_string n"
  then have "list_all is_digit (CHR ''-'' # xs)" using nat_to_string_digits [of n] by simp
  then show False by (simp add: no_digits)
qed

lemma int_to_string_inject: "int_to_string i = int_to_string j \<Longrightarrow> i = j"
  using minus_not_digits minus_not_digits [symmetric]
  by (auto simp: int_to_string_def eq_nat_nat_iff dest!: nat_to_string_inject split: if_splits)

section \<open>A reference printer\<close>

text \<open>
  Payloads without unsigned integers whose text is unambiguous. A word is a string that could not be
  taken for another value.
\<close>

definition word :: "string \<Rightarrow> bool" where
  "word s \<longleftrightarrow> s \<noteq> [] \<and> CHR '' '' \<notin> set s \<and> CHR '']'' \<notin> set s \<and> hd s \<noteq> CHR ''['' \<and>
     hd s \<noteq> CHR ''-'' \<and> \<not> is_digit (hd s) \<and> s \<notin> {''nil'', ''true'', ''false''}"

fun plain :: "json \<Rightarrow> bool" where
  "plain nullValue = True"
| "plain (intValue i) = True"
| "plain (stringValue s) = word s"
| "plain (booleanValue b) = True"
| "plain (arrayValue js) = list_all plain js"
| "plain j = False"

fun rendered :: "json \<Rightarrow> string" and rendered_rest :: "json list \<Rightarrow> string" where
  "rendered nullValue = ''nil''"
| "rendered (intValue i) = int_to_string i"
| "rendered (stringValue s) = s"
| "rendered (booleanValue b) = (if b then ''true'' else ''false'')"
| "rendered (arrayValue []) = ''[]''"
| "rendered (arrayValue (j # js)) = CHR ''['' # rendered j @ rendered_rest js @ '']''"
| "rendered j = []"
| "rendered_rest [] = []"
| "rendered_rest (j # js) = CHR '' '' # rendered j @ rendered_rest js"

lemma rendered_array:
  "rendered (arrayValue js) = CHR ''['' # (case js of [] \<Rightarrow> [] | j # ks \<Rightarrow> rendered j @ rendered_rest ks) @ '']''"
  by (cases js) simp_all

text \<open>The text does not show whether an integer is unsigned.\<close>

fun signless :: "json \<Rightarrow> json" where
  "signless (uintValue i) = intValue i"
| "signless (arrayValue js) = arrayValue (map signless js)"
| "signless j = j"

definition in_u32 :: "int \<Rightarrow> bool" where
  "in_u32 i \<longleftrightarrow> 0 \<le> i \<and> i < 2 ^ 32"

text \<open>The payloads considered, with integers of both kinds.\<close>

fun printable :: "json \<Rightarrow> bool" where
  "printable nullValue = True"
| "printable (intValue i) = in_i32 i"
| "printable (uintValue i) = in_u32 i"
| "printable (stringValue s) = word s"
| "printable (booleanValue b) = True"
| "printable (arrayValue js) = list_all printable js"
| "printable j = False"

lemma printable_plain: "printable v \<Longrightarrow> plain (signless v)"
  by (induction v) (auto simp: list_all_iff)

lemma json_to_string_rendered:
  assumes "\<And>i. in_i32 i \<Longrightarrow> asInt J (intValue i) = Inr i"
    and "\<And>i. in_u32 i \<Longrightarrow> asUInt J (uintValue i) = Inr i"
  shows "printable v \<Longrightarrow> json_to_string J v = Inr (rendered (signless v))"
proof (induction v)
  case (arrayValue js)
  have join: "list_all (\<lambda>j. json_to_string J j = Inr (rendered (signless j))) js \<Longrightarrow>
      join_elements J js = Inr (case map signless js of [] \<Rightarrow> [] | j # ks \<Rightarrow> rendered j @ rendered_rest ks)" for js
  proof (induction js)
    case (Cons j js)
    then show ?case by (cases js) auto
  qed simp
  have "list_all (\<lambda>j. json_to_string J j = Inr (rendered (signless j))) js"
    using arrayValue by (simp add: list_all_iff)
  then show ?case unfolding signless.simps rendered_array by (simp add: join)
qed (simp_all add: assms)

section \<open>It is injective\<close>

text \<open>Values that are not arrays are tokens, which end at a space or a bracket.\<close>

definition ends :: "string \<Rightarrow> bool" where
  "ends r \<longleftrightarrow> r = [] \<or> hd r = CHR '' '' \<or> hd r = CHR '']''"

definition token :: "string \<Rightarrow> bool" where
  "token t \<longleftrightarrow> t \<noteq> [] \<and> hd t \<noteq> CHR ''['' \<and> CHR '' '' \<notin> set t \<and> CHR '']'' \<notin> set t"

lemma token_take: "token t \<Longrightarrow> ends r \<Longrightarrow> takeWhile (\<lambda>c. c \<noteq> CHR '' '' \<and> c \<noteq> CHR '']'') (t @ r) = t"
  by (cases r) (auto simp: token_def ends_def takeWhile_append)

lemma token_split: "token t \<Longrightarrow> token u \<Longrightarrow> ends r \<Longrightarrow> ends s \<Longrightarrow> t @ r = u @ s \<Longrightarrow> t = u \<and> r = s"
  using token_take [of t r] token_take [of u s] by simp

lemma int_token: "token (int_to_string i)"
proof -
  have "c \<noteq> CHR '' ''" "c \<noteq> CHR '']''" "c \<noteq> CHR ''[''" if "c \<in> set (int_to_string i)" for c
    using int_to_string_token(3) [OF that] by (auto simp: no_digits)
  then show ?thesis
    unfolding token_def using int_to_string_token(2) [of i] hd_in_set by blast
qed

lemma plain_token: "plain v \<Longrightarrow> (\<And>js. v \<noteq> arrayValue js) \<Longrightarrow> token (rendered v)"
  by (cases v) (auto simp: int_token, auto simp: token_def word_def)

lemma int_text:
  assumes "plain x" "\<And>js. x \<noteq> arrayValue js" and eq: "rendered x = int_to_string i"
  shows "x = intValue i"
proof (cases "\<exists>j. x = intValue j")
  case True
  then show ?thesis using eq by (auto dest: int_to_string_inject)
next
  case False
  then have "\<not> is_digit (hd (rendered x)) \<and> hd (rendered x) \<noteq> CHR ''-''"
    using assms(1,2) by (cases x) (auto simp: word_def no_digits)
  then show ?thesis using int_to_string_token(1) [of i] unfolding eq by blast
qed

lemma text_inject:
  "plain v \<Longrightarrow> plain w \<Longrightarrow> (\<And>js. v \<noteq> arrayValue js) \<Longrightarrow> (\<And>js. w \<noteq> arrayValue js) \<Longrightarrow>
     (\<And>i. v \<noteq> intValue i) \<Longrightarrow> (\<And>i. w \<noteq> intValue i) \<Longrightarrow> rendered v = rendered w \<Longrightarrow> v = w"
  by (cases v; simp; cases w; simp add: word_def split: if_splits; fastforce)

lemma scalar_inject:
  assumes "plain v" "plain w" "\<And>js. v \<noteq> arrayValue js" "\<And>js. w \<noteq> arrayValue js" "rendered v = rendered w"
  shows "v = w"
proof -
  consider i where "v = intValue i" | i where "w = intValue i"
    | "\<And>i. v \<noteq> intValue i" "\<And>i. w \<noteq> intValue i" by blast
  then show ?thesis
  proof cases
    case 1
    then show ?thesis using int_text [OF assms(2,4)] assms(5) by simp
  next
    case 2
    then show ?thesis using int_text [OF assms(1,3)] assms(5) by simp
  next
    case 3
    then show ?thesis using text_inject assms by blast
  qed
qed

lemma head_of_array:
  assumes "plain v"
  shows "hd (rendered v @ r) = CHR ''['' \<longleftrightarrow> (\<exists>js. v = arrayValue js)"
    and "hd (rendered v @ r) \<noteq> CHR '']''"
proof -
  have "token t \<Longrightarrow> hd (t @ r) \<noteq> CHR ''['' \<and> hd (t @ r) \<noteq> CHR '']''" for t
    by (cases t) (auto simp: token_def)
  then show "hd (rendered v @ r) = CHR ''['' \<longleftrightarrow> (\<exists>js. v = arrayValue js)"
    "hd (rendered v @ r) \<noteq> CHR '']''"
    using plain_token [OF assms] by (cases "\<exists>js. v = arrayValue js"; force simp: rendered_array)+
qed

lemma scalar_split:
  assumes "plain v" "plain w" "\<And>js. v \<noteq> arrayValue js" "ends r" "ends s" "rendered v @ r = rendered w @ s"
  shows "v = w \<and> r = s"
proof -
  have w: "\<And>js. w \<noteq> arrayValue js"
    using head_of_array(1) [OF assms(1), of r] head_of_array(1) [OF assms(2), of s] assms(3,6) by metis
  have "rendered v = rendered w \<and> r = s"
    by (rule token_split [OF plain_token [OF assms(1,3)] plain_token [OF assms(2) w] assms(4-6)])
  then show ?thesis using scalar_inject [OF assms(1,2,3) w] by blast
qed

lemma rest_ends: "ends (rendered_rest js @ CHR '']'' # r)"
  by (cases js) (simp_all add: ends_def)

lemma rendered_split:
  "plain v \<Longrightarrow> plain w \<Longrightarrow> ends r \<Longrightarrow> ends s \<Longrightarrow> rendered v @ r = rendered w @ s \<Longrightarrow> v = w \<and> r = s"
proof (induction v arbitrary: w r s)
  case (arrayValue js)
  have rest: "xs = ys \<and> r = s"
    if "set xs \<subseteq> set js" "list_all plain ys"
      "rendered_rest xs @ CHR '']'' # r = rendered_rest ys @ CHR '']'' # s" for xs ys
    using that
  proof (induction xs arbitrary: ys)
    case Nil
    then show ?case by (cases ys) auto
  next
    case (Cons x xs)
    then obtain y zs where ys: "ys = y # zs" by (cases ys) auto
    have "x = y \<and> rendered_rest xs @ CHR '']'' # r = rendered_rest zs @ CHR '']'' # s"
      by (rule arrayValue.IH) (use Cons.prems ys arrayValue.prems(1) rest_ends in \<open>auto simp: list_all_iff\<close>)
    then show ?case using Cons ys by auto
  qed
  obtain ks where w: "w = arrayValue ks"
    using head_of_array(1) [of w s] head_of_array(1) [of "arrayValue js" r] arrayValue.prems by metis
  show ?case
  proof (cases js)
    case Nil
    then show ?thesis
      using arrayValue.prems w head_of_array(2) by (cases ks) (auto, metis append_assoc list.sel(1))
  next
    case (Cons x xs)
    then obtain y ys where ks: "ks = y # ys"
      using arrayValue.prems w head_of_array(2) by (cases ks) (auto, metis append_assoc list.sel(1))
    have "x = y \<and> rendered_rest xs @ CHR '']'' # r = rendered_rest ys @ CHR '']'' # s"
      by (rule arrayValue.IH) (use arrayValue.prems w ks Cons rest_ends in \<open>auto simp: list_all_iff\<close>)
    then show ?thesis using rest [of xs ys] arrayValue.prems(2) w ks Cons by auto
  qed
qed (rule scalar_split; simp; fail)+

text \<open>
  C38. The value shown in the log for the payload of an operation is the text of a reference printer,
  for payloads of signed and unsigned 32-bit integers, truth values, words and nested arrays; two such
  payloads have the same text exactly when they are the same but for the signedness of their
  integers, which the log does not show. It takes an \<open>asInt\<close> and an \<open>asUInt\<close> that give the number, as
  those of jsoncpp do in the ranges of \<open>int\<close> and \<open>unsigned\<close>.
\<close>

theorem rendering_faithful:
  assumes "\<And>i. in_i32 i \<Longrightarrow> asInt J (intValue i) = Inr i"
    and "\<And>i. in_u32 i \<Longrightarrow> asUInt J (uintValue i) = Inr i" and "printable v" and "printable w"
  shows "json_to_string J v = Inr (rendered (signless v)) \<and>
    (json_to_string J w = json_to_string J v \<longleftrightarrow> signless w = signless v)"
proof -
  have "rendered (signless w) = rendered (signless v) \<Longrightarrow> signless w = signless v"
    using rendered_split [OF printable_plain [OF assms(4)] printable_plain [OF assms(3)], of "[]" "[]"]
    by (simp add: ends_def)
  then show ?thesis
    using json_to_string_rendered [of J, OF assms(1,2,3)] json_to_string_rendered [of J, OF assms(1,2,4)]
    by auto
qed

text \<open>
  A nested array; a read that found nothing and one that found 7; and two writes of 7, one of them with
  an unsigned number.
\<close>

definition plain_lib :: json_lib where
  "plain_lib =
     \<lparr>asInt = (\<lambda>j. case j of intValue i \<Rightarrow> Inr i | _ \<Rightarrow> Inl LogicError),
      asUInt = (\<lambda>j. case j of uintValue i \<Rightarrow> Inr i | _ \<Rightarrow> Inl LogicError), double_to_string = (\<lambda>d. []),
      append_to = (\<lambda>j x. case j of arrayValue js \<Rightarrow> arrayValue (js @ [x]) | _ \<Rightarrow> arrayValue [x]),
      index_ref = (\<lambda>j k. (nullValue, j)), set_member = (\<lambda>j k x. objectValue [(k, x)])\<rparr>"

theorem rendering_faithful_witness:
  "json_to_string plain_lib (arrayValue [stringValue ''x'', arrayValue [intValue (- 7), booleanValue True]]) =
     Inr ''[x [-7 true]]'' \<and>
   json_to_string plain_lib (arrayValue [stringValue ''x'', nullValue]) \<noteq>
     json_to_string plain_lib (arrayValue [stringValue ''x'', uintValue 7]) \<and>
   json_to_string plain_lib (arrayValue [stringValue ''x'', intValue 7]) =
     json_to_string plain_lib (arrayValue [stringValue ''x'', uintValue 7])"
proof -
  have ints: "\<And>i. in_i32 i \<Longrightarrow> asInt plain_lib (intValue i) = Inr i"
    "\<And>i. in_u32 i \<Longrightarrow> asUInt plain_lib (uintValue i) = Inr i"
    by (simp_all add: plain_lib_def)
  have x: "word ''x''" by (simp add: word_def is_digit_def)
  let ?v = "arrayValue [stringValue ''x'', arrayValue [intValue (- 7), booleanValue True]]"
    and ?n = "arrayValue [stringValue ''x'', nullValue]"
    and ?i = "arrayValue [stringValue ''x'', intValue 7]" and ?u = "arrayValue [stringValue ''x'', uintValue 7]"
  have "int_to_string (- 7) = ''-7''" by code_simp
  then have v: "printable ?v" "rendered (signless ?v) = ''[x [-7 true]]''" by (simp_all add: x in_i32_def)
  have others: "printable ?n" "printable ?i" "printable ?u" "signless ?n \<noteq> signless ?u" "signless ?i = signless ?u"
    by (simp_all add: x in_i32_def in_u32_def)
  show ?thesis
    using rendering_faithful [OF ints v(1) v(1)] rendering_faithful [OF ints others(3,1)]
      rendering_faithful [OF ints others(3,2)] others(4,5) unfolding v(2) by metis
qed

end
