(* ===== verification/Etcd_Client.thy ===== *)
theory Etcd_Client
  imports Rendering Runner_Properties
begin

text \<open>
  The client of the etcd test (\<open>test/etcd/ETCDClient.h\<close>, \<open>ETCDClient.cpp\<close>) as a class of
  clients. The etcd library is the parameter record \<open>etcd_lib\<close>: its calls return a response or
  raise, and may do anything to the world. The accessors of jsoncpp the client uses are the
  parameter record \<open>json_access\<close>. \<open>std::stoi\<close> belongs to the standard library and is modelled.
\<close>

section \<open>std::stoi\<close>

text \<open>White space, a sign, digits; \<open>invalid_argument\<close> without a digit, else \<open>out_of_range\<close>.\<close>

definition stoi :: "string \<Rightarrow> int res" where
  "stoi s =
     (let s1 = dropWhile isspace s;
          neg = (s1 \<noteq> [] \<and> hd s1 = CHR ''-'');
          s2 = (if s1 \<noteq> [] \<and> (hd s1 = CHR ''-'' \<or> hd s1 = CHR ''+'') then tl s1 else s1);
          ds = takeWhile is_digit s2;
          v = (if neg then - int (digits_value 0 ds) else int (digits_value 0 ds)) in
      if ds = [] then Inl LogicError
      else if in_i32 v then Inr v else Inl OutOfRange)"

lemma digit_facts: "is_digit c \<Longrightarrow> \<not> isspace c \<and> c \<noteq> CHR ''-'' \<and> c \<noteq> CHR ''+''"
  by (auto simp: is_digit_def isspace_def)

text \<open>It reads back what \<open>std::to_string\<close> wrote.\<close>

lemma stoi_to_string: "in_i32 i \<Longrightarrow> stoi (int_to_string i) = Inr i"
proof -
  assume i: "in_i32 i"
  obtain n where n: "n = nat \<bar>i\<bar>" by simp
  let ?ds = "nat_to_string n"
  have ds: "list_all is_digit ?ds" "?ds \<noteq> []" "digits_value 0 ?ds = n"
    using nat_to_string_digits [of n] by auto
  then obtain c cs where c: "?ds = c # cs" "is_digit c" by (cases ?ds) auto
  have take: "takeWhile is_digit ?ds = ?ds"
    using ds(1) by (simp add: takeWhile_eq_all_conv list_all_iff)
  have drop: "dropWhile isspace ?ds = ?ds" using c digit_facts by simp
  have space: "\<not> isspace CHR ''-''" by (simp add: isspace_def)
  show ?thesis
  proof (cases "i < 0")
    case True
    then have "nat (- i) = n" "i = - int n" using n by auto
    then show ?thesis
      using True i ds(2,3) space by (simp add: stoi_def int_to_string_def Let_def take)
  next
    case False
    then have eq: "nat i = n" "i = int n" using n by auto
    have "hd ?ds \<noteq> CHR ''-''" "hd ?ds \<noteq> CHR ''+''" using c digit_facts by simp_all
    then show ?thesis
      using False eq i ds(2,3) by (simp add: stoi_def int_to_string_def Let_def take drop)
  qed
qed

section \<open>The client\<close>

record etcd_response =
  is_ok :: bool
  value_string :: string

record ('e, 'w) etcd_lib =
  etcd_new :: "string \<Rightarrow> ('w, 'e) act"
  etcd_put :: "string \<Rightarrow> string \<Rightarrow> 'e \<Rightarrow> ('w, etcd_response) act"
  etcd_get :: "string \<Rightarrow> 'e \<Rightarrow> ('w, etcd_response) act"
  etcd_modify_if :: "string \<Rightarrow> string \<Rightarrow> string \<Rightarrow> 'e \<Rightarrow> ('w, etcd_response) act"

text \<open>
  \<open>at_index\<close> is \<open>operator[]\<close> on an array index, with the value and the array, which grows when
  the element is not there; \<open>set_index\<close> assigns an element.
\<close>

record json_access =
  at_index :: "json \<Rightarrow> nat \<Rightarrow> (json \<times> json) res"
  asString :: "json \<Rightarrow> string res"
  set_index :: "json \<Rightarrow> nat \<Rightarrow> json \<Rightarrow> json res"

record 'e etcd_client =
  ec_client :: "'e option"
  ec_node :: string

definition ETCDClient_nodeURL :: "string \<Rightarrow> int \<Rightarrow> string" where
  "ETCDClient_nodeURL node port = ''http://'' @ node @ '':'' @ int_to_string port"

definition ETCDClient_peerURL :: "string \<Rightarrow> string" where
  "ETCDClient_peerURL node = ETCDClient_nodeURL node 2380"

definition ETCDClient_clientURL :: "string \<Rightarrow> string" where
  "ETCDClient_clientURL node = ETCDClient_nodeURL node 2379"

definition ETCDClient_open ::
  "('e, 'w) etcd_lib \<Rightarrow> string \<Rightarrow> 'e etcd_client \<Rightarrow> ('w, bool \<times> 'e etcd_client) act" where
  "ETCDClient_open E node c =
     act_bind (etcd_new E (ETCDClient_clientURL node)) (\<lambda>e.
       act_return (True, c\<lparr>ec_node := node, ec_client := Some e\<rparr>))"

text \<open>\<open>op.op[i].asString()\<close>, and \<open>client->\<close>.\<close>

definition arg_string :: "json_access \<Rightarrow> nat \<Rightarrow> operation \<Rightarrow> ('w, string \<times> operation) act" where
  "arg_string A i op =
     act_bind (act_lift (at_index A (op_info op) i)) (\<lambda>(v, info).
       act_bind (act_lift (asString A v)) (\<lambda>s. act_return (s, op\<lparr>op_info := info\<rparr>)))"

definition deref_client :: "'e etcd_client \<Rightarrow> ('w, 'e) act" where
  "deref_client c = (case ec_client c of None \<Rightarrow> act_raise NullDeref | Some e \<Rightarrow> act_return e)"

definition mark :: "etcd_response \<Rightarrow> operation \<Rightarrow> operation" where
  "mark response op = op\<lparr>op_type := (if is_ok response then kSuccess else kFailed)\<rparr>"

definition ETCDClient_invoke ::
  "json_access \<Rightarrow> ('e, 'w) etcd_lib \<Rightarrow> operation \<Rightarrow> 'e etcd_client
     \<Rightarrow> ('w, bool \<times> operation \<times> 'e etcd_client) act" where
  "ETCDClient_invoke A E op c =
     (if op_type op \<noteq> kInvoke then act_return (False, op, c)
      else if op_func op = ''write'' then
        act_bind (arg_string A 0 op) (\<lambda>(key, op1).
          act_bind (arg_string A 1 op1) (\<lambda>(val, op2).
            act_bind (deref_client c) (\<lambda>e.
              act_bind (etcd_put E key val e) (\<lambda>response.
                act_return (True, mark response op2, c)))))
      else if op_func op = ''read'' then
        act_bind (arg_string A 0 op) (\<lambda>(key, op1).
          act_bind (deref_client c) (\<lambda>e.
            act_bind (etcd_get E key e) (\<lambda>response.
              if is_ok response then
                act_bind (act_lift (stoi (value_string response))) (\<lambda>v.
                  act_bind (act_lift (set_index A (op_info op1) 1 (intValue v))) (\<lambda>info.
                    act_return (True, (mark response op1)\<lparr>op_info := info\<rparr>, c)))
              else act_return (True, mark response op1, c))))
      else if op_func op = ''cas'' then
        act_bind (arg_string A 0 op) (\<lambda>(key, op1).
          act_bind (arg_string A 1 op1) (\<lambda>(val, op2).
            act_bind (arg_string A 2 op2) (\<lambda>(old, op3).
              act_bind (deref_client c) (\<lambda>e.
                act_bind (etcd_modify_if E key val old e) (\<lambda>response.
                  act_return (True, mark response op3, c))))))
      else act_return (True, op, c))"

definition ETCDClient :: "json_access \<Rightarrow> ('e, 'w) etcd_lib \<Rightarrow> ('e etcd_client, 'w) client_class" where
  "ETCDClient A E =
     \<lparr>cl_create = act_return \<lparr>ec_client = None, ec_node = []\<rparr>,
      cl_open = ETCDClient_open E,
      cl_close = (\<lambda>c. act_return (True, c)),
      cl_setup = (\<lambda>c. act_return (True, c)),
      cl_invoke = ETCDClient_invoke A E,
      cl_teardown = (\<lambda>c. act_return (True, c))\<rparr>"

section \<open>What it keeps\<close>

lemma arg_string_fields:
  assumes "arg_string A i op s = (Inr (v, op'), s')"
  shows "op_type op' = op_type op \<and> op_func op' = op_func op \<and> op_process op' = op_process op \<and>
    op_time op' = op_time op \<and> op_helper op' = op_helper op \<and> s' = s"
  using assms by (auto simp: arg_string_def res_simps)

definition etcd_funcs :: "string set" where
  "etcd_funcs = {''write'', ''read'', ''cas''}"

lemma ETCDClient_invoke_frame:
  assumes "ETCDClient_invoke A E op c s = (Inr (b, op', c'), s')"
  shows "c' = c" and "b \<longleftrightarrow> op_type op = kInvoke"
    and "op_process op' = op_process op" and "op_time op' = op_time op" and "op_func op' = op_func op"
    and "op_type op' \<in> (if op_type op = kInvoke \<and> op_func op \<in> etcd_funcs
                       then {kSuccess, kFailed} else {op_type op})"
proof -
  have "c' = c \<and> (b \<longleftrightarrow> op_type op = kInvoke) \<and> op_process op' = op_process op \<and>
    op_time op' = op_time op \<and> op_func op' = op_func op \<and>
    op_type op' \<in> (if op_type op = kInvoke \<and> op_func op \<in> etcd_funcs
                       then {kSuccess, kFailed} else {op_type op})"
    using assms unfolding ETCDClient_invoke_def
    by (auto simp: res_simps mark_def etcd_funcs_def dest!: arg_string_fields split: if_splits)
  then show "c' = c" "b \<longleftrightarrow> op_type op = kInvoke" "op_process op' = op_process op"
    "op_time op' = op_time op" "op_func op' = op_func op"
    "op_type op' \<in> (if op_type op = kInvoke \<and> op_func op \<in> etcd_funcs
                       then {kSuccess, kFailed} else {op_type op})" by simp_all
qed

interpretation etcd_client: client_contract "ETCDClient A E" "{kSuccess, kFailed, kInvoke}" for A E
proof unfold_locales
  fix op c s b op' c' s'
  assume "cl_invoke (ETCDClient A E) op c s = (Inr (b, op', c'), s')"
  then have inv: "ETCDClient_invoke A E op c s = (Inr (b, op', c'), s')"
    by (simp add: ETCDClient_def)
  show "op_process op' = op_process op" by (rule ETCDClient_invoke_frame(3) [OF inv])
  show "op_type op' \<in> {kSuccess, kFailed, kInvoke}" if "op_type op = kInvoke"
    using ETCDClient_invoke_frame(6) [OF inv] that by (auto split: if_splits)
qed

section \<open>Runs with the etcd client\<close>

lemma closed_last:
  assumes "open_after C False h = Some False" and "h \<noteq> []"
  shows "op_type (last h) \<in> C"
proof -
  obtain xs x where "h = xs @ [x]" using assms(2) by (cases h rule: rev_cases) auto
  then show ?thesis
    using assms(1) by (auto simp: open_after_append split: option.splits bool.splits if_splits)
qed

lemma processes_fixed:
  assumes inv: "ctx_inv n c" and hist: "histories n C c h" and C: "kInfo \<notin> C" and n: "0 < n"
    and p: "map_of (workers c) t = Some p"
  shows "p = t"
proof (rule ccontr)
  assume "p \<noteq> t"
  then have t: "0 \<le> t" "t < n" "t < p" using ctx_inv_worker_range [OF inv p] by auto
  then have "t mod n = t" by simp
  then have "retired C (proc_ops t h)"
    using hist t p by (auto simp: histories_def proc_ok_def)
  then show False using closed_last C by (metis retired_def)
qed

lemma no_late_process:
  assumes inv: "ctx_inv n c" and hist: "histories n C c h" and C: "kInfo \<notin> C" and n: "0 < n"
    and o1: "o1 \<in> set h" "0 \<le> op_process o1"
  shows "op_process o1 < n \<and> op_type o1 \<noteq> kInfo"
proof -
  let ?q = "op_process o1"
  obtain p where p: "map_of (workers c) (?q mod n) = Some p" using inv n by (rule current_process)
  have "p = ?q mod n" by (rule processes_fixed [OF inv hist C n p])
  moreover have "o1 \<in> set (proc_ops ?q h)" using o1(1) by (simp add: proc_ops_def)
  moreover have "proc_ok n C c h ?q" using hist o1(2) by (simp add: histories_def)
  ultimately have "?q \<le> ?q mod n" "?q < ?q mod n \<longrightarrow> False" "op_type o1 \<noteq> kInfo"
    using p o1(2) n pos_mod_bound [of n ?q] zmod_le_nonneg_dividend [of ?q n]
    by (auto simp: proc_ok_def)
  then show ?thesis using pos_mod_bound [OF n, of ?q] by auto
qed

text \<open>
  C28. The etcd client never reports an indeterminate outcome, whatever the library does: in a
  run with it no process is ever replaced, and every completion of a client is a success or a
  failure (or an operation it does not know, handed back).
\<close>

theorem etcd_run_keeps_processes:
  assumes "client_contract N D" and "0 < n" and "good_gen g" and "g \<noteq> None"
    and "run_reaches d (ETCDClient A E) N nodes n g s"
    and "r_phase (s_run s) \<in> {Polling, Joining, Done}"
  shows "(\<forall>t p. map_of (workers (r_ctx (s_run s))) t = Some p \<longrightarrow> p = t) \<and>
    (\<forall>o1 \<in> set (r_history (s_run s)). 0 \<le> op_process o1 \<longrightarrow>
       op_process o1 < n \<and> op_type o1 \<noteq> kInfo)"
proof -
  have "ctx_inv n (r_ctx (s_run s)) \<and>
      histories n {kSuccess, kFailed, kInvoke} (r_ctx (s_run s)) (r_history (s_run s))"
    using run_inv [OF etcd_client.client_contract_axioms assms(1-5)] assms(6)
    by (auto simp: sys_inv_def drained_def dest: accountsD(1))
  then show ?thesis
    using processes_fixed no_late_process assms(2)
    by (metis (no_types, lifting) empty_iff insert_iff op_kind.distinct)
qed

text \<open>
  An array access that behaves as documented on arrays of strings and integers, and an etcd that
  holds one key.
\<close>

definition array_access :: json_access where
  "array_access =
     \<lparr>at_index = (\<lambda>j i.
        case j of
          arrayValue js \<Rightarrow>
            Inr (if i < length js then js ! i else nullValue,
                 arrayValue (if i < length js then js else js @ replicate (i + 1 - length js) nullValue))
        | nullValue \<Rightarrow> Inr (nullValue, arrayValue (replicate (i + 1) nullValue))
        | _ \<Rightarrow> Inl LogicError),
      asString = (\<lambda>j.
        case j of
          nullValue \<Rightarrow> Inr []
        | stringValue s \<Rightarrow> Inr s
        | intValue i \<Rightarrow> Inr (int_to_string i)
        | uintValue i \<Rightarrow> Inr (int_to_string i)
        | _ \<Rightarrow> Inl LogicError),
      set_index = (\<lambda>j i v.
        case j of
          arrayValue js \<Rightarrow>
            Inr (arrayValue
              ((js @ replicate (i + 1 - length js) nullValue)[i := v]))
        | _ \<Rightarrow> Inl LogicError)\<rparr>"

definition one_key_etcd :: "(unit, string) etcd_lib" where
  "one_key_etcd =
     \<lparr>etcd_new = (\<lambda>url. act_return ()),
      etcd_put = (\<lambda>key val e w. (Inr \<lparr>is_ok = True, value_string = []\<rparr>, val)),
      etcd_get = (\<lambda>key e w. (Inr \<lparr>is_ok = True, value_string = w\<rparr>, w)),
      etcd_modify_if = (\<lambda>key val old e w.
        (Inr \<lparr>is_ok = (w = old), value_string = []\<rparr>, if w = old then val else w))\<rparr>"

definition down_etcd :: "(unit, unit) etcd_lib" where
  "down_etcd =
     \<lparr>etcd_new = (\<lambda>url. act_return ()),
      etcd_put = (\<lambda>key val e. act_return \<lparr>is_ok = False, value_string = []\<rparr>),
      etcd_get = (\<lambda>key e. act_return \<lparr>is_ok = False, value_string = []\<rparr>),
      etcd_modify_if = (\<lambda>key val old e. act_return \<lparr>is_ok = False, value_string = []\<rparr>)\<rparr>"

abbreviation idle_nemesis :: "(unit etcd_client, unit) client_class" where
  "idle_nemesis \<equiv> NoopNemesis \<lparr>ec_client = None, ec_node = []\<rparr>"

lemma demo_etcd:
  "(case demo_run (ETCDClient array_access down_etcd) idle_nemesis demo_actions of
      Some s \<Rightarrow> r_phase (s_run s) = Joining \<and>
        map op_type (r_history (s_run s)) = [kInvoke, kFailed] \<and>
        list_all (\<lambda>o1. op_process o1 = 0) (r_history (s_run s))
    | None \<Rightarrow> False)"
  by code_simp

theorem etcd_run_keeps_processes_witness:
  "\<exists>s :: (unit etcd_client, unit) sys. map op_type (r_history (s_run s)) = [kInvoke, kFailed] \<and>
     map_of (workers (r_ctx (s_run s))) 0 = Some 0"
proof (cases "demo_run (ETCDClient array_access down_etcd) idle_nemesis demo_actions")
  case None
  then show ?thesis using demo_etcd by simp
next
  case (Some s)
  note reach = demo_reaches [OF Some]
  have phase: "r_phase (s_run s) \<in> {Polling, Joining, Done}" using Some demo_etcd by simp
  note keeps = etcd_run_keeps_processes
    [OF noop_nemesis.client_contract_axioms _ demo_good reach phase]
  have "sys_inv 1 {kSuccess, kFailed, kInvoke} good_gen s"
    by (rule run_inv [OF etcd_client.client_contract_axioms noop_nemesis.client_contract_axioms _
          demo_good reach]) simp
  then have "ctx_inv 1 (r_ctx (s_run s))"
    using Some demo_etcd by (simp add: sys_inv_def drained_def)
  then obtain p where "map_of (workers (r_ctx (s_run s))) (0 mod 1) = Some p"
    using current_process [of 1 "r_ctx (s_run s)" 0] by auto
  then have "map_of (workers (r_ctx (s_run s))) 0 = Some 0" using keeps by auto
  moreover have "map op_type (r_history (s_run s)) = [kInvoke, kFailed]" using Some demo_etcd by simp
  ultimately show ?thesis by (intro exI [of _ s] conjI)
qed

text \<open>
  C29. A value that is not a number hangs the test: when a client process is about to read a key and etcd
  answers with a value that \<open>std::stoi\<close> rejects, its worker ends with the exception, and from then on
  no schedule reaches the end of the run; the history is never saved.
\<close>

theorem etcd_bad_value_hangs:
  assumes contract: "client_contract N D" and n: "0 < n" and g: "good_gen g" "g \<noteq> None"
    and reach: "run_reaches d (ETCDClient A E) N nodes n g s" and poll: "r_phase (s_run s) = Polling"
    and w: "map_of (s_workers s) t = Some w" "t \<noteq> kNemesisProcess" "w_status w = Running" "w_in w = op1 # q"
    and session: "w_process w = op_process op1" "w_client w = Some c" "ec_client c = Some e"
    and read: "op_func op1 = ''read''" "at_index A (op_info op1) 0 = Inr (k, info)" "asString A k = Inr key"
    and answer: "etcd_get E key e (s_world s) = (Inr response, v)" "is_ok response"
      "stoi (value_string response) = Inl x"
  shows "\<exists>s1. sys_exec (gen_op d) gen_update (ETCDClient A E) N (Work t) s = Some s1 \<and>
    (\<forall>s'. sys_steps (gen_op d) gen_update (ETCDClient A E) N s1 s' \<longrightarrow>
       r_phase (s_run s') \<noteq> Joining \<and> r_phase (s_run s') \<noteq> Done)"
proof -
  have sys: "runner_system (gen_op d) gen_update good_gen (ETCDClient A E) {kSuccess, kFailed, kInvoke} N D n"
    by (rule runner_systemI [OF etcd_client.client_contract_axioms contract n])
  have inv: "sys_inv n {kSuccess, kFailed, kInvoke} good_gen s"
    by (rule run_inv [OF etcd_client.client_contract_axioms contract n g reach])
  then have acc: "accounts n {kSuccess, kFailed, kInvoke} (r_ctx (s_run s)) (r_outstanding (s_run s))
      (s_workers s) (s_completions s)"
    using poll by (simp add: sys_inv_def)
  then have ok: "op_type op1 = kInvoke" "op_process op1 \<noteq> kInvalidProcess" "w_kind w = ClientKind"
    using accountsD(4) [OF acc w(1)] w(2,4) ctx_inv_worker_range [OF accountsD(1) [OF acc]]
    by (fastforce simp: worker_ok_def)+
  have "ETCDClient_invoke A E op1 c (s_world s) = (Inl x, v)"
    using ok read session answer
    by (simp add: ETCDClient_invoke_def arg_string_def deref_client_def act_bind_def act_lift_def act_return_def)
  then have "runAsync_iter (ETCDClient A E) N w (s_world s) = (w\<lparr>w_in := q, w_status := Crashed x\<rparr>, [], v)"
    using ok w(4) session
    by (simp add: runAsync_iter_def Worker_invoke_def ClientWorker_invoke_def ETCDClient_def act_bind_def
        act_return_def)
  then have exec: "sys_exec (gen_op d) gen_update (ETCDClient A E) N (Work t) s =
      Some (s\<lparr>s_workers := AList.update t (w\<lparr>w_in := q, w_status := Crashed x\<rparr>) (s_workers s),
              s_completions := s_completions s, s_world := v\<rparr>)" (is "_ = Some ?s1")
    using w poll by simp
  have crashed: "r_phase (s_run ?s1) = Polling" "worker_has (s_workers ?s1) t (Crashed x)"
    using poll by (simp_all add: worker_has_def update_conv')
  have inv1: "sys_inv n {kSuccess, kFailed, kInvoke} good_gen ?s1"
    by (rule runner_system.step_inv [OF sys sys_exec_step [OF exec] inv])
  have "r_phase (s_run s') \<noteq> Joining \<and> r_phase (s_run s') \<noteq> Done"
    if "sys_steps (gen_op d) gen_update (ETCDClient A E) N ?s1 s'" for s'
    using runner_system.crash_steps [OF sys that inv1 crashed] by auto
  then show ?thesis using exec by blast
qed


lemma array_access_laws:
  "i < length js \<Longrightarrow> at_index array_access (arrayValue js) i = Inr (js ! i, arrayValue js)"
  "i < length js \<Longrightarrow> set_index array_access (arrayValue js) i v = Inr (arrayValue (js[i := v]))"
  "asString array_access (stringValue s) = Inr s"
  "asString array_access (intValue n) = Inr (int_to_string n)"
  by (simp_all add: array_access_def)

lemma one_key_etcd_laws:
  "etcd_put one_key_etcd key val e w = (Inr \<lparr>is_ok = True, value_string = []\<rparr>, val)"
  "etcd_get one_key_etcd key e w = (Inr \<lparr>is_ok = True, value_string = w\<rparr>, w)"
  by (simp_all add: one_key_etcd_def)


text \<open>A key whose value is a word: it is written, and then about to be read by the same process.\<close>

definition word_ops :: "operation list" where
  "word_ops = [Operation_of ''write'' (arrayValue [stringValue ''x'', stringValue ''abc'']) kInit,
     Operation_of ''read'' (arrayValue [stringValue ''x'', nullValue]) kInit]"

definition word_nemesis :: "(unit etcd_client, string) client_class" where
  "word_nemesis = NoopNemesis \<lparr>ec_client = None, ec_node = []\<rparr>"

definition word_state :: "(unit etcd_client, string) sys option" where
  "word_state =
     (case runCases_init word_nemesis [''n1''] 1 0 (setGenerator (createGenerator_ops word_ops)) [] of
        Inl e \<Rightarrow> None
      | Inr s \<Rightarrow> sys_execs (gen_op 6) gen_update (ETCDClient array_access one_key_etcd) word_nemesis
          [Ask 5 [1], Work 0, Take 0 7, Ask 8 [1]] s)"

lemma word_state_reads:
  "(case word_state of
      None \<Rightarrow> False
    | Some s \<Rightarrow> r_phase (s_run s) = Polling \<and> s_world s = ''abc'' \<and>
        (case map_of (s_workers s) 0 of
           Some w \<Rightarrow> w_status w = Running \<and> w_process w = 0 \<and> map_option ec_client (w_client w) = Some (Some ()) \<and>
             map (\<lambda>o1. (op_process o1, op_func o1, op_info o1)) (w_in w) =
               [(0, ''read'', arrayValue [stringValue ''x'', nullValue])]
         | None \<Rightarrow> False))"
  by code_simp

lemma word_is_no_number: "stoi ''abc'' = Inl LogicError"
  by code_simp

theorem etcd_bad_value_hangs_witness:
  "\<exists>s1. {s'. sys_steps (gen_op 6) gen_update (ETCDClient array_access one_key_etcd) word_nemesis s1 s' \<and>
       r_phase (s_run s') = Done} = {} \<and>
     (\<exists>s. word_state = Some s \<and>
       sys_exec (gen_op 6) gen_update (ETCDClient array_access one_key_etcd) word_nemesis (Work 0) s = Some s1)"
proof -
  obtain s where s: "word_state = Some s" "r_phase (s_run s) = Polling" "s_world s = ''abc''"
    using word_state_reads by (simp split: option.split_asm)
  from word_state_reads [unfolded s(1)]
  obtain w where w: "map_of (s_workers s) 0 = Some w" "w_status w = Running" "w_process w = 0"
    "map_option ec_client (w_client w) = Some (Some ())"
    "map (\<lambda>o1. (op_process o1, op_func o1, op_info o1)) (w_in w) =
       [(0, ''read'', arrayValue [stringValue ''x'', nullValue])]"
    by (simp only: option.case split: option.split_asm) simp
  then obtain c op1 where c: "w_client w = Some c" "ec_client c = Some ()"
    and op1: "w_in w = [op1]" "op_process op1 = 0" "op_func op1 = ''read''"
      "op_info op1 = arrayValue [stringValue ''x'', nullValue]"
    by auto
  obtain s0 where s0: "runCases_init word_nemesis [''n1''] 1 0 (setGenerator (createGenerator_ops word_ops)) [] = Inr s0"
    "sys_execs (gen_op 6) gen_update (ETCDClient array_access one_key_etcd) word_nemesis
       [Ask 5 [1], Work 0, Take 0 7, Ask 8 [1]] s0 = Some s"
    using s(1) unfolding word_state_def by (auto simp del: sys_execs.simps split: sum.splits)
  have reach: "run_reaches 6 (ETCDClient array_access one_key_etcd) word_nemesis [''n1''] 1
      (createGenerator_ops word_ops) s"
    unfolding run_reaches_def using s0(1) sys_execs_steps [OF s0(2)] by blast
  have good: "good_gen (createGenerator_ops word_ops)" "createGenerator_ops word_ops \<noteq> None"
    by (simp_all add: good_gen_def word_ops_def factory_defs schedulable_def Operation_of_def)
  have contract: "client_contract word_nemesis {kSuccess}"
    unfolding word_nemesis_def by (rule noop_nemesis.client_contract_axioms)
  have "\<exists>s1. sys_exec (gen_op 6) gen_update (ETCDClient array_access one_key_etcd) word_nemesis (Work 0) s = Some s1 \<and>
    (\<forall>s'. sys_steps (gen_op 6) gen_update (ETCDClient array_access one_key_etcd) word_nemesis s1 s' \<longrightarrow>
       r_phase (s_run s') \<noteq> Joining \<and> r_phase (s_run s') \<noteq> Done)"
    by (rule etcd_bad_value_hangs [OF contract _ good reach s(2) w(1) _ w(2) op1(1) _ c op1(3),
          where key = "''x''" and x = LogicError and k = "stringValue ''x''" and v = "''abc''"
            and response = "\<lparr>is_ok = True, value_string = ''abc''\<rparr>"])
      (simp_all add: w op1 s(3) array_access_def one_key_etcd_laws word_is_no_number)
  then show ?thesis using s(1) by blast
qed

end
