(* ===== verification/Control.thy ===== *)
theory Control
  imports Remotes Base64
begin

text \<open>
  \<open>ControlHelper\<close> (\<open>Control.h\<close>, \<open>Control.cpp\<close>): the shell commands that install and run a database on a
  node, over the interface of remotes. \<open>boost::split\<close> (on newlines) and
  \<open>boost::filesystem::path::stem\<close> are the parameters \<open>split\<close> and \<open>stem\<close>; \<open>ndebug\<close> is that of the
  Base64 encoder. \<open>std::regex\<close> belongs to the standard library: the one pattern that is used, matched
  against a whole string, is \<open>ends_in_zip\<close>. Log messages are left out, so the assertion in
  \<open>installArchive\<close>, which only logs, is too.
\<close>

section \<open>Names\<close>

definition kTempDir :: string where
  "kTempDir = ''/tmp/jepsen''"

definition kWgetCacheDir :: string where
  "kWgetCacheDir = kTempDir @ ''/wget-cache''"

record start_daemon_options =
  opt_env :: "string option"
  opt_background :: "bool option"
  opt_chdir :: "string option"
  opt_logfile :: "string option"
  opt_make_pidfile :: "bool option"
  opt_match_executable :: "bool option"
  opt_match_process_name :: "bool option"
  opt_pidfile :: "string option"
  opt_process_name :: "string option"

definition no_options :: start_daemon_options where
  "no_options =
     \<lparr>opt_env = None, opt_background = None, opt_chdir = None, opt_logfile = None,
      opt_make_pidfile = None, opt_match_executable = None, opt_match_process_name = None,
      opt_pidfile = None, opt_process_name = None\<rparr>"

text \<open>\<open>.*\.zip$\<close>; the dot matches no line terminator.\<close>

definition ends_in_zip :: "string \<Rightarrow> bool" where
  "ends_in_zip url \<longleftrightarrow>
     4 \<le> length url \<and> drop (length url - 4) url = ''.zip'' \<and>
     list_all (\<lambda>c. c \<noteq> CHR 0x0A \<and> c \<noteq> CHR 0x0D) url"

section \<open>Files\<close>

definition exists_file ::
  "('r, 'w) remote_class \<Rightarrow> string \<Rightarrow> 'r \<Rightarrow> ('w, bool \<times> 'r) act" where
  "exists_file R filename r =
     act_bind (rm_execute1 R (''stat '' @ filename) r) (\<lambda>(rc, r'). act_return (rc \<noteq> 0, r'))"

definition random_dir :: "rng \<Rightarrow> string \<times> rng" where
  "random_dir g =
     (let (x, g') = rand g in (kTempDir @ ''/'' @ int_to_string (int x), g'))"

fun tmpDir_loop ::
  "nat \<Rightarrow> ('r, 'w) remote_class \<Rightarrow> string \<Rightarrow> rng \<Rightarrow> 'r \<Rightarrow> ('w, string \<times> rng \<times> 'r) act" where
  "tmpDir_loop 0 R dir g r = act_raise Diverges"
| "tmpDir_loop (Suc n) R dir g r =
     act_bind (exists_file R dir r) (\<lambda>(found, r').
       if found then let (dir', g') = random_dir g in tmpDir_loop n R dir' g' r'
       else act_return (dir, g, r'))"

definition tmpDir ::
  "nat \<Rightarrow> ('r, 'w) remote_class \<Rightarrow> rng \<Rightarrow> 'r \<Rightarrow> ('w, string \<times> rng \<times> 'r) act" where
  "tmpDir n R g r =
     (let (dir, g') = random_dir g in
      act_bind (tmpDir_loop n R dir g' r) (\<lambda>(dir', g'', r').
        act_bind (rm_sudoExecute1 R (''mkdir -p '' @ dir') r') (\<lambda>(_, r'').
          act_return (dir', g'', r''))))"

definition cachedWget ::
  "('r, 'w) remote_class \<Rightarrow> bool \<Rightarrow> string \<Rightarrow> bool \<Rightarrow> 'r \<Rightarrow> ('w, string \<times> 'r) act" where
  "cachedWget R ndebug url force r =
     act_bind (act_lift (base64_encode ndebug url)) (\<lambda>encoded_url.
       let dest_file = kWgetCacheDir @ ''/'' @ encoded_url; wget_opts = ''-O '' @ dest_file in
       act_bind
         (if force
          then act_bind (rm_sudoExecute1 R (''rm -rf '' @ dest_file) r) (\<lambda>(_, r1). act_return r1)
          else act_return r) (\<lambda>r1.
         act_bind (exists_file R dest_file r1) (\<lambda>(found, r2).
           if \<not> found then
             act_bind (rm_sudoExecute1 R (''mkdir -p '' @ kWgetCacheDir) r2) (\<lambda>(_, r3).
               act_bind (rm_sudoExecute1 R (''wget '' @ wget_opts @ '' '' @ url) r3) (\<lambda>(_, r4).
                 act_return (dest_file, r4)))
           else act_return (dest_file, r2))))"

text \<open>The part of \<open>installArchive\<close> that extracts the archive into the directory and moves it.\<close>

definition extractArchive ::
  "('r, 'w) remote_class \<Rightarrow> string \<Rightarrow> string \<Rightarrow> string \<Rightarrow> 'r \<Rightarrow> ('w, int \<times> 'r) act" where
  "extractArchive R url file tmp_dir r =
     (if ends_in_zip url then rm_sudoExecute1 R (''unzip '' @ file) r
      else rm_sudoExecute1 R
        (''tar --no-same-owner --no-same-permissions --extract --file '' @ file @ '' -C '' @ tmp_dir) r)"

definition moveArchive ::
  "(string \<Rightarrow> string list) \<Rightarrow> ('r, 'w) remote_class \<Rightarrow> string \<Rightarrow> string \<Rightarrow> 'r \<Rightarrow> ('w, 'r) act" where
  "moveArchive split R tmp_dir dest r =
     act_bind (rm_execute R (''ls -A '' @ tmp_dir) [] [] r) (\<lambda>(_, out, err, r1).
       let result = split out in
       act_bind
         (if length result = 1 \<or> length result = 2 \<and> result ! 1 = [] then
            let tmp = tmp_dir @ ''/'' @ result ! 0 in
            rm_sudoExecute1 R (''mv '' @ tmp @ '' '' @ dest) r1
          else rm_sudoExecute1 R (''mv '' @ tmp_dir @ '' '' @ dest) r1)
         (\<lambda>(_, r2).
           act_bind (rm_sudoExecute1 R (''rm -rf '' @ tmp_dir) r2) (\<lambda>(_, r3). act_return r3)))"

definition installArchive ::
  "(string \<Rightarrow> string list) \<Rightarrow> nat \<Rightarrow> ('r, 'w) remote_class \<Rightarrow> bool \<Rightarrow> string \<Rightarrow> string \<Rightarrow> bool \<Rightarrow> rng \<Rightarrow> 'r
     \<Rightarrow> ('w, bool \<times> rng \<times> 'r) act" where
  "installArchive split n R ndebug url dest force g r =
     act_bind (cachedWget R ndebug url force r) (\<lambda>(file, r1).
       act_bind (tmpDir n R g r1) (\<lambda>(tmp_dir, g', r2).
         act_bind (extractArchive R url file tmp_dir r2) (\<lambda>(_, r3).
           act_bind (moveArchive split R tmp_dir dest r3) (\<lambda>r4. act_return (True, g', r4)))))"

section \<open>Daemons\<close>

text \<open>\<open>value()\<close> of an empty optional raises; \<open>has_value\<close> with a default.\<close>

definition value_of :: "'a option \<Rightarrow> 'a res" where
  "value_of x = (case x of None \<Rightarrow> Inl LogicError | Some v \<Rightarrow> Inr v)"

definition value_or :: "'a \<Rightarrow> 'a option \<Rightarrow> 'a" where
  "value_or d x = (case x of None \<Rightarrow> d | Some v \<Rightarrow> v)"

definition echo_command ::
  "start_daemon_options \<Rightarrow> string \<Rightarrow> string \<Rightarrow> string res" where
  "echo_command opts bin_name args =
     bind_res (value_of (opt_logfile opts)) (\<lambda>logfile.
       Inr (''echo `date +'' @ [CHR 0x27] @ ''%Y-%m-%d %H:%M:%S'' @ [CHR 0x27] @ ''`'' @
            '' Jepsen starting'' @
            (case opt_env opts of None \<Rightarrow> [] | Some e \<Rightarrow> '' '' @ e) @
            '' '' @ bin_name @ args @ '' >> '' @ logfile))"

definition daemon_command ::
  "start_daemon_options \<Rightarrow> string \<Rightarrow> string \<Rightarrow> string \<Rightarrow> string res" where
  "daemon_command opts bin bin_name args =
     (let command =
        value_or [] (opt_env opts) @
        '' start-stop-daemon --start '' @
        (if value_or True (opt_background opts) then '' --background --no-close '' else []) @
        (if value_or True (opt_make_pidfile opts) then '' --make-pidfile'' else []) @
        (if value_or True (opt_match_executable opts) then '' --exec '' @ bin @ '' '' else []) @
        (if value_or False (opt_match_process_name opts)
         then '' --name '' @ value_or bin_name (opt_process_name opts) else [])
      in
      bind_res (value_of (opt_pidfile opts)) (\<lambda>pidfile.
        bind_res (value_of (opt_chdir opts)) (\<lambda>chdir.
          bind_res (value_of (opt_logfile opts)) (\<lambda>logfile.
            Inr (command @ '' --pidfile '' @ pidfile @ '' --chdir '' @ chdir @ '' --oknodo '' @
                 '' --startas '' @ bin @ '' -- '' @ args @ '' >> '' @ logfile @ '' 2>&1'')))))"

definition startDaemon ::
  "(string \<Rightarrow> string) \<Rightarrow> ('r, 'w) remote_class \<Rightarrow> start_daemon_options \<Rightarrow> string \<Rightarrow> string \<Rightarrow> 'r
     \<Rightarrow> ('w, 'r) act" where
  "startDaemon stem R opts bin args r =
     (let bin_name = stem bin in
      act_bind (act_lift (echo_command opts bin_name args)) (\<lambda>echo.
        act_bind (rm_sudoExecute1 R echo r) (\<lambda>(_, r1).
          act_bind (act_lift (daemon_command opts bin bin_name args)) (\<lambda>command.
            act_bind (rm_sudoExecute1 R command r1) (\<lambda>(_, r2). act_return r2)))))"

definition stopDaemon ::
  "('r, 'w) remote_class \<Rightarrow> string \<Rightarrow> string \<Rightarrow> 'r \<Rightarrow> ('w, 'r) act" where
  "stopDaemon R cmd pidfile r =
     act_bind (rm_sudoExecute1 R (''killall -9 -w '' @ cmd) r) (\<lambda>(_, r1).
       act_bind (rm_sudoExecute1 R (''rm -rf '' @ pidfile) r1) (\<lambda>(_, r2). act_return r2))"

end
