(* ===== verification/Ssh_Properties.thy ===== *)
theory Ssh_Properties
  imports Ssh
begin

text \<open>
  What an SSH connection gives its user: the whole output of a command however the bytes arrive,
  a verdict that is the command's exit status, a connection that was authenticated; and what it
  does not give: the host key is not checked, and an unreachable node ends the program.
\<close>

section \<open>A command on the other side\<close>

text \<open>
  A script says what a channel answers: how often each call answers \<open>EAGAIN\<close> first, in which
  pieces the two outputs arrive, and how the command ends.
\<close>

datatype chunk = Data string | Again

fun payload :: "chunk list \<Rightarrow> string" where
  "payload [] = []"
| "payload (Data b # cs) = b @ payload cs"
| "payload (Again # cs) = payload cs"

fun next_chunk :: "int \<Rightarrow> chunk list \<Rightarrow> (int \<times> string) \<times> chunk list" where
  "next_chunk eagain [] = ((0, []), [])"
| "next_chunk eagain (Data b # cs) = ((int (length b), b), cs)"
| "next_chunk eagain (Again # cs) = ((eagain, []), cs)"

record script =
  scr_open :: nat
  scr_exec :: nat
  scr_out :: "chunk list"
  scr_err :: "chunk list"
  scr_close :: nat
  scr_status :: int
  scr_signal :: "string option"

text \<open>The library plays the script \<open>scr w\<close> of the world on the channel \<open>h\<close> of session \<open>s\<close>.\<close>

definition plays ::
  "('s, 'k, 'h, 'w) ssh_lib \<Rightarrow> 's \<Rightarrow> 'h \<Rightarrow> ('w \<Rightarrow> script) \<Rightarrow> bool" where
  "plays L s h scr \<longleftrightarrow>
     EAGAIN L < 0 \<and>
     (\<forall>w. \<exists>w'. channel_open_session L (Some s) w =
          (Inr (if scr_open (scr w) = 0 then Some h else None), w') \<and>
        scr w' = (scr w)\<lparr>scr_open := scr_open (scr w) - 1\<rparr>) \<and>
     (\<forall>w. \<exists>w'. session_last_error L (Some s) w = (Inr (EAGAIN L), w') \<and> scr w' = scr w) \<and>
     (\<forall>w. \<exists>d w'. session_block_directions L (Some s) w = (Inr d, w') \<and> scr w' = scr w) \<and>
     (\<forall>fd i j w. \<exists>rc w'. sys_select L fd i j w = (Inr rc, w') \<and> scr w' = scr w) \<and>
     (\<forall>cmd w. \<exists>w'. channel_exec L h cmd w =
          (Inr (if scr_exec (scr w) = 0 then 0 else EAGAIN L), w') \<and>
        scr w' = (scr w)\<lparr>scr_exec := scr_exec (scr w) - 1\<rparr>) \<and>
     (\<forall>w. \<exists>w'. channel_read L h w = (Inr (fst (next_chunk (EAGAIN L) (scr_out (scr w)))), w') \<and>
        scr w' = (scr w)\<lparr>scr_out := snd (next_chunk (EAGAIN L) (scr_out (scr w)))\<rparr>) \<and>
     (\<forall>w. \<exists>w'. channel_read_stderr L h w =
          (Inr (fst (next_chunk (EAGAIN L) (scr_err (scr w)))), w') \<and>
        scr w' = (scr w)\<lparr>scr_err := snd (next_chunk (EAGAIN L) (scr_err (scr w)))\<rparr>) \<and>
     (\<forall>w. \<exists>w'. channel_close L h w =
          (Inr (if scr_close (scr w) = 0 then 0 else EAGAIN L), w') \<and>
        scr w' = (scr w)\<lparr>scr_close := scr_close (scr w) - 1\<rparr>) \<and>
     (\<forall>w. \<exists>w'. channel_get_exit_status L h w = (Inr (scr_status (scr w)), w') \<and> scr w' = scr w) \<and>
     (\<forall>w. \<exists>w'. channel_get_exit_signal L h w = (Inr (scr_signal (scr w)), w') \<and> scr w' = scr w) \<and>
     (\<forall>w. \<exists>rc w'. channel_free L h w = (Inr rc, w') \<and> scr w' = scr w)"

lemma playsD:
  assumes "plays L s h scr"
  shows "EAGAIN L < 0"
    "\<And>w. \<exists>w'. channel_open_session L (Some s) w =
          (Inr (if scr_open (scr w) = 0 then Some h else None), w') \<and>
        scr w' = (scr w)\<lparr>scr_open := scr_open (scr w) - 1\<rparr>"
    "\<And>w. \<exists>w'. session_last_error L (Some s) w = (Inr (EAGAIN L), w') \<and> scr w' = scr w"
    "\<And>w. \<exists>d w'. session_block_directions L (Some s) w = (Inr d, w') \<and> scr w' = scr w"
    "\<And>fd i j w. \<exists>rc w'. sys_select L fd i j w = (Inr rc, w') \<and> scr w' = scr w"
    "\<And>cmd w. \<exists>w'. channel_exec L h cmd w =
          (Inr (if scr_exec (scr w) = 0 then 0 else EAGAIN L), w') \<and>
        scr w' = (scr w)\<lparr>scr_exec := scr_exec (scr w) - 1\<rparr>"
    "\<And>w. \<exists>w'. channel_read L h w = (Inr (fst (next_chunk (EAGAIN L) (scr_out (scr w)))), w') \<and>
        scr w' = (scr w)\<lparr>scr_out := snd (next_chunk (EAGAIN L) (scr_out (scr w)))\<rparr>"
    "\<And>w. \<exists>w'. channel_read_stderr L h w =
          (Inr (fst (next_chunk (EAGAIN L) (scr_err (scr w)))), w') \<and>
        scr w' = (scr w)\<lparr>scr_err := snd (next_chunk (EAGAIN L) (scr_err (scr w)))\<rparr>"
    "\<And>w. \<exists>w'. channel_close L h w =
          (Inr (if scr_close (scr w) = 0 then 0 else EAGAIN L), w') \<and>
        scr w' = (scr w)\<lparr>scr_close := scr_close (scr w) - 1\<rparr>"
    "\<And>w. \<exists>w'. channel_get_exit_status L h w = (Inr (scr_status (scr w)), w') \<and> scr w' = scr w"
    "\<And>w. \<exists>w'. channel_get_exit_signal L h w = (Inr (scr_signal (scr w)), w') \<and> scr w' = scr w"
    "\<And>w. \<exists>rc w'. channel_free L h w = (Inr rc, w') \<and> scr w' = scr w"
  using assms unfolding plays_def by simp_all

lemma plays_wait:
  assumes "plays L s h scr"
  shows "\<exists>w'. act_void (waitsocket L fd (Some s)) w = (Inr (), w') \<and> scr w' = scr w"
proof -
  obtain d w1 where d: "session_block_directions L (Some s) w = (Inr d, w1)" "scr w1 = scr w"
    using playsD(4) [OF assms] by blast
  obtain rc w2 where "sys_select L fd (has_flag d (BLOCK_INBOUND L)) (has_flag d (BLOCK_OUTBOUND L)) w1 =
      (Inr rc, w2)" "scr w2 = scr w1"
    using playsD(5) [OF assms] by blast
  then show ?thesis
    using d by (simp add: act_void_def waitsocket_def act_bind_def act_return_def)
qed

lemma read_all_script:
  assumes read: "\<And>w. \<exists>w'. read w = (Inr (fst (next_chunk e (cs w))), w') \<and>
      cs w' = snd (next_chunk e (cs w)) \<and> frame w' = frame w"
    and wait: "\<And>w. \<exists>w'. wait w = (Inr (), w') \<and> cs w' = cs w \<and> frame w' = frame w"
    and e: "e < 0" and n: "length (cs w) < n" and full: "Data [] \<notin> set (cs w)"
  shows "\<exists>w'. read_all e n read wait acc w = (Inr (acc @ payload (cs w)), w') \<and> cs w' = [] \<and>
    frame w' = frame w"
  using n full
proof (induction "cs w" arbitrary: w n acc)
  case Nil
  then obtain k where "n = Suc k" by (cases n) auto
  moreover obtain w' where "read w = (Inr (0, []), w')" "cs w' = []" "frame w' = frame w"
    using read [of w] Nil by auto
  ultimately show ?case using Nil(1) [symmetric] e by (simp add: act_bind_def act_return_def)
next
  case (Cons x xs)
  note cs = Cons.hyps(2) [symmetric]
  then obtain k where n: "n = Suc k" "length xs < k" using Cons.prems(1) by (cases n) auto
  obtain w1 where w1: "read w = (Inr (fst (next_chunk e (x # xs))), w1)"
    "cs w1 = snd (next_chunk e (x # xs))" "frame w1 = frame w"
    using read [of w] unfolding cs by blast
  have xs: "cs w1 = xs" using w1(2) by (cases x) auto
  have full: "Data [] \<notin> set xs" using Cons.prems(2) unfolding cs by simp
  show ?case
  proof (cases x)
    case (Data b)
    then have "b \<noteq> []" using Cons.prems(2) unfolding cs by auto
    then have "read_all e n read wait acc w = read_all e k read wait (acc @ b) w1"
      using w1(1) n(1) Data by (simp add: act_bind_def)
    moreover have "\<exists>w'. read_all e k read wait (acc @ b) w1 =
        (Inr ((acc @ b) @ payload (cs w1)), w') \<and> cs w' = [] \<and> frame w' = frame w1"
      using Cons.hyps(1) [of w1 k "acc @ b"] xs n(2) full by simp
    ultimately show ?thesis using cs Data xs w1(3) by simp
  next
    case Again
    obtain w2 where w2: "wait w1 = (Inr (), w2)" "cs w2 = xs" "frame w2 = frame w1"
      using wait [of w1] xs by auto
    have "read_all e n read wait acc w = read_all e k read wait acc w2"
      using w1(1) w2(1) n(1) Again e by (simp add: act_bind_def)
    moreover have "\<exists>w'. read_all e k read wait acc w2 =
        (Inr (acc @ payload (cs w2)), w') \<and> cs w' = [] \<and> frame w' = frame w2"
      using Cons.hyps(1) [of w2 k acc] w2(2) n(2) full by simp
    ultimately show ?thesis using cs Again w2 w1(3) by simp
  qed
qed

text \<open>The script after each part of a command; every part ends.\<close>

lemma plays_open:
  assumes plays: "plays L s h scr" and n: "scr_open (scr w) < n"
  shows "\<exists>w'. SSHChannel_ctor L n (Some s) fd w = (Inr h, w') \<and> scr w' = (scr w)\<lparr>scr_open := 0\<rparr>"
proof -
  let ?call = "act_bind (channel_open_session L (Some s)) (\<lambda>temp.
    if temp = None
    then act_bind (session_last_error L (Some s)) (\<lambda>e. act_return (temp, e = EAGAIN L))
    else act_return (temp, False))"
  have "\<exists>w'. retry n snd ?call (act_void (waitsocket L fd (Some s))) w = (Inr (Some h, False), w') \<and>
    scr_open (scr w') = 0 \<and> (scr w')\<lparr>scr_open := 0\<rparr> = (scr w)\<lparr>scr_open := 0\<rparr>"
  proof (rule retry_counted [where bad = "(None, True)"])
    fix w
    obtain w1 where w1: "channel_open_session L (Some s) w =
        (Inr (if scr_open (scr w) = 0 then Some h else None), w1)"
      "scr w1 = (scr w)\<lparr>scr_open := scr_open (scr w) - 1\<rparr>"
      using playsD(2) [OF plays] by blast
    obtain w2 where w2: "session_last_error L (Some s) w1 = (Inr (EAGAIN L), w2)" "scr w2 = scr w1"
      using playsD(3) [OF plays] by blast
    show "\<exists>w'. ?call w = (Inr (if scr_open (scr w) = 0 then (Some h, False) else (None, True)), w') \<and>
        scr_open (scr w') = scr_open (scr w) - 1 \<and> (scr w')\<lparr>scr_open := 0\<rparr> = (scr w)\<lparr>scr_open := 0\<rparr>"
      using w1 w2 by (auto simp: act_bind_def act_return_def)
    show "\<exists>w'. act_void (waitsocket L fd (Some s)) w = (Inr (), w') \<and>
        scr_open (scr w') = scr_open (scr w) \<and> (scr w')\<lparr>scr_open := 0\<rparr> = (scr w)\<lparr>scr_open := 0\<rparr>"
      using plays_wait [OF plays, of fd w] by auto
  qed (use n in simp_all)
  then obtain w' where w': "retry n snd ?call (act_void (waitsocket L fd (Some s))) w =
      (Inr (Some h, False), w')" "scr_open (scr w') = 0"
      "(scr w')\<lparr>scr_open := 0\<rparr> = (scr w)\<lparr>scr_open := 0\<rparr>"
    by blast
  have "scr w' = (scr w')\<lparr>scr_open := 0\<rparr>" using w'(2) by (cases "scr w'") simp
  then show ?thesis
    using w'(1,3) by (simp add: SSHChannel_ctor_def createChannel_def act_bind_def act_return_def)
qed

lemma plays_exec:
  assumes plays: "plays L s h scr" and n: "scr_exec (scr w) < n"
  shows "\<exists>w'. retry n (\<lambda>rc. rc = EAGAIN L) (channel_exec L h cmd)
      (act_void (waitsocket L fd (Some s))) w = (Inr 0, w') \<and> scr w' = (scr w)\<lparr>scr_exec := 0\<rparr>"
proof -
  have "\<exists>w'. retry n (\<lambda>rc. rc = EAGAIN L) (channel_exec L h cmd)
      (act_void (waitsocket L fd (Some s))) w = (Inr 0, w') \<and> scr_exec (scr w') = 0 \<and>
      (scr w')\<lparr>scr_exec := 0\<rparr> = (scr w)\<lparr>scr_exec := 0\<rparr>"
  proof (rule retry_counted [where bad = "EAGAIN L"])
    fix w
    show "\<exists>w'. channel_exec L h cmd w = (Inr (if scr_exec (scr w) = 0 then 0 else EAGAIN L), w') \<and>
        scr_exec (scr w') = scr_exec (scr w) - 1 \<and> (scr w')\<lparr>scr_exec := 0\<rparr> = (scr w)\<lparr>scr_exec := 0\<rparr>"
      using playsD(6) [OF plays, of cmd w] by auto
    show "\<exists>w'. act_void (waitsocket L fd (Some s)) w = (Inr (), w') \<and>
        scr_exec (scr w') = scr_exec (scr w) \<and> (scr w')\<lparr>scr_exec := 0\<rparr> = (scr w)\<lparr>scr_exec := 0\<rparr>"
      using plays_wait [OF plays, of fd w] by auto
  qed (use n playsD(1) [OF plays] in simp_all)
  then show ?thesis by (metis script.surjective script.update_convs(2) script.select_convs(2))
qed

lemma plays_close:
  assumes plays: "plays L s h scr" and n: "scr_close (scr w) < n"
  shows "\<exists>w'. SSHChannel_close L n h fd (Some s) w =
      (Inr (scr_status (scr w) = 0 \<and> scr_signal (scr w) = None), w')"
proof -
  have "\<exists>w'. retry n (\<lambda>rc. rc = EAGAIN L) (channel_close L h)
      (act_void (waitsocket L fd (Some s))) w = (Inr 0, w') \<and> scr_close (scr w') = 0 \<and>
      (scr w')\<lparr>scr_close := 0\<rparr> = (scr w)\<lparr>scr_close := 0\<rparr>"
  proof (rule retry_counted [where bad = "EAGAIN L"])
    fix w
    show "\<exists>w'. channel_close L h w = (Inr (if scr_close (scr w) = 0 then 0 else EAGAIN L), w') \<and>
        scr_close (scr w') = scr_close (scr w) - 1 \<and>
        (scr w')\<lparr>scr_close := 0\<rparr> = (scr w)\<lparr>scr_close := 0\<rparr>"
      using playsD(9) [OF plays, of w] by auto
    show "\<exists>w'. act_void (waitsocket L fd (Some s)) w = (Inr (), w') \<and>
        scr_close (scr w') = scr_close (scr w) \<and> (scr w')\<lparr>scr_close := 0\<rparr> = (scr w)\<lparr>scr_close := 0\<rparr>"
      using plays_wait [OF plays, of fd w] by auto
  qed (use n playsD(1) [OF plays] in simp_all)
  then obtain w1 where w1: "retry n (\<lambda>rc. rc = EAGAIN L) (channel_close L h)
      (act_void (waitsocket L fd (Some s))) w = (Inr 0, w1)"
      "(scr w1)\<lparr>scr_close := 0\<rparr> = (scr w)\<lparr>scr_close := 0\<rparr>"
    by blast
  then have same: "scr_status (scr w1) = scr_status (scr w)" "scr_signal (scr w1) = scr_signal (scr w)"
    by (metis script.select_convs script.surjective script.update_convs(5))+
  obtain w2 where w2: "channel_get_exit_status L h w1 = (Inr (scr_status (scr w1)), w2)" "scr w2 = scr w1"
    using playsD(10) [OF plays] by blast
  obtain w3 where w3: "channel_get_exit_signal L h w2 = (Inr (scr_signal (scr w2)), w3)"
    using playsD(11) [OF plays] by blast
  obtain rc w4 where "channel_free L h w3 = (Inr rc, w4)" using playsD(12) [OF plays] by blast
  then show ?thesis
    using w1(1) w2 w3 same by (auto simp: SSHChannel_close_def act_bind_def act_return_def Let_def)
qed

lemma plays_read:
  assumes plays: "plays L s h scr" and n: "length (scr_out (scr w)) < n"
    and full: "Data [] \<notin> set (scr_out (scr w))"
  shows "\<exists>w'. read_all (EAGAIN L) n (channel_read L h) (act_void (waitsocket L fd (Some s))) acc w =
      (Inr (acc @ payload (scr_out (scr w))), w') \<and> scr w' = (scr w)\<lparr>scr_out := []\<rparr>"
proof -
  have "\<exists>w'. read_all (EAGAIN L) n (channel_read L h) (act_void (waitsocket L fd (Some s))) acc w =
      (Inr (acc @ payload (scr_out (scr w))), w') \<and> scr_out (scr w') = [] \<and>
      (scr w')\<lparr>scr_out := []\<rparr> = (scr w)\<lparr>scr_out := []\<rparr>"
  proof (rule read_all_script [where cs = "\<lambda>w. scr_out (scr w)"])
    fix w
    show "\<exists>w'. channel_read L h w = (Inr (fst (next_chunk (EAGAIN L) (scr_out (scr w)))), w') \<and>
        scr_out (scr w') = snd (next_chunk (EAGAIN L) (scr_out (scr w))) \<and>
        (scr w')\<lparr>scr_out := []\<rparr> = (scr w)\<lparr>scr_out := []\<rparr>"
      using playsD(7) [OF plays, of w] by auto
    show "\<exists>w'. act_void (waitsocket L fd (Some s)) w = (Inr (), w') \<and>
        scr_out (scr w') = scr_out (scr w) \<and> (scr w')\<lparr>scr_out := []\<rparr> = (scr w)\<lparr>scr_out := []\<rparr>"
      using plays_wait [OF plays, of fd w] by auto
  qed (use n full playsD(1) [OF plays] in simp_all)
  then show ?thesis by (metis script.surjective script.update_convs(3) script.select_convs(3))
qed

lemma plays_read_stderr:
  assumes plays: "plays L s h scr" and n: "length (scr_err (scr w)) < n"
    and full: "Data [] \<notin> set (scr_err (scr w))"
  shows "\<exists>w'. read_all (EAGAIN L) n (channel_read_stderr L h)
      (act_void (waitsocket L fd (Some s))) acc w =
      (Inr (acc @ payload (scr_err (scr w))), w') \<and> scr w' = (scr w)\<lparr>scr_err := []\<rparr>"
proof -
  have "\<exists>w'. read_all (EAGAIN L) n (channel_read_stderr L h)
      (act_void (waitsocket L fd (Some s))) acc w =
      (Inr (acc @ payload (scr_err (scr w))), w') \<and> scr_err (scr w') = [] \<and>
      (scr w')\<lparr>scr_err := []\<rparr> = (scr w)\<lparr>scr_err := []\<rparr>"
  proof (rule read_all_script [where cs = "\<lambda>w. scr_err (scr w)"])
    fix w
    show "\<exists>w'. channel_read_stderr L h w =
        (Inr (fst (next_chunk (EAGAIN L) (scr_err (scr w)))), w') \<and>
        scr_err (scr w') = snd (next_chunk (EAGAIN L) (scr_err (scr w))) \<and>
        (scr w')\<lparr>scr_err := []\<rparr> = (scr w)\<lparr>scr_err := []\<rparr>"
      using playsD(8) [OF plays, of w] by auto
    show "\<exists>w'. act_void (waitsocket L fd (Some s)) w = (Inr (), w') \<and>
        scr_err (scr w') = scr_err (scr w) \<and> (scr w')\<lparr>scr_err := []\<rparr> = (scr w)\<lparr>scr_err := []\<rparr>"
      using plays_wait [OF plays, of fd w] by auto
  qed (use n full playsD(1) [OF plays] in simp_all)
  then show ?thesis by (metis script.surjective script.update_convs(4) script.select_convs(4))
qed

text \<open>The rounds that are enough for a script.\<close>

definition rounds :: "script \<Rightarrow> nat" where
  "rounds x = Suc (scr_open x + scr_exec x + length (scr_out x) + length (scr_err x) + scr_close x)"

text \<open>A command on an open connection.\<close>

lemma execute_output:
  assumes plays: "plays L s h scr" and c: "sc_session c = Some s" "sc_sock c \<noteq> kSocketInit"
    and full: "Data [] \<notin> set (scr_out (scr w))" "Data [] \<notin> set (scr_err (scr w))"
    and n: "rounds (scr w) \<le> n"
  shows "\<exists>w'. SSHClient_execute L n command out err c w =
    (Inr (scr_status (scr w) = 0 \<and> scr_signal (scr w) = None,
          out @ payload (scr_out (scr w)), err @ payload (scr_err (scr w)), c), w')"
proof -
  obtain w1 where w1: "SSHChannel_ctor L n (Some s) (sc_sock c) w = (Inr h, w1)"
    "scr w1 = (scr w)\<lparr>scr_open := 0\<rparr>"
    using plays_open [OF plays, of w n] n by (auto simp: rounds_def)
  obtain w2 where w2: "retry n (\<lambda>rc. rc = EAGAIN L) (channel_exec L h command)
      (act_void (waitsocket L (sc_sock c) (Some s))) w1 = (Inr 0, w2)"
    "scr w2 = (scr w1)\<lparr>scr_exec := 0\<rparr>"
    using plays_exec [OF plays, of w1 n command] n w1(2) by (auto simp: rounds_def)
  obtain w3 where w3: "read_all (EAGAIN L) n (channel_read L h)
      (act_void (waitsocket L (sc_sock c) (Some s))) out w2 =
      (Inr (out @ payload (scr_out (scr w2))), w3)" "scr w3 = (scr w2)\<lparr>scr_out := []\<rparr>"
    using plays_read [OF plays, of w2 n] n w1(2) w2(2) full(1) by (fastforce simp: rounds_def)
  obtain w4 where w4: "read_all (EAGAIN L) n (channel_read_stderr L h)
      (act_void (waitsocket L (sc_sock c) (Some s))) err w3 =
      (Inr (err @ payload (scr_err (scr w3))), w4)" "scr w4 = (scr w3)\<lparr>scr_err := []\<rparr>"
    using plays_read_stderr [OF plays, of w3 n] n w1(2) w2(2) w3(2) full(2)
    by (fastforce simp: rounds_def)
  obtain w5 where w5: "SSHChannel_close L n h (sc_sock c) (Some s) w4 =
      (Inr (scr_status (scr w4) = 0 \<and> scr_signal (scr w4) = None), w5)"
    using plays_close [OF plays, of w4 n] n w1(2) w2(2) w3(2) w4(2) by (auto simp: rounds_def)
  have "SSHChannel_exec L n h (sc_sock c) command (Some s) out err w1 =
      (Inr (True, out @ payload (scr_out (scr w)), err @ payload (scr_err (scr w))), w4)"
    using w2(1) w3(1) w4(1) w1(2) w2(2) w3(2)
    by (simp add: SSHChannel_exec_def act_bind_def act_return_def)
  then show ?thesis
    using w1(1) w5 c w1(2) w2(2) w3(2) w4(2)
    by (simp add: SSHClient_execute_def act_bind_def act_return_def)
qed

text \<open>A library whose world is a script.\<close>

definition script_lib :: "(unit, unit, unit, script) ssh_lib" where
  "script_lib =
     \<lparr>EAGAIN = - 37, BLOCK_INBOUND = 1, BLOCK_OUTBOUND = 2, inet_addr = (\<lambda>ip. 0),
      sys_socket = act_return 3, sys_connect = (\<lambda>fd a p. act_return 0),
      sys_close = (\<lambda>fd. act_return 0), sys_select = (\<lambda>fd r w. act_return 1),
      ssh_init = act_return 0, ssh_exit = act_return (), session_init = act_return (Some ()),
      session_set_blocking = (\<lambda>s i. act_return ()), session_handshake = (\<lambda>s fd. act_return 0),
      session_hostkey = (\<lambda>s. act_return (Some ''key'')),
      session_block_directions = (\<lambda>s. act_return 1), session_last_error = (\<lambda>s. act_return (- 37)),
      session_disconnect = (\<lambda>s m. act_return 0), session_free = (\<lambda>s. act_return 0),
      knownhost_init = (\<lambda>s. act_return (Some ())), knownhost_readfile = (\<lambda>k f. act_return 0),
      knownhost_writefile = (\<lambda>k f. act_return 0), knownhost_checkp = (\<lambda>k i p x. act_return 0),
      knownhost_free = (\<lambda>k. act_return ()), userauth_password = (\<lambda>s u p. act_return 0),
      userauth_publickey_fromfile = (\<lambda>s u f g p. act_return 0),
      channel_open_session = (\<lambda>s x.
        (Inr (if s \<noteq> None \<and> scr_open x = 0 then Some () else None), x\<lparr>scr_open := scr_open x - 1\<rparr>)),
      channel_exec = (\<lambda>h cmd x.
        (Inr (if scr_exec x = 0 then 0 else - 37), x\<lparr>scr_exec := scr_exec x - 1\<rparr>)),
      channel_read = (\<lambda>h x. (Inr (fst (next_chunk (- 37) (scr_out x))),
        x\<lparr>scr_out := snd (next_chunk (- 37) (scr_out x))\<rparr>)),
      channel_read_stderr = (\<lambda>h x. (Inr (fst (next_chunk (- 37) (scr_err x))),
        x\<lparr>scr_err := snd (next_chunk (- 37) (scr_err x))\<rparr>)),
      channel_close = (\<lambda>h x.
        (Inr (if scr_close x = 0 then 0 else - 37), x\<lparr>scr_close := scr_close x - 1\<rparr>)),
      channel_get_exit_status = (\<lambda>h x. (Inr (scr_status x), x)),
      channel_get_exit_signal = (\<lambda>h x. (Inr (scr_signal x), x)),
      channel_free = (\<lambda>h. act_return 0)\<rparr>"

lemma script_lib_plays: "plays script_lib () () id"
  by (simp add: plays_def script_lib_def act_return_def)

definition open_client :: "unit ssh_client" where
  "open_client =
     \<lparr>sc_ip_addr = ''n1'', sc_host_addr = 0, sc_port = 22, sc_username = ''u'', sc_password = ''p'',
      sc_sock = 3, sc_session = Some ()\<rparr>"

definition ls_script :: script where
  "ls_script =
     \<lparr>scr_open = 2, scr_exec = 1, scr_out = [Data ''et'', Again, Data ''cd'', Again], scr_err = [Again],
      scr_close = 1, scr_status = 0, scr_signal = None\<rparr>"

section \<open>Connections\<close>

lemma authenticate_true:
  assumes "authenticate L n s c w = (Inr (True, c'), w')"
  shows "c' = c \<and> (\<exists>v.
    (if length (sc_password c) \<noteq> 0
     then userauth_password L s (sc_username c) (sc_password c)
     else userauth_publickey_fromfile L s (sc_username c) ''/home/young/.ssh/id_rsa.pub''
            ''/home/young/.ssh/id_rsa'' (sc_password c)) v = (Inr 0, w'))"
proof -
  let ?auth = "if length (sc_password c) \<noteq> 0
     then userauth_password L s (sc_username c) (sc_password c)
     else userauth_publickey_fromfile L s (sc_username c) ''/home/young/.ssh/id_rsa.pub''
            ''/home/young/.ssh/id_rsa'' (sc_password c)"
  obtain rc v where rc: "retry n (\<lambda>rc. rc = EAGAIN L) ?auth (act_return ()) w = (Inr rc, v)"
    "(if rc \<noteq> 0 then act_bind (disConnect L c) (\<lambda>(_, c1). act_return (False, c1))
      else act_return (True, c)) v = (Inr (True, c'), w')"
    using assms unfolding authenticate_def act_bind_eq_Inr by blast
  then have "rc = 0" "c' = c" "v = w'" by (auto simp: res_simps split: if_splits)
  then show ?thesis using retry_last_call [OF rc(1)] by simp
qed

lemma check_host_true:
  assumes "check_host L n s nh c w = (Inr (True, c'), w')"
  obtains v where "authenticate L n s c v = (Inr (True, c'), w')"
  using assms unfolding check_host_def act_bind_eq_Inr
  by (auto simp: res_simps split: option.splits)

lemma start_session_true:
  assumes "start_session L n c w = (Inr (True, c'), w')"
  obtains s u k w1 w2 w3 w4 where "session_init L w = (Inr (Some s), w1)"
    and "session_set_blocking L s 0 w1 = (Inr u, w2)"
    and "retry n (\<lambda>rc. rc = EAGAIN L) (session_handshake L s (sc_sock c)) (act_return ()) w2 = (Inr 0, w3)"
    and "knownhost_init L s w3 = (Inr (Some k), w4)"
    and "check_host L n s k (c\<lparr>sc_session := Some s\<rparr>) w4 = (Inr (True, c'), w')"
proof -
  obtain session w1 where init: "session_init L w = (Inr session, w1)"
    using assms by (auto simp: start_session_def act_bind_eq_Inr)
  then obtain s where s: "session = Some s"
    using assms by (cases session) (auto simp: start_session_def act_bind_def act_return_def)
  let ?c = "c\<lparr>sc_session := Some s\<rparr>"
  obtain u w2 where "session_set_blocking L s 0 w1 = (Inr u, w2)"
    "act_bind (retry n (\<lambda>rc. rc = EAGAIN L) (session_handshake L s (sc_sock ?c)) (act_return ()))
       (\<lambda>rc. if rc \<noteq> 0 then act_return (False, ?c)
         else act_bind (knownhost_init L s) (\<lambda>nh. case nh of
             None \<Rightarrow> act_return (False, ?c) | Some k \<Rightarrow> check_host L n s k ?c)) w2 =
       (Inr (True, c'), w')"
    using assms init s by (auto simp: start_session_def act_bind_eq_Inr Let_def)
  then show thesis
    using that [of s w1 u w2] init s
    by (auto simp: act_bind_eq_Inr res_simps split: if_splits option.splits)
qed

text \<open>
  C25. A connection is only reported when it has been made in full, by these calls in this order:
  the socket is connected to the address of the client, a session is started and set non-blocking,
  its handshake over that socket (repeated while it says \<open>EAGAIN\<close>) returns \<open>0\<close>, the known hosts can be
  initialised, and the last call made is the one with which the server accepts the credentials of the
  client on that session. The socket and the session are all that changes in the client.
\<close>

theorem ssh_connect_authenticates:
  assumes "connectTo L n c w = (Inr (True, c'), w')"
  shows "\<exists>fd s u k w1 w2 w3 w4 w5 w6 v. c' = c\<lparr>sc_sock := fd, sc_session := Some s\<rparr> \<and>
    sys_socket L w = (Inr fd, w1) \<and>
    sys_connect L fd (sc_host_addr c) (sc_port c) w1 = (Inr 0, w2) \<and>
    session_init L w2 = (Inr (Some s), w3) \<and> session_set_blocking L s 0 w3 = (Inr u, w4) \<and>
    retry n (\<lambda>rc. rc = EAGAIN L) (session_handshake L s fd) (act_return ()) w4 = (Inr 0, w5) \<and>
    knownhost_init L s w5 = (Inr (Some k), w6) \<and> check_host L n s k c' w6 = (Inr (True, c'), w') \<and>
    (if length (sc_password c) \<noteq> 0
     then userauth_password L s (sc_username c) (sc_password c)
     else userauth_publickey_fromfile L s (sc_username c) ''/home/young/.ssh/id_rsa.pub''
            ''/home/young/.ssh/id_rsa'' (sc_password c)) v = (Inr 0, w')"
proof -
  obtain fd w1 w2 where sock: "sys_socket L w = (Inr fd, w1)"
    "sys_connect L fd (sc_host_addr c) (sc_port c) w1 = (Inr 0, w2)"
    and "start_session L n (c\<lparr>sc_sock := fd\<rparr>) w2 = (Inr (True, c'), w')"
    using assms by (auto simp: connectTo_def act_bind_eq_Inr act_return_eq Let_def split: if_splits)
  from this(3) obtain s u k w3 w4 w5 w6 where session: "session_init L w2 = (Inr (Some s), w3)"
    "session_set_blocking L s 0 w3 = (Inr u, w4)"
    "retry n (\<lambda>rc. rc = EAGAIN L) (session_handshake L s fd) (act_return ()) w4 = (Inr 0, w5)"
    "knownhost_init L s w5 = (Inr (Some k), w6)"
    and host: "check_host L n s k (c\<lparr>sc_sock := fd, sc_session := Some s\<rparr>) w6 = (Inr (True, c'), w')"
    by (rule start_session_true) simp
  obtain v where "authenticate L n s (c\<lparr>sc_sock := fd, sc_session := Some s\<rparr>) v = (Inr (True, c'), w')"
    using host by (rule check_host_true)
  note auth = authenticate_true [OF this]
  then have c': "c' = c\<lparr>sc_sock := fd, sc_session := Some s\<rparr>" by blast
  obtain v where "(if length (sc_password c) \<noteq> 0
     then userauth_password L s (sc_username c) (sc_password c)
     else userauth_publickey_fromfile L s (sc_username c) ''/home/young/.ssh/id_rsa.pub''
            ''/home/young/.ssh/id_rsa'' (sc_password c)) v = (Inr 0, w')"
    using auth by (auto cong: if_cong)
  then show ?thesis using sock session host unfolding c' by blast
qed

definition fresh_client :: "unit ssh_client" where
  "fresh_client = open_client\<lparr>sc_sock := kSocketInit, sc_session := None\<rparr>"

theorem ssh_connect_authenticates_witness:
  "\<exists>fd s u k w1 w2 w3 w4 w5 w6 v. open_client = fresh_client\<lparr>sc_sock := fd, sc_session := Some s\<rparr> \<and>
     sys_socket script_lib ls_script = (Inr fd, w1) \<and>
     sys_connect script_lib fd (sc_host_addr fresh_client) (sc_port fresh_client) w1 = (Inr 0, w2) \<and>
     session_init script_lib w2 = (Inr (Some s), w3) \<and>
     session_set_blocking script_lib s 0 w3 = (Inr u, w4) \<and>
     retry 2 (\<lambda>rc. rc = EAGAIN script_lib) (session_handshake script_lib s fd) (act_return ()) w4 = (Inr 0, w5) \<and>
     knownhost_init script_lib s w5 = (Inr (Some k), w6) \<and>
     check_host script_lib 2 s k open_client w6 = (Inr (True, open_client), ls_script) \<and>
     userauth_password script_lib s ''u'' ''p'' v = (Inr 0, ls_script)"
proof -
  have "connectTo script_lib 2 fresh_client ls_script = (Inr (True, open_client), ls_script)"
    by (simp add: numeral_2_eq_2 script_lib_def fresh_client_def open_client_def kSocketInit_def
        connectTo_def start_session_def check_host_def authenticate_def act_return_def act_bind_def)
  note found = ssh_connect_authenticates [OF this]
  have "sc_username fresh_client = ''u''" "sc_password fresh_client = ''p''"
    by (simp_all add: fresh_client_def open_client_def)
  from found [unfolded this] show ?thesis by simp
qed

text \<open>
  The host key of a node is never verified. Whatever the comparison with the known hosts
  says (a match, a mismatch, an unknown host, a failure), \<open>connectTo\<close> goes on in the same way and
  sends the credentials.
\<close>

theorem ssh_host_key_ignored:
  "connectTo (L\<lparr>knownhost_checkp := \<lambda>k ip port key. act_return i\<rparr>) n c =
     connectTo (L\<lparr>knownhost_checkp := \<lambda>k ip port key. act_return j\<rparr>) n c"
  by (simp add: connectTo_def start_session_def check_host_def authenticate_def disConnect_def
      Let_def cong: option.case_cong if_cong)

lemma unreachable_execute:
  assumes down: "\<And>w. \<exists>w'. sys_socket L w = (Inr fd, w')"
      "\<And>a p w. \<exists>rc w'. sys_connect L fd a p w = (Inr rc, w') \<and> rc \<noteq> 0"
    and null: "\<And>w. \<exists>w'. channel_open_session L None w = (Inr None, w')"
      "\<And>w. \<exists>r w'. session_last_error L None w = (r, w') \<and> (r = Inl NullDeref \<or> (\<exists>x. r = Inr x \<and> x \<noteq> EAGAIN L))"
    and c: "sc_session c = None" and n: "0 < n"
  shows "\<exists>e w'. SSHClient_execute L n command out err c w = (Inl e, w') \<and> e \<in> {NullDeref, ProcessExit}"
proof -
  obtain w1 where w1: "sys_socket L w = (Inr fd, w1)" using down(1) by blast
  let ?c = "c\<lparr>sc_sock := fd\<rparr>"
  obtain rc w2 where w2: "sys_connect L fd (sc_host_addr ?c) (sc_port ?c) w1 = (Inr rc, w2)" "rc \<noteq> 0"
    using down(2) by blast
  have conn: "getConnection L n c w = (Inr ?c, w2)"
    using w1 w2 by (simp add: getConnection_def connectTo_def act_bind_def act_return_def Let_def)
  obtain w3 where w3: "channel_open_session L None w2 = (Inr None, w3)" using null(1) by blast
  obtain r w4 where w4: "session_last_error L None w3 = (r, w4)"
    "r = Inl NullDeref \<or> (\<exists>x. r = Inr x \<and> x \<noteq> EAGAIN L)"
    using null(2) by blast
  obtain k where k: "n = Suc k" using n by (cases n) auto
  have "\<exists>e. SSHChannel_ctor L n None fd w2 = (Inl e, w4) \<and> e \<in> {NullDeref, ProcessExit}"
    using w3 w4 k
    by (auto simp: SSHChannel_ctor_def createChannel_def act_bind_def act_return_def act_raise_def)
  then show ?thesis using conn c by (auto simp: SSHClient_execute_def act_bind_def)
qed

text \<open>
  C26. A node that cannot be connected to ends the test program: the failure is only logged, the
  command is sent to a channel of the null session, and there is no channel to open on it.
\<close>

theorem ssh_unreachable_exits:
  assumes down: "\<And>w. \<exists>w'. sys_socket L w = (Inr fd, w')"
      "\<And>a p w. \<exists>rc w'. sys_connect L fd a p w = (Inr rc, w') \<and> rc \<noteq> 0"
    and null: "\<And>w. \<exists>w'. channel_open_session L None w = (Inr None, w')"
      "\<And>w. \<exists>r w'. session_last_error L None w = (r, w') \<and> (r = Inl NullDeref \<or> (\<exists>x. r = Inr x \<and> x \<noteq> EAGAIN L))"
    and c: "sc_session c = None" and n: "0 < n"
  shows "\<exists>e w'. SSHClient_execute L n command out err c w = (Inl e, w') \<and> e \<in> {NullDeref, ProcessExit}"
  by (rule unreachable_execute [OF assms])

theorem ssh_unreachable_exits_witness:
  "\<exists>e w'. SSHClient_execute (script_lib\<lparr>sys_connect := \<lambda>fd a p. act_return (- 1),
       session_last_error := \<lambda>s. act_return (- 39)\<rparr>) 1 ''ls'' [] [] fresh_client ls_script = (Inl e, w') \<and>
     e \<in> {NullDeref, ProcessExit}"
  by (rule ssh_unreachable_exits [where fd = 3])
    (simp_all add: script_lib_def act_return_def fresh_client_def)

text \<open>
  C27. A client whose handshake failed never connects again. The socket and the session of the failed
  attempt stay set, so every later command is sent over that session: no call of the library that
  connects or authenticates has any influence on it, and the client is the same afterwards.
\<close>

theorem ssh_failed_handshake_kept:
  assumes "sys_socket L w = (Inr fd, w1)" "fd \<noteq> kSocketInit"
    and "sys_connect L fd (sc_host_addr c) (sc_port c) w1 = (Inr 0, w2)"
    and "session_init L w2 = (Inr (Some s), w3)" "session_set_blocking L s 0 w3 = (Inr u, w4)"
    and "session_handshake L s fd w4 = (Inr rc, w5)" "rc \<noteq> 0" "rc \<noteq> EAGAIN L" and "0 < n"
  shows "\<exists>c'. getConnection L n c w = (Inr c', w5) \<and>
    (\<forall>command out err. SSHClient_execute (L\<lparr>sys_socket := f1, sys_connect := f2, session_init := f3,
         session_handshake := f4, userauth_password := f5, userauth_publickey_fromfile := f6\<rparr>)
         n command out err c' = SSHClient_execute L n command out err c') \<and>
    (\<forall>command out err v flag out' err' c'' v'.
       SSHClient_execute L n command out err c' v = (Inr (flag, out', err', c''), v') \<longrightarrow> c'' = c')"
proof -
  let ?c = "c\<lparr>sc_sock := fd, sc_session := Some s\<rparr>"
  obtain k where n: "n = Suc k" using assms(9) by (cases n) auto
  have "getConnection L n c w = (Inr ?c, w5)"
    using assms(1-8) n
    by (simp add: getConnection_def connectTo_def start_session_def act_bind_def act_return_def Let_def)
  moreover have "SSHClient_execute (L\<lparr>sys_socket := f1, sys_connect := f2, session_init := f3,
         session_handshake := f4, userauth_password := f5, userauth_publickey_fromfile := f6\<rparr>)
         n command out err ?c = SSHClient_execute L n command out err ?c" for command out err
    using assms(2)
    by (simp add: SSHClient_execute_def SSHChannel_ctor_def createChannel_def SSHChannel_exec_def
        SSHChannel_close_def waitsocket_def cong: if_cong)
  moreover have "c'' = ?c"
    if "SSHClient_execute L n command out err ?c v = (Inr (flag, out', err', c''), v')"
    for command out err v flag out' err' c'' v'
    using that assms(2) by (auto simp: SSHClient_execute_def res_simps)
  ultimately show ?thesis by blast
qed

theorem ssh_failed_handshake_kept_witness:
  "\<exists>c'. getConnection (script_lib\<lparr>session_handshake := \<lambda>s fd. act_return (- 43)\<rparr>) 2 fresh_client ls_script =
       (Inr c', ls_script) \<and>
     SSHClient_execute (script_lib\<lparr>sys_socket := act_raise LogicError,
         sys_connect := \<lambda>fd a p. act_raise LogicError, session_handshake := \<lambda>s fd. act_raise LogicError\<rparr>)
       2 ''ls'' [] [] c' =
       SSHClient_execute (script_lib\<lparr>session_handshake := \<lambda>s fd. act_return (- 43)\<rparr>) 2 ''ls'' [] [] c'"
proof -
  let ?L = "script_lib\<lparr>session_handshake := \<lambda>s fd. act_return (- 43)\<rparr>"
  let ?M = "?L\<lparr>sys_socket := act_raise LogicError, sys_connect := \<lambda>fd a p. act_raise LogicError,
    session_init := session_init ?L, session_handshake := \<lambda>s fd. act_raise LogicError,
    userauth_password := userauth_password ?L, userauth_publickey_fromfile := userauth_publickey_fromfile ?L\<rparr>"
  have "\<exists>c'. getConnection ?L 2 fresh_client ls_script = (Inr c', ls_script) \<and>
    (\<forall>command out err. SSHClient_execute ?M 2 command out err c' = SSHClient_execute ?L 2 command out err c') \<and>
    (\<forall>command out err v flag out' err' c'' v'.
       SSHClient_execute ?L 2 command out err c' v = (Inr (flag, out', err', c''), v') \<longrightarrow> c'' = c')"
    by (rule ssh_failed_handshake_kept [where fd = 3 and s = "()" and rc = "- 43"])
      (simp_all add: script_lib_def act_return_def kSocketInit_def)
  then show ?thesis by auto
qed

text \<open>The trial program ends at its first command when its host cannot be reached.\<close>

lemma remoteWorks_unreachable:
  assumes down: "\<And>w. \<exists>w'. sys_socket L w = (Inr fd, w')"
      "\<And>a p w. \<exists>rc w'. sys_connect L fd a p w = (Inr rc, w') \<and> rc \<noteq> 0"
    and null: "\<And>w. \<exists>w'. channel_open_session L None w = (Inr None, w')"
      "\<And>w. \<exists>r w'. session_last_error L None w = (r, w') \<and> (r = Inl NullDeref \<or> (\<exists>x. r = Inr x \<and> x \<noteq> EAGAIN L))"
    and init: "ssh_init L w = (Inr 0, w1)" and n: "0 < n"
  shows "\<exists>e w'. remoteWorks L n tid w = (Inl e, w') \<and> e \<in> {NullDeref, ProcessExit}"
proof -
  let ?c = "\<lparr>sc_ip_addr = ''47.108.158.63'', sc_host_addr = inet_addr L ''47.108.158.63'', sc_port = 22,
    sc_username = ''young'', sc_password = [], sc_sock = kSocketInit, sc_session = None\<rparr>"
  obtain e w' where "SSHClient_execute L n ''uptime'' [] [] ?c w1 = (Inl e, w')" "e \<in> {NullDeref, ProcessExit}"
    using unreachable_execute [OF down null, of ?c n "''uptime''" "[]" "[]" w1] n by auto
  then show ?thesis
    using init
    by (simp add: remoteWorks_def SSHClient_ctor_def SSHClient_execute1_def act_bind_def act_return_def)
qed

end
