(* ===== verification/Control_Properties.thy ===== *)
theory Control_Properties
  imports Control Ssh_Properties
begin

text \<open>
  What \<open>ControlHelper\<close> does to a node, as the sequence of commands it sends. A remote that delegates
  to another one and records in the world every command it answers, with the answer where the code
  looks at it, makes the sequence visible; the theorems hold for every remote below it, so for every
  outcome of every command.
\<close>

section \<open>Recording\<close>

text \<open>
  A command with its result, a command with all it printed, and a command as the superuser, whose
  result is never looked at.
\<close>

datatype command = Plain string int | Capture string string | Sudo string

definition log_command ::
  "('a \<Rightarrow> command) \<Rightarrow> ('w, 'a) act \<Rightarrow> ('w \<times> command list, 'a) act" where
  "log_command ev m s =
     (case m (fst s) of
        (Inl e, w') \<Rightarrow> (Inl e, (w', snd s))
      | (Inr x, w') \<Rightarrow> (Inr x, (w', snd s @ [ev x])))"

definition recorded :: "('r, 'w) remote_class \<Rightarrow> ('r, 'w \<times> command list) remote_class" where
  "recorded R =
     \<lparr>rm_execute = (\<lambda>cmd out err r.
        log_command (\<lambda>(rc, out', err', r'). Capture cmd out') (rm_execute R cmd out err r)),
      rm_execute1 = (\<lambda>cmd r. log_command (\<lambda>(rc, r'). Plain cmd rc) (rm_execute1 R cmd r)),
      rm_sudoExecute1 = (\<lambda>cmd r. log_command (\<lambda>_. Sudo cmd) (rm_sudoExecute1 R cmd r))\<rparr>"

named_theorems recording \<open>what a call appends to the record\<close>

lemma recorded_execute [recording]:
  "rm_execute (recorded R) cmd out err r s = (Inr (rc, out', err', r'), s') \<longleftrightarrow>
     (\<exists>w'. rm_execute R cmd out err r (fst s) = (Inr (rc, out', err', r'), w') \<and>
        s' = (w', snd s @ [Capture cmd out']))"
  by (auto simp: recorded_def log_command_def split: prod.splits sum.splits)

lemma recorded_execute1 [recording]:
  "rm_execute1 (recorded R) cmd r s = (Inr (rc, r'), s') \<longleftrightarrow>
     (\<exists>w'. rm_execute1 R cmd r (fst s) = (Inr (rc, r'), w') \<and> s' = (w', snd s @ [Plain cmd rc]))"
  by (auto simp: recorded_def log_command_def split: prod.splits sum.splits)

lemma recorded_sudo [recording]:
  "rm_sudoExecute1 (recorded R) cmd r s = (Inr x, s') \<longleftrightarrow>
     (\<exists>w'. rm_sudoExecute1 R cmd r (fst s) = (Inr x, w') \<and> s' = (w', snd s @ [Sudo cmd]))"
  by (auto simp: recorded_def log_command_def split: prod.splits sum.splits)

lemma exists_recorded:
  assumes "exists_file (recorded R) f r s = (Inr (found, r'), s')"
  obtains rc where "found = (rc \<noteq> 0)" and "snd s' = snd s @ [Plain (''stat '' @ f) rc]"
  using assms by (auto simp: exists_file_def act_bind_eq_Inr act_return_eq recording)

section \<open>Files\<close>

definition cache_file :: "string \<Rightarrow> string" where
  "cache_file encoded_url = kWgetCacheDir @ ''/'' @ encoded_url"

text \<open>The file is downloaded when \<open>stat\<close> answers \<open>0\<close>, the result of a command that failed.\<close>

definition wget_commands :: "string \<Rightarrow> string \<Rightarrow> bool \<Rightarrow> int \<Rightarrow> command list" where
  "wget_commands url file force rc =
     (if force then [Sudo (''rm -rf '' @ file)] else []) @
     [Plain (''stat '' @ file) rc] @
     (if rc \<noteq> 0 then []
      else [Sudo (''mkdir -p '' @ kWgetCacheDir), Sudo (''wget -O '' @ file @ '' '' @ url)])"

lemma cachedWget_recorded:
  assumes "cachedWget (recorded R) nd url force r s = (Inr (file, r'), s')"
  shows "\<exists>encoded rc. base64_encode nd url = Inr encoded \<and> file = cache_file encoded \<and>
    snd s' = snd s @ wget_commands url file force rc"
proof -
  obtain encoded where enc: "base64_encode nd url = Inr encoded"
    using assms by (auto simp: cachedWget_def act_bind_eq_Inr act_lift_eq dest: sym)
  let ?file = "cache_file encoded"
  let ?rm = "if force then [Sudo (''rm -rf '' @ ?file)] else []"
  obtain r1 s1 found r2 s2 where s1: "snd s1 = snd s @ ?rm"
    and s2: "exists_file (recorded R) ?file r1 s1 = (Inr (found, r2), s2)"
    and rest: "(if \<not> found then
        act_bind (rm_sudoExecute1 (recorded R) (''mkdir -p '' @ kWgetCacheDir) r2) (\<lambda>(_, r3).
          act_bind (rm_sudoExecute1 (recorded R) (''wget '' @ (''-O '' @ ?file) @ '' '' @ url) r3)
            (\<lambda>(_, r4). act_return (?file, r4)))
      else act_return (?file, r2)) s2 = (Inr (file, r'), s')"
    using assms enc
    by (auto simp: cachedWget_def act_bind_eq_Inr act_lift_eq act_return_eq Let_def recording
        cache_file_def split: if_splits; fastforce)
  obtain rc where "found = (rc \<noteq> 0)" "snd s2 = snd s1 @ [Plain (''stat '' @ ?file) rc]"
    using s2 by (rule exists_recorded)
  moreover have "file = ?file \<and> snd s' = snd s2 @ (if found then []
      else [Sudo (''mkdir -p '' @ kWgetCacheDir), Sudo (''wget -O '' @ ?file @ '' '' @ url)])"
    using rest by (auto simp: act_bind_eq_Inr act_return_eq recording split: if_splits)
  ultimately show ?thesis using enc s1 by (auto simp: wget_commands_def)
qed

text \<open>The first \<open>k\<close> directories that are drawn.\<close>

fun drawn_dirs :: "nat \<Rightarrow> rng \<Rightarrow> string list" where
  "drawn_dirs 0 g = []"
| "drawn_dirs (Suc k) g = (let (dir, g') = random_dir g in dir # drawn_dirs k g')"

text \<open>
  The directories are looked at in the order they are drawn; each one but the last was there, and the
  last, which is taken, was not.
\<close>

definition search_commands :: "rng \<Rightarrow> (string \<times> int) list \<Rightarrow> string \<Rightarrow> command list \<Rightarrow> bool" where
  "search_commands g tried dir cmds \<longleftrightarrow>
     map fst tried @ [dir] = drawn_dirs (Suc (length tried)) g \<and> list_all (\<lambda>(d, rc). rc \<noteq> 0) tried \<and>
     cmds = map (\<lambda>(d, rc). Plain (''stat '' @ d) rc) tried @ [Plain (''stat '' @ dir) 0]"

lemma tmpDir_loop_recorded:
  assumes "tmpDir_loop n (recorded R) dir g r s = (Inr (dir', g', r'), s')" and "random_dir g0 = (dir, g)"
  shows "\<exists>tried cmds. search_commands g0 tried dir' cmds \<and> snd s' = snd s @ cmds"
  using assms
proof (induction n arbitrary: dir g g0 r s)
  case 0
  then show ?case by (simp add: act_raise_eq)
next
  case (Suc n)
  obtain found r1 s1 where s1: "exists_file (recorded R) dir r s = (Inr (found, r1), s1)"
    "(if found then let (dir', g') = random_dir g in tmpDir_loop n (recorded R) dir' g' r1
      else act_return (dir, g, r1)) s1 = (Inr (dir', g', r'), s')"
    using Suc.prems(1) by (auto simp: act_bind_eq_Inr)
  obtain rc where rc: "found = (rc \<noteq> 0)" "snd s1 = snd s @ [Plain (''stat '' @ dir) rc]"
    using s1(1) by (rule exists_recorded)
  show ?case
  proof (cases found)
    case True
    obtain d2 g2 where d2: "random_dir g = (d2, g2)" by force
    then have "tmpDir_loop n (recorded R) d2 g2 r1 s1 = (Inr (dir', g', r'), s')"
      using s1(2) True by simp
    from Suc.IH [OF this d2] obtain tried cmds where
      "search_commands g tried dir' cmds" "snd s' = snd s1 @ cmds" by blast
    then show ?thesis
      using rc True Suc.prems(2)
      by (intro exI [of _ "(dir, rc) # tried"]) (auto simp: search_commands_def)
  next
    case False
    then show ?thesis
      using s1(2) rc Suc.prems(2)
      by (intro exI [of _ "[]"] exI [of _ "[Plain (''stat '' @ dir) 0]"])
        (simp add: search_commands_def act_return_eq)
  qed
qed

lemma tmpDir_recorded:
  assumes "tmpDir n (recorded R) g r s = (Inr (dir, g', r'), s')"
  shows "\<exists>tried cmds. search_commands g tried dir cmds \<and> snd s' = snd s @ cmds @ [Sudo (''mkdir -p '' @ dir)]"
proof -
  obtain d1 g1 where d1: "random_dir g = (d1, g1)" by force
  then obtain r1 s1 where s1: "tmpDir_loop n (recorded R) d1 g1 r s = (Inr (dir, g', r1), s1)"
    "snd s' = snd s1 @ [Sudo (''mkdir -p '' @ dir)]"
    using assms by (auto simp: tmpDir_def act_bind_eq_Inr act_return_eq recording)
  then show ?thesis using tmpDir_loop_recorded [OF s1(1) d1] by auto
qed

definition extract_command :: "string \<Rightarrow> string \<Rightarrow> string \<Rightarrow> command" where
  "extract_command url file tmp_dir =
     Sudo (if ends_in_zip url then ''unzip '' @ file
       else ''tar --no-same-owner --no-same-permissions --extract --file '' @ file @ '' -C '' @ tmp_dir)"

text \<open>What is moved: the only entry of the directory, else the directory.\<close>

definition archive_root :: "string list \<Rightarrow> string \<Rightarrow> string" where
  "archive_root result tmp_dir =
     (if length result = 1 \<or> length result = 2 \<and> result ! 1 = []
      then tmp_dir @ ''/'' @ result ! 0 else tmp_dir)"

lemma moveArchive_recorded:
  assumes "moveArchive split (recorded R) tmp_dir dest r s = (Inr r', s')"
  shows "\<exists>out. snd s' = snd s @ [Capture (''ls -A '' @ tmp_dir) out,
    Sudo (''mv '' @ archive_root (split out) tmp_dir @ '' '' @ dest), Sudo (''rm -rf '' @ tmp_dir)]"
proof -
  obtain rc out err r1 s1 where ls: "rm_execute (recorded R) (''ls -A '' @ tmp_dir) [] [] r s =
      (Inr (rc, out, err, r1), s1)"
    using assms by (auto simp: moveArchive_def act_bind_eq_Inr)
  let ?src = "archive_root (split out) tmp_dir"
  have "(if length (split out) = 1 \<or> length (split out) = 2 \<and> split out ! 1 = [] then
            let tmp = tmp_dir @ ''/'' @ split out ! 0 in
            rm_sudoExecute1 (recorded R) (''mv '' @ tmp @ '' '' @ dest) r1
          else rm_sudoExecute1 (recorded R) (''mv '' @ tmp_dir @ '' '' @ dest) r1) =
      rm_sudoExecute1 (recorded R) (''mv '' @ ?src @ '' '' @ dest) r1"
    by (simp add: archive_root_def)
  then have "act_bind (rm_sudoExecute1 (recorded R) (''mv '' @ ?src @ '' '' @ dest) r1)
      (\<lambda>(_, r2). act_bind (rm_sudoExecute1 (recorded R) (''rm -rf '' @ tmp_dir) r2)
        (\<lambda>(_, r3). act_return r3)) s1 = (Inr r', s')"
    using assms ls by (simp add: moveArchive_def act_bind_step Let_def)
  then have "snd s' = snd s1 @ [Sudo (''mv '' @ ?src @ '' '' @ dest), Sudo (''rm -rf '' @ tmp_dir)]"
    by (auto simp: act_bind_eq_Inr act_return_eq recording)
  then show ?thesis using ls by (auto simp: recording)
qed

text \<open>
  The commands of \<open>installArchive\<close>: \<open>rc\<close> is what \<open>stat\<close> answered for the cached file, \<open>tried\<close> are the
  directories that were there already, \<open>out\<close> is what \<open>ls\<close> printed.
\<close>

definition install_commands ::
  "(string \<Rightarrow> string list) \<Rightarrow> string \<Rightarrow> string \<Rightarrow> bool \<Rightarrow> rng \<Rightarrow> string \<Rightarrow> command list \<Rightarrow> bool" where
  "install_commands split url dest force g file cmds \<longleftrightarrow>
     (\<exists>rc tried tmp_dir search out. search_commands g tried tmp_dir search \<and>
       cmds = wget_commands url file force rc @ search @
         [Sudo (''mkdir -p '' @ tmp_dir), extract_command url file tmp_dir, Capture (''ls -A '' @ tmp_dir) out,
          Sudo (''mv '' @ archive_root (split out) tmp_dir @ '' '' @ dest), Sudo (''rm -rf '' @ tmp_dir)])"

lemma install_recorded:
  assumes "installArchive split n (recorded R) nd url dest force g r s = (Inr (ok, g', r'), s')"
  shows "ok \<and> (\<exists>encoded cmds. base64_encode nd url = Inr encoded \<and>
    install_commands split url dest force g (cache_file encoded) cmds \<and> snd s' = snd s @ cmds)"
proof -
  obtain arch r1 s1 where wget: "cachedWget (recorded R) nd url force r s = (Inr (arch, r1), s1)"
    using assms by (auto simp: installArchive_def act_bind_eq_Inr)
  then obtain tmp_dir g1 r2 s2 where tmp: "tmpDir n (recorded R) g r1 s1 = (Inr (tmp_dir, g1, r2), s2)"
    using assms by (auto simp: installArchive_def act_bind_eq_Inr)
  obtain x r3 s3 r4 s4 where ext: "extractArchive (recorded R) url arch tmp_dir r2 s2 = (Inr (x, r3), s3)"
    and mv: "moveArchive split (recorded R) tmp_dir dest r3 s3 = (Inr r4, s4)"
    and ok: "ok" "s' = s4"
    using assms wget tmp by (auto simp: installArchive_def act_bind_eq_Inr act_return_eq)
  obtain encoded rc where enc: "base64_encode nd url = Inr encoded" "arch = cache_file encoded"
    "snd s1 = snd s @ wget_commands url arch force rc"
    using cachedWget_recorded [OF wget] by blast
  obtain tried search where dir: "search_commands g tried tmp_dir search"
    "snd s2 = snd s1 @ search @ [Sudo (''mkdir -p '' @ tmp_dir)]"
    using tmpDir_recorded [OF tmp] by blast
  have s3: "snd s3 = snd s2 @ [extract_command url arch tmp_dir]"
    using ext by (auto simp: extractArchive_def extract_command_def recording split: if_splits)
  obtain out where s4: "snd s' = snd s3 @ [Capture (''ls -A '' @ tmp_dir) out,
      Sudo (''mv '' @ archive_root (split out) tmp_dir @ '' '' @ dest), Sudo (''rm -rf '' @ tmp_dir)]"
    using moveArchive_recorded [OF mv] ok(2) by blast
  let ?cmds = "wget_commands url arch force rc @ search @ [Sudo (''mkdir -p '' @ tmp_dir),
    extract_command url arch tmp_dir, Capture (''ls -A '' @ tmp_dir) out,
    Sudo (''mv '' @ archive_root (split out) tmp_dir @ '' '' @ dest), Sudo (''rm -rf '' @ tmp_dir)]"
  have "install_commands split url dest force g (cache_file encoded) ?cmds"
    unfolding install_commands_def enc(2) [symmetric] using dir(1) by blast
  moreover have "snd s' = snd s @ ?cmds" unfolding s4 s3 dir(2) enc(3) by simp
  ultimately show ?thesis using ok(1) enc(1) by blast
qed

text \<open>
  The commands of \<open>installArchive\<close>, for every outcome of every one of them: the archive is
  fetched into the cache unless \<open>stat\<close> finds it there, directories are drawn until \<open>stat\<close> does not find
  one, which is made, the archive is extracted, its only top-level entry (or the whole directory) is
  moved to the destination and the directory removed. The answer is success whatever the
  commands answered.
\<close>

theorem install_archive_commands:
  assumes "installArchive split n (recorded R) nd url dest force g r s = (Inr (ok, g', r'), s')"
  shows "ok \<and> (\<exists>encoded cmds. base64_encode nd url = Inr encoded \<and>
    install_commands split url dest force g (cache_file encoded) cmds \<and> snd s' = snd s @ cmds)"
  by (rule install_recorded [OF assms])

text \<open>A remote that answers success to everything, and one top-level entry to \<open>ls\<close>.\<close>

definition yes_remote :: "(unit, unit) remote_class" where
  "yes_remote =
     \<lparr>rm_execute = (\<lambda>cmd out err r. act_return (1, out @ ''etcd'' @ [CHR 0x0A], err, r)),
      rm_execute1 = (\<lambda>cmd r. act_return (if cmd = ''stat /tmp/jepsen/7'' then 0 else 1, r)),
      rm_sudoExecute1 = (\<lambda>cmd r. act_return (1, r))\<rparr>"

fun split_lines :: "string \<Rightarrow> string list" where
  "split_lines [] = [[]]"
| "split_lines (c # cs) =
     (if c = CHR 0x0A then [] # split_lines cs
      else case split_lines cs of l # ls \<Rightarrow> (c # l) # ls | [] \<Rightarrow> [[c]])"

lemmas yes_defs =
  recorded_def yes_remote_def log_command_def act_return_def act_bind_def exists_file_def Let_def
  kWgetCacheDir_def kTempDir_def

lemma yes_install:
  "installArchive split_lines 1 (recorded yes_remote) True ''hi!'' ''/opt/etcd'' False [7] () ((), []) =
     (Inr (True, [], ()), (),
      [Plain ''stat /tmp/jepsen/wget-cache/aGkh'' 1, Plain ''stat /tmp/jepsen/7'' 0,
       Sudo ''mkdir -p /tmp/jepsen/7'',
       Sudo ''tar --no-same-owner --no-same-permissions --extract --file /tmp/jepsen/wget-cache/aGkh -C /tmp/jepsen/7'',
       Capture ''ls -A /tmp/jepsen/7'' (''etcd'' @ [CHR 0x0A]), Sudo ''mv /tmp/jepsen/7/etcd /opt/etcd'',
       Sudo ''rm -rf /tmp/jepsen/7''])"
proof -
  have seven: "int_to_string 7 = ''7''"
    by (simp add: int_to_string_def nat_to_string.simps digit_def) code_simp
  have one: "cachedWget (recorded yes_remote) True ''hi!'' False () ((), []) =
      (Inr (''/tmp/jepsen/wget-cache/aGkh'', ()), (), [Plain ''stat /tmp/jepsen/wget-cache/aGkh'' 1])"
    by (simp add: cachedWget_def encode_hi act_lift_def yes_defs)
  have two: "tmpDir 1 (recorded yes_remote) [7] () ((), l) =
      (Inr (''/tmp/jepsen/7'', [], ()), (), l @ [Plain ''stat /tmp/jepsen/7'' 0, Sudo ''mkdir -p /tmp/jepsen/7''])" for l
    by (simp add: tmpDir_def random_dir_def rand_def RAND_MAX_def seven yes_defs)
  show ?thesis
    unfolding installArchive_def act_bind_def one sum.case prod.case two
    by (simp add: extractArchive_def moveArchive_def ends_in_zip_def yes_defs)
qed

theorem install_archive_commands_witness:
  "install_commands split_lines ''hi!'' ''/opt/etcd'' False [7] (cache_file ''aGkh'')
     [Plain ''stat /tmp/jepsen/wget-cache/aGkh'' 1, Plain ''stat /tmp/jepsen/7'' 0,
      Sudo ''mkdir -p /tmp/jepsen/7'',
      Sudo ''tar --no-same-owner --no-same-permissions --extract --file /tmp/jepsen/wget-cache/aGkh -C /tmp/jepsen/7'',
      Capture ''ls -A /tmp/jepsen/7'' (''etcd'' @ [CHR 0x0A]), Sudo ''mv /tmp/jepsen/7/etcd /opt/etcd'',
      Sudo ''rm -rf /tmp/jepsen/7'']"
  using install_archive_commands [OF yes_install] unfolding encode_hi by simp

section \<open>Names of cached files\<close>

lemma cachedWget_file:
  assumes "cachedWget R nd url force r s = (Inr (file, r'), s')"
  shows "\<exists>encoded. base64_encode nd url = Inr encoded \<and> file = cache_file encoded"
proof -
  obtain encoded where enc: "base64_encode nd url = Inr encoded"
    using assms by (auto simp: cachedWget_def act_bind_eq_Inr act_lift_eq dest: sym)
  moreover have "file = cache_file encoded"
    using assms enc
    by (auto simp: cachedWget_def act_bind_eq_Inr act_lift_eq act_return_eq cache_file_def Let_def
        split: if_splits)
  ultimately show ?thesis by blast
qed

lemma encode_inj:
  assumes "base64_encode nd url1 = Inr e" and "base64_encode nd url2 = Inr e"
  shows "url1 = url2"
proof -
  have dec: "base64_decode e = Inr url" if "base64_encode nd url = Inr e" for url
  proof -
    have "length url \<le> size_max div 4 * 3"
      using that by (simp add: base64_encode_def split: if_splits)
    then show ?thesis using that encode_eval [of url nd] decode_encoded by (auto split: if_splits)
  qed
  show ?thesis using dec [OF assms(1)] dec [OF assms(2)] by simp
qed

text \<open>
  The cache never confuses two downloads: two URLs share a cached file only when they are the
  same, on whatever nodes and with whatever outcomes they were fetched.
\<close>

theorem wget_cache_injective:
  assumes "cachedWget R1 nd url1 force1 r1 s1 = (Inr (file1, r1'), s1')"
    and "cachedWget R2 nd url2 force2 r2 s2 = (Inr (file2, r2'), s2')"
  shows "file1 = file2 \<longleftrightarrow> url1 = url2"
  using cachedWget_file [OF assms(1)] cachedWget_file [OF assms(2)] encode_inj [of nd url1 _ url2]
  by (auto simp: cache_file_def)

lemma encode_query: "base64_encode True ''ab?'' = Inr ''YWI/''"
proof -
  have "b64 ''ab?'' = ''YWI/''" by code_simp
  moreover have "padding ''ab?'' = 0" unfolding padding_def length_b64 by simp
  moreover have "length ''ab?'' \<le> size_max div 4 * 3" by (simp add: size_max_def)
  ultimately show ?thesis using encode_eval [of "''ab?''" True] by simp
qed

lemma yes_wget:
  "cachedWget yes_remote True ''hi!'' False () () = (Inr (''/tmp/jepsen/wget-cache/aGkh'', ()), ())"
  "cachedWget yes_remote True ''ab?'' True () () = (Inr (''/tmp/jepsen/wget-cache/YWI/'', ()), ())"
  by (simp_all add: cachedWget_def encode_hi encode_query act_lift_def yes_defs)

theorem wget_cache_injective_witness:
  "(''/tmp/jepsen/wget-cache/aGkh'' = ''/tmp/jepsen/wget-cache/YWI/'') = (''hi!'' = ''ab?'')"
  by (rule wget_cache_injective [OF yes_wget])

lemma b64_slash:
  "3 * k + 2 < length s \<Longrightarrow> s ! (3 * k + 2) = CHR ''?'' \<Longrightarrow> CHR ''/'' \<in> set (b64 s)"
proof (induction s arbitrary: k rule: b64.induct)
  case (4 x y z cs)
  have "sym (group4 (byte CHR ''?'')) = CHR ''/''"
    by (simp add: sym_def group4_def byte_def b64_table_def take_bit_eq_mod)
  then show ?case using 4 by (cases k) auto
qed auto

text \<open>
  The encoder's alphabet contains the slash, so a cached file need not lie in the cache
  directory itself: a URL with a question mark as the last of a group of three characters is
  downloaded to a path below a directory of the cache that no command has made.
\<close>

theorem wget_cache_subdirectory:
  assumes "cachedWget (recorded R) nd url force r s = (Inr (file, r'), s')"
    and "3 * k + 2 < length url" and "url ! (3 * k + 2) = CHR ''?''"
  shows "\<exists>name rc. file = kWgetCacheDir @ ''/'' @ name \<and> CHR ''/'' \<in> set name \<and>
    snd s' = snd s @ wget_commands url file force rc"
proof -
  obtain encoded rc where enc: "base64_encode nd url = Inr encoded" "file = cache_file encoded"
    "snd s' = snd s @ wget_commands url file force rc"
    using cachedWget_recorded [OF assms(1)] by blast
  have "length url \<le> size_max div 4 * 3"
    using enc(1) by (simp add: base64_encode_def split: if_splits)
  then have "set (b64 url) \<subseteq> set encoded"
    using enc(1) encode_eval [of url nd] by (auto split: if_splits)
  then show ?thesis using b64_slash [OF assms(2,3)] enc(2,3) by (auto simp: cache_file_def)
qed

lemma yes_wget_recorded:
  "cachedWget (recorded yes_remote) True ''ab?'' False () ((), []) =
     (Inr (''/tmp/jepsen/wget-cache/YWI/'', ()), (), [Plain ''stat /tmp/jepsen/wget-cache/YWI/'' 1])"
  by (simp add: cachedWget_def encode_query act_lift_def yes_defs)

theorem wget_cache_subdirectory_witness:
  "\<exists>name rc. ''/tmp/jepsen/wget-cache/YWI/'' = kWgetCacheDir @ ''/'' @ name \<and> CHR ''/'' \<in> set name \<and>
     [Plain ''stat /tmp/jepsen/wget-cache/YWI/'' 1] =
       wget_commands ''ab?'' ''/tmp/jepsen/wget-cache/YWI/'' False rc"
  using wget_cache_subdirectory [OF yes_wget_recorded, of 0] by simp

section \<open>Daemons\<close>

text \<open>
  A daemon is started when log file, process file and directory are all given, and else
  \<open>startDaemon\<close> raises; without a log file no command has been sent by then, without one of the
  others the line in the log has been written.
\<close>

theorem start_daemon_options_needed:
  assumes total: "\<And>cmd r w. \<exists>rc r' w'. rm_sudoExecute1 R cmd r w = (Inr (rc, r'), w')"
  shows "\<exists>res w' cmds. startDaemon stem (recorded R) opts bin args r (w, l) = (res, (w', l @ cmds)) \<and>
    (if opt_logfile opts = None then res = Inl LogicError \<and> cmds = []
     else \<exists>echo. echo_command opts (stem bin) args = Inr echo \<and>
       (if opt_pidfile opts = None \<or> opt_chdir opts = None
        then res = Inl LogicError \<and> cmds = [Sudo echo]
        else \<exists>command r'. daemon_command opts bin (stem bin) args = Inr command \<and>
               res = Inr r' \<and> cmds = [Sudo echo, Sudo command]))"
proof (cases "opt_logfile opts")
  case None
  then show ?thesis
    by (simp add: startDaemon_def echo_command_def value_of_def act_bind_def act_lift_def)
next
  case (Some logfile)
  then obtain echo where echo: "echo_command opts (stem bin) args = Inr echo"
    by (simp add: echo_command_def value_of_def)
  obtain rc r1 w1 where w1: "rm_sudoExecute1 R echo r w = (Inr (rc, r1), w1)" using total by blast
  then have rec1: "rm_sudoExecute1 (recorded R) echo r (w, l) = (Inr (rc, r1), (w1, l @ [Sudo echo]))"
    by (simp add: recorded_def log_command_def)
  show ?thesis
  proof (cases "opt_pidfile opts = None \<or> opt_chdir opts = None")
    case True
    then have "daemon_command opts bin (stem bin) args = Inl LogicError"
      by (auto simp: daemon_command_def value_of_def bind_res_def split: option.splits)
    then show ?thesis
      using Some True echo rec1 by (simp add: startDaemon_def act_bind_def act_lift_def Let_def)
  next
    case False
    then obtain command where cmd: "daemon_command opts bin (stem bin) args = Inr command"
      using Some by (auto simp: daemon_command_def value_of_def Let_def)
    obtain rc2 r2 w2 where w2: "rm_sudoExecute1 R command r1 w1 = (Inr (rc2, r2), w2)"
      using total by blast
    then have rec2: "rm_sudoExecute1 (recorded R) command r1 (w1, l @ [Sudo echo]) =
        (Inr (rc2, r2), (w2, l @ [Sudo echo, Sudo command]))"
      by (simp add: recorded_def log_command_def)
    show ?thesis
      using Some False echo rec1 cmd rec2
      by (simp add: startDaemon_def act_bind_def act_lift_def act_return_def Let_def)
  qed
qed

theorem start_daemon_options_needed_witness:
  "\<exists>echo. startDaemon id (recorded yes_remote) (no_options\<lparr>opt_logfile := Some ''log''\<rparr>) ''etcd'' []
     () ((), []) = (Inl LogicError, ((), [Sudo echo]))"
  using start_daemon_options_needed [of yes_remote id "no_options\<lparr>opt_logfile := Some ''log''\<rparr>" "''etcd''"
      "[]" "()" "()" "[]"]
  by (auto simp: yes_remote_def act_return_def no_options_def)

section \<open>Over SSH\<close>

context remote_contract
begin

lemma exists_verdict:
  assumes "exists_file R f r w = (Inr (found, r'), w')"
  shows "\<exists>rc. rm_execute1 R (''stat '' @ f) r w = (Inr (rc, r'), w') \<and> found = (rc = 1)"
  using assms verdict_bool by (fastforce simp: exists_file_def act_bind_eq_Inr act_return_eq)

end

lemma exists_over_ssh:
  assumes "rm_execute1 (SSHRemote format L n) (''stat '' @ f) r w = (Inr (if b then 1 else 0, r), w')"
  shows "exists_file (SSHRemote format L n) f r w = (Inr (b, r), w')"
proof -
  have "\<exists>found. exists_file (SSHRemote format L n) f r w = (Inr (found, r), w')"
    using assms by (simp add: exists_file_def act_bind_def act_return_def)
  then obtain found where "exists_file (SSHRemote format L n) f r w = (Inr (found, r), w')" ..
  then show ?thesis using ssh_remote.exists_verdict [of format L n f r w found] assms by auto
qed

text \<open>
  C24. Over an open SSH connection a command gives all it prints, on both streams and in order,
  in whatever pieces the bytes arrive and however often libssh2 asks to try again; the answer is
  1 exactly when the exit status is 0 and no signal ended the command, which is what
  \<open>ControlHelper::exists\<close> reads as the file being there; and the connection stays as it is.
\<close>

theorem ssh_remote_output:
  assumes plays: "plays L s h scr" and r: "sc_session (sr_ssh_client r) = Some s"
      "sc_sock (sr_ssh_client r) \<noteq> kSocketInit"
    and full: "Data [] \<notin> set (scr_out (scr w))" "Data [] \<notin> set (scr_err (scr w))"
    and n: "rounds (scr w) \<le> n"
  shows "(\<exists>w'. rm_execute (SSHRemote format L n) cmd out err r w =
      (Inr (if scr_status (scr w) = 0 \<and> scr_signal (scr w) = None then 1 else 0,
            out @ payload (scr_out (scr w)), err @ payload (scr_err (scr w)), r), w')) \<and>
    (\<exists>w'. exists_file (SSHRemote format L n) f r w =
      (Inr (scr_status (scr w) = 0 \<and> scr_signal (scr w) = None, r), w'))"
proof
  note all = execute_output [OF plays r full n]
  have same: "r\<lparr>sr_ssh_client := sr_ssh_client r\<rparr> = r" by simp
  show "\<exists>w'. rm_execute (SSHRemote format L n) cmd out err r w =
      (Inr (if scr_status (scr w) = 0 \<and> scr_signal (scr w) = None then 1 else 0,
            out @ payload (scr_out (scr w)), err @ payload (scr_err (scr w)), r), w')"
    using all [of cmd out err]
    by (auto simp: SSHRemote_def SSHRemote_execute_def SSHRemote_execute5_def act_bind_def act_return_def)
  have "\<exists>w'. rm_execute1 (SSHRemote format L n) (''stat '' @ f) r w =
      (Inr (if scr_status (scr w) = 0 \<and> scr_signal (scr w) = None then 1 else 0, r), w')"
    using all [of "''stat '' @ f" "[]" "[]"]
    by (auto simp: SSHRemote_def SSHRemote_execute1_def SSHRemote_execute3_def act_bind_def act_return_def)
  then show "\<exists>w'. exists_file (SSHRemote format L n) f r w =
      (Inr (scr_status (scr w) = 0 \<and> scr_signal (scr w) = None, r), w')"
    by (elim exE) (rule exI, erule exists_over_ssh)
qed

definition open_remote :: "unit ssh_remote" where
  "open_remote =
     \<lparr>sr_concurrency_limit = 10,
      sr_conn_spec = \<lparr>cs_host = ''n1'', cs_port = 22, cs_username = ''u'', cs_password = ''p'',
        cs_private_key_path = [], cs_strict_host_key_checking = False\<rparr>,
      sr_ssh_client = open_client, sr_ctx = SSHContext_default\<rparr>"

theorem ssh_remote_output_witness:
  "\<exists>w'. rm_execute (SSHRemote (\<lambda>f as. f) script_lib 20) ''ls'' [] [] open_remote ls_script =
     (Inr (1, ''etcd'', [], open_remote), w')"
proof -
  have "sc_session (sr_ssh_client open_remote) = Some ()"
    "sc_sock (sr_ssh_client open_remote) \<noteq> kSocketInit"
    "Data [] \<notin> set (scr_out (id ls_script))" "Data [] \<notin> set (scr_err (id ls_script))"
    "rounds (id ls_script) \<le> 20"
    by (simp_all add: open_remote_def open_client_def kSocketInit_def ls_script_def rounds_def)
  from ssh_remote_output [OF script_lib_plays this, of "\<lambda>f as. f" "''ls''" "[]" "[]"]
  show ?thesis by (simp add: ls_script_def)
qed

end
