(* ===== verification/Etcd_Database.thy ===== *)
theory Etcd_Database
  imports Lifecycle Control_Properties
begin

text \<open>
  The database of the trial program (\<open>test/etcd/ETCD.h\<close>, \<open>ETCD.cpp\<close>), over the commands of
  \<open>ControlHelper\<close>. \<open>etcd_env\<close> collects the parameters of those commands: the remotes behind the
  shared pointers, \<open>boost::split\<close>, \<open>boost::format\<close>, \<open>boost::filesystem::path::stem\<close>, the rounds for
  the search of a temporary directory. The draws of \<open>rand\<close> are part of the world.
\<close>

section \<open>Constants and state\<close>

definition kDir :: string where
  "kDir = ''/opt/etcd''"

definition kBinary :: string where
  "kBinary = ''etcd''"

definition kLogFile :: string where
  "kLogFile = kDir @ ''/etcd.log''"

definition kPidFile :: string where
  "kPidFile = kDir @ ''/etcd.pid''"

record etcd_db =
  ed_remotes :: remotes
  ed_nodes :: "string list"
  ed_version :: string
  ed_ip_map :: "(string \<times> string) list"

definition ETCD_ctor :: "string list \<Rightarrow> etcd_db" where
  "ETCD_ctor nodes =
     \<lparr>ed_remotes = [], ed_nodes = nodes, ed_version = ''v3.1.5'',
      ed_ip_map = [(''47.108.193.81'', ''172.24.234.239''), (''47.108.227.187'', ''172.24.234.240''),
        (''47.108.208.93'', ''172.24.234.241'')]\<rparr>"

definition DB_initRemotes :: "remotes \<Rightarrow> etcd_db \<Rightarrow> etcd_db" where
  "DB_initRemotes m this = this\<lparr>ed_remotes := m\<rparr>"

record 'w etcd_env =
  en_remote :: "(remote_ptr, 'w) remote_class"
  en_split :: "string \<Rightarrow> string list"
  en_format :: "string \<Rightarrow> string list \<Rightarrow> string"
  en_stem :: "string \<Rightarrow> string"
  en_ndebug :: bool
  en_rounds :: nat

section \<open>Addresses\<close>

text \<open>\<open>ip_map[node]\<close>: a node that is not in the map is inserted with the empty address.\<close>

definition ip_at :: "string \<Rightarrow> etcd_db \<Rightarrow> string \<times> etcd_db" where
  "ip_at node this =
     (case map_of (ed_ip_map this) node of
        Some ip \<Rightarrow> (ip, this)
      | None \<Rightarrow> ([], this\<lparr>ed_ip_map := ed_ip_map this @ [(node, [])]\<rparr>))"

definition ETCD_nodeURL :: "string \<Rightarrow> int \<Rightarrow> bool \<Rightarrow> etcd_db \<Rightarrow> string \<times> etcd_db" where
  "ETCD_nodeURL node port local this =
     (let (ip, this') = ip_at node this;
          base = ''http://'' @ ip @ '':'' @ int_to_string port in
      if local then (''http://127.0.0.1:'' @ int_to_string port @ '','' @ base, this')
      else (base, this'))"

definition ETCD_peerURL :: "string \<Rightarrow> bool \<Rightarrow> etcd_db \<Rightarrow> string \<times> etcd_db" where
  "ETCD_peerURL node local this = ETCD_nodeURL node 2380 local this"

definition ETCD_clientURL :: "string \<Rightarrow> bool \<Rightarrow> etcd_db \<Rightarrow> string \<times> etcd_db" where
  "ETCD_clientURL node local this = ETCD_nodeURL node 2379 local this"

text \<open>The loop of \<open>initialCluster\<close>, from index \<open>i\<close> on.\<close>

fun cluster_loop :: "nat \<Rightarrow> string list \<Rightarrow> string \<Rightarrow> etcd_db \<Rightarrow> string \<times> etcd_db" where
  "cluster_loop i [] initial_cluster this = (initial_cluster, this)"
| "cluster_loop i (node # nodes) initial_cluster this =
     (let (url, this') = ETCD_peerURL node False this in
      cluster_loop (Suc i) nodes
        (initial_cluster @ '',n'' @ int_to_string (int i) @ ''='' @ url) this')"

text \<open>\<open>nodes[0]\<close> of no nodes is undefined.\<close>

definition ETCD_initialCluster :: "etcd_db \<Rightarrow> (string \<times> etcd_db) res" where
  "ETCD_initialCluster this =
     (case ed_nodes this of
        [] \<Rightarrow> Inl OutOfRange
      | node # nodes \<Rightarrow>
          (let (url, this') = ETCD_peerURL node False this in
           Inr (cluster_loop 1 nodes (''n0='' @ url) this')))"

text \<open>The search loop: the index after the last node when there is no such node.\<close>

fun node_index :: "string \<Rightarrow> string list \<Rightarrow> nat" where
  "node_index node [] = 0"
| "node_index node (n # ns) = (if n = node then 0 else Suc (node_index node ns))"

section \<open>Setting up and tearing down\<close>

definition etcd_args_template :: string where
  "etcd_args_template =
     '' --log-output stderr'' @ '' --name %s'' @ '' --listen-peer-urls %s'' @
     '' --listen-client-urls %s'' @ '' --advertise-client-urls %s'' @ '' --initial-cluster-state new'' @
     '' --initial-advertise-peer-urls %s'' @ '' --initial-cluster %s''"

definition etcd_url :: "etcd_db \<Rightarrow> string" where
  "etcd_url this =
     ''https://storage.googleapis.com/etcd/'' @ ed_version this @ ''/etcd-'' @ ed_version this @
     ''-linux-amd64.tar.gz''"

definition etcd_options :: start_daemon_options where
  "etcd_options =
     no_options\<lparr>opt_logfile := Some kLogFile, opt_pidfile := Some kPidFile, opt_chdir := Some kDir\<rparr>"

definition etcd_arguments :: "string \<Rightarrow> etcd_db \<Rightarrow> (string list \<times> etcd_db) res" where
  "etcd_arguments node this =
     (let name = ''n'' @ int_to_string (int (node_index node (ed_nodes this)));
          (listen_peer_url, this1) = ETCD_peerURL node False this;
          (listen_client_url, this2) = ETCD_clientURL node True this1 in
      bind_res (ETCD_initialCluster this2) (\<lambda>(initial_cluster, this3).
        Inr ([name, listen_peer_url, listen_client_url, listen_client_url, listen_peer_url,
              initial_cluster], this3)))"

text \<open>A call that draws from the stream in the world, and one that does not.\<close>

definition drawing :: "(rng \<Rightarrow> ('w, 'a \<times> rng) act) \<Rightarrow> ('w \<times> rng, 'a) act" where
  "drawing m s =
     (case m (snd s) (fst s) of
        (Inl e, w') \<Rightarrow> (Inl e, (w', snd s))
      | (Inr (x, g'), w') \<Rightarrow> (Inr x, (w', g')))"

definition not_drawing :: "('w, 'a) act \<Rightarrow> ('w \<times> rng, 'a) act" where
  "not_drawing m s = (case m (fst s) of (x, w') \<Rightarrow> (x, (w', snd s)))"

definition ETCD_setup ::
  "'w etcd_env \<Rightarrow> string \<Rightarrow> etcd_db \<Rightarrow> ('w \<times> rng, bool \<times> etcd_db) act" where
  "ETCD_setup E node this =
     (let (remote, m) = remote_at node (ed_remotes this); this0 = this\<lparr>ed_remotes := m\<rparr> in
      act_bind
        (drawing (\<lambda>g. act_bind
           (installArchive (en_split E) (en_rounds E) (en_remote E) (en_ndebug E) (etcd_url this) kDir
              False g remote)
           (\<lambda>(ok, g', remote'). act_return (remote', g'))))
        (\<lambda>remote1.
          act_bind (act_lift (etcd_arguments node this0)) (\<lambda>(args, this1).
            act_bind
              (not_drawing (startDaemon (en_stem E) (en_remote E) etcd_options kBinary
                 (en_format E etcd_args_template args) remote1))
              (\<lambda>_. act_return (True, this1)))))"

definition ETCD_teardown ::
  "'w etcd_env \<Rightarrow> string \<Rightarrow> etcd_db \<Rightarrow> ('w \<times> rng, bool \<times> etcd_db) act" where
  "ETCD_teardown E node this =
     (let (remote, m) = remote_at node (ed_remotes this); this0 = this\<lparr>ed_remotes := m\<rparr> in
      act_bind (not_drawing (stopDaemon (en_remote E) kBinary kPidFile remote)) (\<lambda>remote1.
        act_bind (not_drawing (rm_sudoExecute1 (en_remote E) (''rm -rf '' @ kDir) remote1)) (\<lambda>_.
          act_return (True, this0))))"

definition ETCD_getPrimaries :: "etcd_db \<Rightarrow> ('w, string list \<times> etcd_db) act" where
  "ETCD_getPrimaries this =
     (case ed_nodes this of
        [] \<Rightarrow> act_raise OutOfRange
      | node # nodes \<Rightarrow> act_return ([node], this))"

definition ETCD_setupPrimary :: "string \<Rightarrow> etcd_db \<Rightarrow> ('w, bool \<times> etcd_db) act" where
  "ETCD_setupPrimary node this = act_return (True, this)"

definition ETCD :: "'w etcd_env \<Rightarrow> (etcd_db, 'w \<times> rng) db_class" where
  "ETCD E =
     \<lparr>db_initRemotes = DB_initRemotes, db_setup = ETCD_setup E, db_teardown = ETCD_teardown E,
      db_primary = Some \<lparr>getPrimaries = ETCD_getPrimaries, setupPrimary = ETCD_setupPrimary\<rparr>\<rparr>"

section \<open>Addresses are stable\<close>

text \<open>Looking an address up may extend the map, but changes no answer.\<close>

definition ip_of :: "etcd_db \<Rightarrow> string \<Rightarrow> string" where
  "ip_of this node = (case map_of (ed_ip_map this) node of Some ip \<Rightarrow> ip | None \<Rightarrow> [])"

definition peer_of :: "etcd_db \<Rightarrow> string \<Rightarrow> string" where
  "peer_of this node = ''http://'' @ ip_of this node @ '':'' @ int_to_string 2380"

definition same_addresses :: "etcd_db \<Rightarrow> etcd_db \<Rightarrow> bool" where
  "same_addresses this this' \<longleftrightarrow> ip_of this' = ip_of this \<and> ed_nodes this' = ed_nodes this"

lemma same_addresses_trans:
  "same_addresses a b \<Longrightarrow> same_addresses b c \<Longrightarrow> same_addresses a c"
  by (simp add: same_addresses_def)

lemma same_addresses_peer: "same_addresses this this' \<Longrightarrow> peer_of this' = peer_of this"
  by (simp add: same_addresses_def peer_of_def fun_eq_iff)

lemma ip_at_stable:
  assumes "ip_at node this = (ip, this')"
  shows "ip = ip_of this node" "same_addresses this this'"
  using assms
  by (auto simp: ip_at_def ip_of_def same_addresses_def fun_eq_iff map_add_def
      split: option.splits if_splits)

lemma nodeURL_stable:
  assumes "ETCD_nodeURL node port local this = (url, this')"
  shows "same_addresses this this'"
  using assms ip_at_stable(2) [of node this]
  by (auto simp: ETCD_nodeURL_def Let_def split: prod.splits if_splits)

lemma peerURL_stable:
  assumes "ETCD_peerURL node False this = (url, this')"
  shows "url = peer_of this node" "same_addresses this this'"
  using assms ip_at_stable [of node this]
  by (auto simp: ETCD_peerURL_def ETCD_nodeURL_def peer_of_def Let_def split: prod.splits)

text \<open>The entries of the initial cluster, separated by commas.\<close>

definition member_entry :: "etcd_db \<Rightarrow> nat \<Rightarrow> string \<Rightarrow> string" where
  "member_entry this i node = ''n'' @ int_to_string (int i) @ ''='' @ peer_of this node"

fun entries_from :: "etcd_db \<Rightarrow> nat \<Rightarrow> string list \<Rightarrow> string list" where
  "entries_from this i [] = []"
| "entries_from this i (node # nodes) = member_entry this i node # entries_from this (Suc i) nodes"

fun commas :: "string list \<Rightarrow> string" where
  "commas [] = []"
| "commas (x # xs) = '','' @ x @ commas xs"

lemma entries_from_cong: "same_addresses this this' \<Longrightarrow> entries_from this' i ns = entries_from this i ns"
  by (induction ns arbitrary: i) (simp_all add: member_entry_def same_addresses_peer)

lemma nth_entries_from: "j < length ns \<Longrightarrow> entries_from this i ns ! j = member_entry this (i + j) (ns ! j)"
proof (induction ns arbitrary: i j)
  case (Cons n ns)
  then show ?case by (cases j) auto
qed simp

lemma cluster_loop_entries:
  "cluster_loop i ns acc this = (out, this') \<Longrightarrow>
     out = acc @ commas (entries_from this i ns) \<and> same_addresses this this'"
proof (induction i ns acc this rule: cluster_loop.induct)
  case (1 i acc this)
  then show ?case by (simp add: same_addresses_def)
next
  case (2 i node nodes acc this)
  obtain url t where url: "ETCD_peerURL node False this = (url, t)" by force
  note st = peerURL_stable [OF url]
  have "out = (acc @ '',n'' @ int_to_string (int i) @ ''='' @ url) @ commas (entries_from t (Suc i) nodes) \<and>
      same_addresses t this'"
    using 2(1) [OF url [symmetric] refl] 2(2) url by simp
  then show ?case
    using st entries_from_cong [OF st(2)] same_addresses_trans by (auto simp: member_entry_def)
qed

lemma initialCluster_entries:
  assumes "ETCD_initialCluster this = Inr (out, this')"
  shows "out = tl (commas (entries_from this 0 (ed_nodes this)))" "same_addresses this this'"
proof -
  obtain node nodes where nodes: "ed_nodes this = node # nodes"
    using assms by (auto simp: ETCD_initialCluster_def split: list.splits)
  obtain url t where url: "ETCD_peerURL node False this = (url, t)" by force
  note st = peerURL_stable [OF url]
  have "cluster_loop 1 nodes (''n0='' @ url) t = (out, this')"
    using assms nodes url by (simp add: ETCD_initialCluster_def)
  note loop = cluster_loop_entries [OF this]
  have zero: "int_to_string (int 0) = ''0''"
    by (simp add: int_to_string_def nat_to_string.simps digits)
  show "out = tl (commas (entries_from this 0 (ed_nodes this)))"
    using loop nodes st entries_from_cong [OF st(2)] zero by (simp add: member_entry_def)
  show "same_addresses this this'" using loop st same_addresses_trans by blast
qed

lemma node_index_first:
  "node \<in> set ns \<Longrightarrow> node_index node ns < length ns \<and> ns ! node_index node ns = node"
  by (induction ns) auto

lemma etcd_arguments_parts:
  assumes "etcd_arguments node this = Inr (args, this')"
  shows "\<exists>client. args = [''n'' @ int_to_string (int (node_index node (ed_nodes this))),
      peer_of this node, client, client, peer_of this node,
      tl (commas (entries_from this 0 (ed_nodes this)))]"
    and "same_addresses this this'"
proof -
  obtain peer t1 client t2 where url: "ETCD_peerURL node False this = (peer, t1)"
    "ETCD_clientURL node True t1 = (client, t2)"
    by (meson surj_pair)
  obtain cluster where cl: "ETCD_initialCluster t2 = Inr (cluster, this')"
    "args = [''n'' @ int_to_string (int (node_index node (ed_nodes this))), peer, client, client, peer, cluster]"
    using assms url by (auto simp: etcd_arguments_def Let_def bind_res_eq_Inr)
  note p = peerURL_stable [OF url(1)]
  have "same_addresses t1 t2"
    using url(2) nodeURL_stable unfolding ETCD_clientURL_def by blast
  then have same: "same_addresses this t2" using p same_addresses_trans by blast
  note c = initialCluster_entries [OF cl(1)]
  have "ed_nodes t2 = ed_nodes this" using same by (simp add: same_addresses_def)
  then show "\<exists>client. args = [''n'' @ int_to_string (int (node_index node (ed_nodes this))),
      peer_of this node, client, client, peer_of this node,
      tl (commas (entries_from this 0 (ed_nodes this)))]"
    using cl(2) p(1) c(1) entries_from_cong [OF same] by auto
  show "same_addresses this this'" using same c(2) same_addresses_trans by blast
qed

text \<open>
  All nodes are started with the same initial cluster: what \<open>setup\<close> of one node does to the
  address map does not change the list the next node gets.
\<close>

lemma etcd_same_cluster:
  assumes "etcd_arguments node1 this = Inr (args1, this1)"
    and "etcd_arguments node2 this1 = Inr (args2, this2)"
  shows "args1 ! 5 = args2 ! 5"
proof -
  note st = etcd_arguments_parts(2) [OF assms(1)]
  have "ed_nodes this1 = ed_nodes this" using st by (simp add: same_addresses_def)
  then show ?thesis
    using etcd_arguments_parts(1) [OF assms(1)] etcd_arguments_parts(1) [OF assms(2)]
      entries_from_cong [OF st] by auto
qed

section \<open>Properties\<close>

text \<open>
  A node joins the cluster under the address the cluster knows it by: the name and the peer URL
  that \<open>ETCD::setup\<close> passes to the daemon of a node are one of the entries \<open>name=url\<close> of the initial
  cluster it passes too, the one at the node's index.
\<close>

theorem etcd_member_entry:
  assumes "etcd_arguments node this = Inr (args, this')" and "node \<in> set (ed_nodes this)"
  shows "\<exists>i entries. i < length (ed_nodes this) \<and> ed_nodes this ! i = node \<and>
    length entries = length (ed_nodes this) \<and> args ! 5 = tl (commas entries) \<and>
    entries ! i = args ! 0 @ ''='' @ args ! 4"
proof -
  let ?i = "node_index node (ed_nodes this)" and ?es = "entries_from this 0 (ed_nodes this)"
  have i: "?i < length (ed_nodes this)" "ed_nodes this ! ?i = node"
    using node_index_first [OF assms(2)] by simp_all
  have len: "length (entries_from this k ns) = length ns" for k ns
    by (induction ns arbitrary: k) simp_all
  have "?es ! ?i = args ! 0 @ ''='' @ args ! 4" "args ! 5 = tl (commas ?es)"
    using etcd_arguments_parts(1) [OF assms(1)] nth_entries_from [OF i(1), of this 0] i(2)
    by (auto simp: member_entry_def)
  then show ?thesis using i len by blast
qed

lemma etcd_demo_arguments:
  "etcd_arguments ''47.108.227.187'' (ETCD_ctor [''47.108.193.81'', ''47.108.227.187'']) =
     Inr ([''n1'', ''http://172.24.234.240:2380'',
       ''http://127.0.0.1:2379,http://172.24.234.240:2379'',
       ''http://127.0.0.1:2379,http://172.24.234.240:2379'', ''http://172.24.234.240:2380'',
       ''n0=http://172.24.234.239:2380,n1=http://172.24.234.240:2380''],
       ETCD_ctor [''47.108.193.81'', ''47.108.227.187''])"
proof -
  have ports: "int_to_string 2380 = ''2380''" "int_to_string 2379 = ''2379''" "int_to_string 1 = ''1''"
    by (simp_all add: int_to_string_def nat_to_string.simps digits)
  show ?thesis
    by (simp add: etcd_arguments_def ETCD_ctor_def ETCD_initialCluster_def ETCD_peerURL_def
        ETCD_clientURL_def ETCD_nodeURL_def ip_at_def ports)
qed

theorem etcd_member_entry_witness:
  "\<exists>i entries. i < 2 \<and> [''47.108.193.81'', ''47.108.227.187''] ! i = ''47.108.227.187'' \<and>
     length entries = 2 \<and>
     ''n0=http://172.24.234.239:2380,n1=http://172.24.234.240:2380'' = tl (commas entries) \<and>
     entries ! i = ''n1=http://172.24.234.240:2380''"
  using etcd_member_entry [OF etcd_demo_arguments] by (simp add: ETCD_ctor_def numeral_2_eq_2)

text \<open>
  Only three nodes have an address: any other node is told to listen at a URL without a host,
  and nothing reports it.
\<close>

theorem etcd_unknown_node:
  assumes "node \<notin> {''47.108.193.81'', ''47.108.227.187'', ''47.108.208.93''}" and "nodes \<noteq> []"
  shows "\<exists>args this'. etcd_arguments node (ETCD_ctor nodes) = Inr (args, this') \<and>
    args ! 1 = ''http://:2380''"
proof -
  obtain peer t1 client t2 where url: "ETCD_peerURL node False (ETCD_ctor nodes) = (peer, t1)"
    "ETCD_clientURL node True t1 = (client, t2)"
    by (meson surj_pair)
  have "same_addresses t1 t2"
    using url(2) nodeURL_stable unfolding ETCD_clientURL_def by blast
  then have "ed_nodes t2 = nodes"
    using peerURL_stable(2) [OF url(1)] by (simp add: same_addresses_def ETCD_ctor_def)
  then obtain first rest where first: "ed_nodes t2 = first # rest" using assms(2) by (cases nodes) auto
  obtain url0 t0 where "ETCD_peerURL first False t2 = (url0, t0)" by force
  moreover obtain cluster t3 where "cluster_loop 1 rest (''n0='' @ url0) t0 = (cluster, t3)" by force
  ultimately have "ETCD_initialCluster t2 = Inr (cluster, t3)"
    using first by (simp add: ETCD_initialCluster_def)
  then have "etcd_arguments node (ETCD_ctor nodes) = Inr ([''n'' @ int_to_string (int (node_index node nodes)),
      peer, client, client, peer, cluster], t3)"
    using url by (simp add: etcd_arguments_def ETCD_ctor_def)
  moreover have "peer = ''http://:2380''"
  proof -
    have "int_to_string 2380 = ''2380''"
      by (simp add: int_to_string_def nat_to_string.simps digits)
    moreover have "ip_of (ETCD_ctor nodes) node = []" using assms(1) by (simp add: ip_of_def ETCD_ctor_def)
    ultimately show ?thesis using peerURL_stable(1) [OF url(1)] by (simp add: peer_of_def)
  qed
  ultimately show ?thesis by auto
qed

theorem etcd_unknown_node_witness:
  "\<exists>args this'. etcd_arguments ''localhost'' (ETCD_ctor [''localhost'']) = Inr (args, this') \<and>
     args ! 1 = ''http://:2380''"
  by (rule etcd_unknown_node) simp_all

lemma startDaemon_recorded:
  assumes "startDaemon stem (recorded R) opts bin args r s = (Inr r', s')"
  shows "\<exists>echo command. echo_command opts (stem bin) args = Inr echo \<and>
    daemon_command opts bin (stem bin) args = Inr command \<and> snd s' = snd s @ [Sudo echo, Sudo command]"
proof (cases "echo_command opts (stem bin) args")
  case (Inl e)
  then show ?thesis using assms by (simp add: startDaemon_def act_bind_def act_lift_def)
next
  case echo: (Inr echo)
  show ?thesis
  proof (cases "daemon_command opts bin (stem bin) args")
    case (Inl e)
    then show ?thesis
      using assms echo by (auto simp: startDaemon_def act_bind_eq_Inr act_lift_eq)
  next
    case (Inr command)
    then show ?thesis
      using assms echo
      by (auto simp: startDaemon_def act_bind_eq_Inr act_lift_eq act_return_eq recording)
  qed
qed

lemma drawing_eq_Inr:
  "drawing m s = (Inr x, s') \<longleftrightarrow> (\<exists>w' g'. m (snd s) (fst s) = (Inr (x, g'), w') \<and> s' = (w', g'))"
  by (auto simp: drawing_def split: prod.splits sum.splits)

lemma not_drawing_eq_Inr:
  "not_drawing m s = (Inr x, s') \<longleftrightarrow> (\<exists>w'. m (fst s) = (Inr x, w') \<and> s' = (w', snd s))"
  by (auto simp: not_drawing_def split: prod.splits)

text \<open>The two command lines that end the set up, written out.\<close>

definition log_line :: "string \<Rightarrow> string \<Rightarrow> string" where
  "log_line name args =
     ''echo `date +'' @ [CHR 0x27] @ ''%Y-%m-%d %H:%M:%S'' @ [CHR 0x27] @ ''` Jepsen starting '' @ name @ args @
     '' >> /opt/etcd/etcd.log''"

definition start_line :: "string \<Rightarrow> string" where
  "start_line args =
     '' start-stop-daemon --start  --background --no-close  --make-pidfile --exec etcd '' @
     '' --pidfile /opt/etcd/etcd.pid --chdir /opt/etcd --oknodo  --startas etcd -- '' @ args @
     '' >> /opt/etcd/etcd.log 2>&1''"

lemma etcd_lines:
  "echo_command etcd_options name args = Inr (log_line name args)"
  "daemon_command etcd_options kBinary name args = Inr (start_line args)"
  by (simp_all add: echo_command_def daemon_command_def value_of_def value_or_def etcd_options_def
      no_options_def log_line_def start_line_def kLogFile_def kPidFile_def kDir_def kBinary_def)

text \<open>
  C31. Setting a node up sends exactly these commands: \<open>stat\<close> for the file that caches the archive of
  the version (its name is the encoded URL), the download if and only if \<open>stat\<close> failed, \<open>stat\<close> for the
  drawn directories until it fails for one, the commands that make that directory, extract the archive
  into it, list it and move what it contains to \<open>/opt/etcd\<close>, the line for the log, and as the last one
  the command that starts the daemon with the node's arguments. When \<open>setup\<close> returns it reports
  success, whatever the commands answered.
\<close>

theorem etcd_setup_commands:
  assumes "en_remote E = recorded R" and "map_of (ed_remotes this) node = Some p"
    and "ETCD_setup E node this s = (Inr (ok, this'), s')"
  shows "ok \<and> (\<exists>args encoded cmds. etcd_arguments node this = Inr (args, this') \<and>
    base64_encode (en_ndebug E) (etcd_url this) = Inr encoded \<and>
    install_commands (en_split E) (etcd_url this) ''/opt/etcd'' False (snd s) (cache_file encoded) cmds \<and>
    snd (fst s') = snd (fst s) @ cmds @
      [Sudo (log_line (en_stem E ''etcd'') (en_format E etcd_args_template args)),
       Sudo (start_line (en_format E etcd_args_template args))])"
proof -
  have at: "remote_at node (ed_remotes this) = (p, ed_remotes this)" "this\<lparr>ed_remotes := ed_remotes this\<rparr> = this"
    using assms(2) by (simp_all add: remote_at_known)
  obtain ok1 g1 p1 w1 args where install: "installArchive (en_split E) (en_rounds E) (recorded R) (en_ndebug E)
      (etcd_url this) kDir False (snd s) p (fst s) = (Inr (ok1, g1, p1), w1)"
    and args: "etcd_arguments node this = Inr (args, this')" and ok: "ok"
    and start: "\<exists>p2. startDaemon (en_stem E) (recorded R) etcd_options kBinary
      (en_format E etcd_args_template args) p1 w1 = (Inr p2, fst s')"
    using assms(3) at unfolding ETCD_setup_def assms(1)
    by (auto simp: act_bind_eq_Inr act_return_eq act_lift_eq drawing_eq_Inr not_drawing_eq_Inr dest: sym)
  from start obtain p2 where p2: "startDaemon (en_stem E) (recorded R) etcd_options kBinary
      (en_format E etcd_args_template args) p1 w1 = (Inr p2, fst s')" ..
  have last: "snd (fst s') = snd w1 @
      [Sudo (log_line (en_stem E kBinary) (en_format E etcd_args_template args)),
       Sudo (start_line (en_format E etcd_args_template args))]"
    using startDaemon_recorded [OF p2] unfolding etcd_lines by auto
  obtain encoded cmds where first: "base64_encode (en_ndebug E) (etcd_url this) = Inr encoded"
    "install_commands (en_split E) (etcd_url this) kDir False (snd s) (cache_file encoded) cmds"
    "snd w1 = snd (fst s) @ cmds"
    using install_recorded [OF install] by blast
  then show ?thesis
    using ok args last unfolding kDir_def kBinary_def by auto
qed

text \<open>The remotes of a node behind a shared pointer, where every command succeeds.\<close>

definition yes_env :: "((unit \<times> unit list) \<times> command list) etcd_env" where
  "yes_env =
     \<lparr>en_remote = recorded (shared yes_remote), en_split = split_lines,
      en_format = (\<lambda>t as. t @ concat as), en_stem = id, en_ndebug = True, en_rounds = 1\<rparr>"

definition yes_db :: etcd_db where
  "yes_db = DB_initRemotes [(''47.108.193.81'', Some 0)] (ETCD_ctor [''47.108.193.81''])"

lemma encode_short: "length url \<le> 100 \<Longrightarrow> \<exists>e. base64_encode True url = Inr e"
  using encode_eval [of url True] by (simp add: size_max_def)

lemma etcd_yes_arguments: "\<exists>args t. etcd_arguments ''47.108.193.81'' yes_db = Inr (args, t)"
  by (simp add: etcd_arguments_def yes_db_def DB_initRemotes_def ETCD_ctor_def ETCD_initialCluster_def
      ETCD_peerURL_def ETCD_clientURL_def ETCD_nodeURL_def ip_at_def)

lemma yes_setup:
  "\<exists>this' s'. ETCD_setup yes_env ''47.108.193.81'' yes_db ((((), [()]), []), [7]) = (Inr (True, this'), s')"
proof -
  have seven: "int_to_string 7 = ''7''"
    by (simp add: int_to_string_def nat_to_string.simps digits)
  obtain e where e: "base64_encode True (etcd_url yes_db) = Inr e"
    using encode_short [of "etcd_url yes_db"] by (auto simp: etcd_url_def yes_db_def ETCD_ctor_def DB_initRemotes_def)
  let ?R = "recorded (shared yes_remote)"
  have one: "\<exists>l. cachedWget ?R True (etcd_url yes_db) False (Some 0) (((), [()]), []) =
      (Inr (cache_file e, Some 0), ((), [()]), l)"
    by (simp add: cachedWget_def e act_lift_def yes_defs shared_def through_def cache_file_def)
  have two: "\<exists>l'. tmpDir 1 ?R [7] (Some 0) (((), [()]), l) =
      (Inr (''/tmp/jepsen/7'', [], Some 0), ((), [()]), l')" for l
    by (simp add: tmpDir_def random_dir_def rand_def RAND_MAX_def seven yes_defs shared_def through_def)
  obtain l1 where one': "cachedWget ?R True (etcd_url yes_db) False (Some 0) (((), [()]), []) =
      (Inr (cache_file e, Some 0), ((), [()]), l1)" using one ..
  obtain l2 where two': "tmpDir 1 ?R [7] (Some 0) (((), [()]), l1) =
      (Inr (''/tmp/jepsen/7'', [], Some 0), ((), [()]), l2)" using two ..
  have three: "\<exists>l. installArchive split_lines 1 ?R True (etcd_url yes_db) kDir False [7] (Some 0) (((), [()]), []) =
      (Inr (True, [], Some 0), ((), [()]), l)"
    unfolding installArchive_def act_bind_def one' sum.case prod.case two'
    by (simp add: extractArchive_def moveArchive_def yes_defs shared_def through_def)
  then obtain l3 where three': "installArchive split_lines 1 ?R True (etcd_url yes_db) kDir False [7] (Some 0)
      (((), [()]), []) = (Inr (True, [], Some 0), ((), [()]), l3)" ..
  have at: "remote_at ''47.108.193.81'' (ed_remotes yes_db) = (Some 0, ed_remotes yes_db)"
    "yes_db\<lparr>ed_remotes := ed_remotes yes_db\<rparr> = yes_db"
    by (simp_all add: remote_at_def yes_db_def DB_initRemotes_def)
  obtain args t where args: "etcd_arguments ''47.108.193.81'' yes_db = Inr (args, t)"
    using etcd_yes_arguments by blast
  have daemon: "\<exists>p s'. startDaemon id ?R etcd_options kBinary a (Some 0) (((), [()]), l3) = (Inr p, s')" for a
    by (simp add: startDaemon_def echo_command_def daemon_command_def etcd_options_def no_options_def
        value_of_def act_lift_def yes_defs shared_def through_def)
  obtain p s' where daemon': "startDaemon id ?R etcd_options kBinary (etcd_args_template @ concat args)
      (Some 0) (((), [()]), l3) = (Inr p, s')" using daemon by blast
  show ?thesis
    using three' at args daemon'
    by (simp add: ETCD_setup_def yes_env_def act_bind_def drawing_def not_drawing_def act_lift_def act_return_def)
qed

theorem etcd_setup_commands_witness:
  "\<exists>args this' s' encoded cmds. ETCD_setup yes_env ''47.108.193.81'' yes_db ((((), [()]), []), [7]) = (Inr (True, this'), s') \<and>
     etcd_arguments ''47.108.193.81'' yes_db = Inr (args, this') \<and>
     base64_encode True (etcd_url yes_db) = Inr encoded \<and>
     install_commands split_lines (etcd_url yes_db) ''/opt/etcd'' False [7] (cache_file encoded) cmds \<and>
     snd (fst s') = cmds @ [Sudo (log_line ''etcd'' (etcd_args_template @ concat args)),
       Sudo (start_line (etcd_args_template @ concat args))]"
proof -
  obtain this' s' where returns: "ETCD_setup yes_env ''47.108.193.81'' yes_db ((((), [()]), []), [7]) =
      (Inr (True, this'), s')"
    using yes_setup by blast
  have env: "en_remote yes_env = recorded (shared yes_remote)"
    "map_of (ed_remotes yes_db) ''47.108.193.81'' = Some (Some 0)"
    by (simp_all add: yes_env_def yes_db_def DB_initRemotes_def)
  have parts: "en_split yes_env = split_lines" "en_ndebug yes_env = True" "en_stem yes_env = id"
    "en_format yes_env = (\<lambda>t as. t @ concat as)"
    by (simp_all add: yes_env_def)
  show ?thesis
    using etcd_setup_commands [OF env returns] returns unfolding parts fst_conv snd_conv append_Nil id_apply by blast
qed

end
