(* ===== verification/Runner_Limits.thy ===== *)
theory Runner_Limits
  imports Runner_Dispatch Combinators
begin

text \<open>
  Tests with a time limit, as a law that depends on the clock: until the first operation is
  dispatched the limit has no cutoff, and the operation that sets one is dispatched at once, since
  the generator inside offers its operations at the time it is asked. From then on the cutoff is
  the time of the first invocation plus the limit.
\<close>

section \<open>The law of a time limit\<close>

definition prompt :: "int \<Rightarrow> gen_ptr \<Rightarrow> bool" where
  "prompt t g \<longleftrightarrow> all_ptr (timely_node t) g \<and> all_ptr (raw_node schedulable) g"

definition before_cutoff :: "int \<Rightarrow> operation list \<Rightarrow> bool" where
  "before_cutoff l h \<longleftrightarrow> list_all (\<lambda>o1. op_time o1 < op_time (hd h) + l) h"

definition within :: "int \<Rightarrow> int \<Rightarrow> gen_ptr \<Rightarrow> operation list \<Rightarrow> bool" where
  "within l t p h \<longleftrightarrow> 0 < l \<and>
     (case h of
        [] \<Rightarrow> 0 \<le> t \<and> (\<exists>g. p = Some (TimeLimit l kInvalidTime g) \<and> prompt t g)
      | o1 # os \<Rightarrow> 0 \<le> op_time o1 \<and> limited l (op_time o1 + l) p \<and> before_cutoff l h)"

lemma before_cutoff_Nil [simp]: "before_cutoff l []"
  by (simp add: before_cutoff_def)

lemma within_cutoff: "within l t p h \<Longrightarrow> before_cutoff l h"
  by (auto simp: within_def split: list.splits)

lemma prompt_mono: "prompt t g \<Longrightarrow> t \<le> t' \<Longrightarrow> prompt t' g"
  unfolding prompt_def using all_nodes_mono(2) [of "timely_node t" "timely_node t'" g]
  by (auto intro: timely_node_mono)

lemma prompt_update: "prompt t g \<Longrightarrow> gen_update g c e = Inr g' \<Longrightarrow> prompt t g'"
  unfolding prompt_def using timely.update_ok(1) [of t g c e] raw.update_ok(1) [of schedulable g c e]
  by auto

text \<open>What a generator inside the limit answers.\<close>

lemma prompt_ask:
  assumes c: "ctx_inv n c" and g: "prompt (ctx_time c) g"
    and ans: "gen_op k g c r = Inr ((o1, g2), g', r')"
  shows "prompt (ctx_time c) g'" and "op_type o1 \<in> {kInvoke, kNil, kPending}"
    and "op_type o1 = kInvoke \<Longrightarrow> op_time o1 = ctx_time c"
proof -
  have at: "ctx_at (\<lambda>x. x = ctx_time c) c" using ctx_inv_wf [OF c] by (simp add: ctx_at_def)
  have nodes: "all_ptr (timely_node (ctx_time c)) g" "all_ptr (raw_node schedulable) g"
    using g by (simp_all add: prompt_def)
  show "prompt (ctx_time c) g'"
    using timely.gen_op_keeps [OF at nodes(1) ans] raw.gen_op_keeps [OF ctx_inv_wf [OF c] nodes(2) ans]
    by (simp add: prompt_def)
  have "all_ptr (raw_node (\<lambda>o1. op_type o1 \<in> {kInit, kInvoke})) g"
    using nodes(2) by (rule all_nodes_mono(2) [rotated]) (auto simp: schedulable_def elim: raw_node_mono [rotated])
  then show "op_type o1 \<in> {kInvoke, kNil, kPending}"
    by (rule typing.gen_op_emitted [OF ctx_inv_wf [OF c] _ ans])
  show "op_time o1 = ctx_time c" if "op_type o1 = kInvoke"
    using timely.gen_op_emitted [OF at nodes(1) ans] that by (simp add: is_real_def)
qed

text \<open>The limit as long as nothing has been dispatched.\<close>

lemma limit_first_ask:
  assumes c: "ctx_inv n c" and law: "within l (ctx_time c) p []"
    and ans: "gen_op k p c r = Inr ((o1, g2), p', r')"
  shows "due c o1 \<Longrightarrow> within l (ctx_time c) g2 [o1]" and "\<not> due c o1 \<Longrightarrow> within l (ctx_time c) p' []"
proof -
  obtain g where p: "p = Some (TimeLimit l kInvalidTime g)" "prompt (ctx_time c) g" "0 < l" "0 \<le> ctx_time c"
    using law by (auto simp: within_def)
  obtain m where k: "k = Suc m" using ans p(1) by (cases k) auto
  obtain o3 g3 g' r1 where inner: "gen_op m g c r = Inr ((o3, g3), g', r1)"
    using ans p(1) k by (auto simp: op_time_limit_def bind_res_eq_Inr)
  note ask = prompt_ask [OF c p(2) inner]
  have "(due c o1 \<longrightarrow> within l (ctx_time c) g2 [o1]) \<and> (\<not> due c o1 \<longrightarrow> within l (ctx_time c) p' [])"
  proof (cases "notNil o3 g3 \<and> op_type o3 = kInvoke")
    case True
    then have "o1 = o3" "g2 = createTimeLimit3 l (op_time o1 + l) g3" "op_time o1 = ctx_time c"
      using ans ask(3) p inner k by (auto simp: op_time_limit_def add_i64_def split: if_splits)
    then show ?thesis
      using True p by (simp add: within_def due_def limited_def before_cutoff_def factory_defs)
  next
    case False
    then have "op_type o1 \<noteq> kInvoke" "p' = Some (TimeLimit l kInvalidTime g')"
      using ans ask(2) p inner k
      by (auto simp: op_time_limit_def notNil_def nil_op_def Operation_of_type_def split: if_splits)
    then show ?thesis using p ask(1) by (simp add: within_def due_def)
  qed
  then show "due c o1 \<Longrightarrow> within l (ctx_time c) g2 [o1]" "\<not> due c o1 \<Longrightarrow> within l (ctx_time c) p' []"
    by blast+
qed

text \<open>The limit once it has a cutoff.\<close>

lemma limit_later_ask:
  assumes law: "within l t p (x # h)" and ans: "gen_op k p c r = Inr ((o1, g2), p', r')"
  shows "due c o1 \<Longrightarrow> within l t g2 (x # h @ [o1])" and "within l t p' (x # h)"
proof -
  have l: "0 < l" "0 \<le> op_time x" "limited l (op_time x + l) p" "before_cutoff l (x # h)"
    using law by (simp_all add: within_def)
  then have "op_time x + l \<noteq> kInvalidTime" by simp
  note lim = limited_ask [OF l(3) this ans]
  show "within l t p' (x # h)" using l lim by (simp add: within_def)
  show "within l t g2 (x # h @ [o1])" if "due c o1"
    using l lim that by (simp add: within_def due_def before_cutoff_def)
qed

lemma within_update: "within l t p h \<Longrightarrow> gen_update p c e = Inr p' \<Longrightarrow> within l t p' h"
proof (cases h)
  case Nil
  assume "within l t p h" "gen_update p c e = Inr p'"
  then obtain g g' where "p = Some (TimeLimit l kInvalidTime g)" "prompt t g" "gen_update g c e = Inr g'"
    "p' = Some (TimeLimit l kInvalidTime g')" "0 < l" "0 \<le> t"
    using Nil by (auto simp: within_def bind_res_eq_Inr factory_defs)
  then show ?thesis using Nil prompt_update by (auto simp: within_def)
qed (auto simp: within_def dest: limited_update)

lemma within_later: "within l t p h \<Longrightarrow> t \<le> t' \<Longrightarrow> within l t' p h"
  by (auto simp: within_def intro: prompt_mono split: list.splits)

interpretation time_law:
  dispatch_law "gen_op d" gen_update n "\<lambda>t. validated (within l t)" "\<lambda>_. True" "before_cutoff l"
  for d n l
proof (rule law_depth)
  fix k
  show "dispatch_law (gen_op k) gen_update n (within l) (\<lambda>_. True) (before_cutoff l)"
  proof
    fix c g h r o1 g2 g' r'
    assume c: "ctx_inv n c" and law: "within l (ctx_time c) g h"
      and ans: "gen_op k g c r = Inr ((o1, g2), g', r')"
    show "within l (ctx_time c) g' h" if "\<not> due c o1"
      using limit_first_ask(2) [OF c _ ans] limit_later_ask(2) [OF _ ans] law that by (cases h) auto
    show "within l (ctx_time c) g2 (h @ [o1]) \<and> True" if "due c o1"
      using limit_first_ask(1) [OF c _ ans] limit_later_ask(1) [OF _ ans] law that by (cases h) auto
    show "before_cutoff l h" if "op_type o1 = kNil" using law by (rule within_cutoff)
  qed (rule within_cutoff within_update within_later; assumption)+
qed (rule within_cutoff within_update within_later; assumption)+

section \<open>The whole test\<close>

lemma good_time_limit:
  "good_gen g \<Longrightarrow> g \<noteq> None \<Longrightarrow> good_gen (createTimeLimit2 l g) \<and> createTimeLimit2 l g \<noteq> None"
  by (simp add: good_gen_def factory_defs)

lemma within_start:
  assumes "good_gen g" and "all_ptr (timely_node t) g" and "0 < l" and "0 \<le> t"
  shows "within l t (createTimeLimit2 l g) []"
  using assms by (simp add: within_def prompt_def good_gen_def factory_defs)

text \<open>
  C9. A test with a time limit keeps to it: when it returns, every invocation of its history is less
  than the limit later than the first one, whatever the interleaving, the draws and the outcomes
  its clients report. The conditions: clients and nemesis keep their contract and complete what they
  are given, the operations are schedulable, the limit is positive, the clock is not negative and does
  not go back, and the generator under the limit is
  \<open>timely\<close>: no raw operation of it carries a time of its own, and no \<open>Stagger\<close> in it is already
  scheduled for a time still to come when the test starts.
\<close>

theorem run_time_limit:
  assumes "client_contract K C" and "client_contract N E" and "kInvoke \<notin> C" and "kInvoke \<notin> E"
    and "0 < rn_concurrency r" and "good_gen g" and "all_ptr (timely_node (sd_now sd)) g" and "g \<noteq> None"
    and "0 < l" and "0 \<le> sd_now sd" and "clocked (sd_now sd) (sd_actions sd)"
    and "rn_generator r = setGenerator (createTimeLimit2 l g)" and "rn_history r = []"
    and "Runner_run O1 D (gen_op d) gen_update K N sd r = (Inr (), r')"
  shows "\<forall>o1 \<in> set (invocations (rn_history r')).
    op_time o1 < op_time (hd (invocations (rn_history r'))) + l"
proof -
  have sys: "dispatch_system (gen_op d) gen_update good_gen K C N E (rn_concurrency r)
      (\<lambda>t. validated (within l t)) (\<lambda>_. True) (before_cutoff l)"
    by (intro dispatch_systemI assms(1,2,5) contract_settles [OF assms(1-4)] time_law.dispatch_law_axioms)
  note g = good_time_limit [OF assms(6,8), of l]
  have "before_cutoff l (invocations (rn_history r'))"
    by (rule whole_test_law [OF sys conjunct1 [OF g] conjunct2 [OF g] within_start assms(12,13) refl
          assms(11,14)]) (fact assms)+
  then show ?thesis by (simp add: before_cutoff_def list_all_iff)
qed

text \<open>
  Three operations, ten nanoseconds: the third one is asked for too late.
\<close>

definition limit_ops :: gen_ptr where
  "limit_ops = createGenerator_ops [read_op, read_op, read_op]"

definition limit_schedule :: schedule where
  "limit_schedule = demo_schedule\<lparr>sd_actions := [Ask 5 [1], Work 0, Take 0 7, Ask 14 [1], Work 0,
     Take 0 15, Ask 15 [1], Work 0, Work (- 1), JoinAll]\<rparr>"

definition limit_runner :: "(remotes, unit, unit, unit) runner" where
  "limit_runner = (demo_runner ())\<lparr>rn_generator := setGenerator (createTimeLimit2 10 limit_ops)\<rparr>"

definition limit_test :: "unit res \<times> (remotes, unit, unit, unit) runner" where
  "limit_test = Runner_run Ubuntu QuietDB (gen_op 6) gen_update (NoopNemesis ()) (NoopNemesis ())
     limit_schedule limit_runner"

lemma limit_test_returns:
  "fst limit_test = Inr () \<and> map op_time (invocations (rn_history (snd limit_test))) = [5, 14]"
  by code_simp

theorem run_time_limit_witness:
  "map op_time (invocations (rn_history (snd limit_test))) = [5, 14] \<and>
   list_all (\<lambda>o1. op_time o1 < op_time (hd (invocations (rn_history (snd limit_test)))) + 10)
     (invocations (rn_history (snd limit_test)))"
proof
  have "Runner_run Ubuntu QuietDB (gen_op 6) gen_update (NoopNemesis ()) (NoopNemesis ())
     limit_schedule limit_runner = (Inr (), snd limit_test)"
    using limit_test_returns unfolding limit_test_def by (metis prod.collapse)
  then show "list_all (\<lambda>o1. op_time o1 < op_time (hd (invocations (rn_history (snd limit_test)))) + 10)
      (invocations (rn_history (snd limit_test)))"
    unfolding list_all_iff
    by (rule run_time_limit [OF noop_contracts(2,2), where g = limit_ops, rotated -1])
      (simp_all add: limit_runner_def limit_schedule_def demo_runner_def demo_schedule_def limit_ops_def
        good_gen_def factory_defs read_op_def Operation_of_def schedulable_def)
qed (simp add: limit_test_returns)

end
