(* ===== verification/Runner_Routing.thy ===== *)
theory Runner_Routing
  imports Runner_Limits
begin

text \<open>
  Where the operations of a run go. \<open>closed_class\<close> is a class of generators that copies, updates and
  answers stay in, with a condition on the operations it offers. Restrictions to threads form one,
  and \<open>TimeLimit\<close> and \<open>Any\<close> make one from another, so that the generators a test builds with
  \<open>nemesis\<close>, \<open>clients\<close> and \<open>timeLimit\<close> are one; a closed class is a law of the runs over it.
\<close>

section \<open>Classes of generators\<close>

locale closed_class =
  fixes n :: int and R :: "gen_ptr \<Rightarrow> bool" and E :: "operation \<Rightarrow> bool"
  assumes c_none: "R None"
    and c_copy: "R (Some g) \<Longrightarrow> copyOne g = Inr q \<Longrightarrow> R q"
    and c_update: "R p \<Longrightarrow> gen_update p c e = Inr q \<Longrightarrow> R q"
    and c_op: "ctx_inv n c \<Longrightarrow> R p \<Longrightarrow> gen_op k p c r = Inr ((o1, g2), p', r') \<Longrightarrow>
      R g2 \<and> R p' \<and> (is_real o1 \<longrightarrow> E o1)"

lemma nil_not_real: "\<not> is_real (Operation_of_type kNil)"
  by (simp add: is_real_def Operation_of_type_def)

lemma null_op: "gen_op k None c r = Inr ((o1, g2), p', r') \<Longrightarrow> g2 = None \<and> p' = None \<and> \<not> is_real o1"
  by (cases k) (auto simp: nil_op_def nil_not_real)

definition limit_class :: "(gen_ptr \<Rightarrow> bool) \<Rightarrow> gen_ptr \<Rightarrow> bool" where
  "limit_class R p \<longleftrightarrow> p = None \<or> (\<exists>l t q. p = Some (TimeLimit l t q) \<and> R q)"

definition any_class :: "(gen_ptr \<Rightarrow> bool) \<Rightarrow> gen_ptr \<Rightarrow> bool" where
  "any_class R p \<longleftrightarrow> p = None \<or> (\<exists>gs. p = Some (Any gs) \<and> list_all R gs)"

definition threads_class :: "(operation \<Rightarrow> bool) \<Rightarrow> (int \<Rightarrow> bool) \<Rightarrow> gen_ptr \<Rightarrow> bool" where
  "threads_class P f p \<longleftrightarrow> p = None \<or> (\<exists>q. p = Some (OnThreads q f) \<and> all_ptr (raw_node P) q)"

lemmas class_defs = limit_class_def any_class_def threads_class_def

definition obeys ::
  "(gen_ptr \<Rightarrow> bool) \<Rightarrow> (operation \<Rightarrow> bool) \<Rightarrow> gen_ptr \<Rightarrow> operation list \<Rightarrow> bool" where
  "obeys R E p h \<longleftrightarrow> R p \<and> list_all E h"

context closed_class
begin

lemma limit_op:
  assumes c: "ctx_inv n c" and q: "R q"
    and ans: "gen_op k (Some (TimeLimit l t q)) c r = Inr ((o1, g2), p', r')"
  shows "limit_class R g2 \<and> limit_class R p' \<and> (is_real o1 \<longrightarrow> E o1)"
proof -
  obtain m where k: "k = Suc m" using ans by (cases k) auto
  obtain o3 g3 q' r3 where inner: "gen_op m q c r = Inr ((o3, g3), q', r3)"
    using ans k by (auto simp: op_time_limit_def bind_res_eq_Inr)
  then show ?thesis
    using ans k c_op [OF c q inner]
    by (auto simp: op_time_limit_def class_defs nil_op_def nil_not_real bind_res_eq_Inr factory_defs
        split: if_splits)
qed

lemma limit_closed: "closed_class n (limit_class R) E"
proof
  fix c p k r o1 g2 p' r'
  assume "ctx_inv n c" "limit_class R p" "gen_op k p c r = Inr ((o1, g2), p', r')"
  then show "limit_class R g2 \<and> limit_class R p' \<and> (is_real o1 \<longrightarrow> E o1)"
    using limit_op null_op unfolding limit_class_def by metis
next
  fix g q
  assume "limit_class R (Some g)" "copyOne g = Inr q"
  then obtain l t p where "g = TimeLimit l t p" "R p" by (auto simp: limit_class_def)
  with \<open>copyOne g = Inr q\<close> show "limit_class R q"
    using c_copy by (cases p) (auto simp: class_defs bind_res_eq_Inr factory_defs)
qed (use c_update in \<open>auto simp: class_defs bind_res_eq_Inr factory_defs\<close>)

lemma any_loop_closed:
  assumes c: "ctx_inv n c"
  shows "any_loop (gen_op k) c i gs acc r = Inr ((cur', rg', ro', ri'), gs', r') \<Longrightarrow> list_all R gs \<Longrightarrow>
    R (fst (snd acc)) \<Longrightarrow> (is_real (fst (snd (snd acc))) \<longrightarrow> E (fst (snd (snd acc)))) \<Longrightarrow>
    R rg' \<and> (is_real ro' \<longrightarrow> E ro') \<and> list_all R gs'"
proof (induction gs arbitrary: i acc r gs' r')
  case Nil
  then show ?case by auto
next
  case (Cons g gs)
  obtain o2 g2 g' r1 acc1 r2 gs1 where steps: "gen_op k g c r = Inr ((o2, g2), g', r1)"
    "any_step i acc o2 g2 r1 = Inr (acc1, r2)" "gs' = g' # gs1"
    "any_loop (gen_op k) c (Suc i) gs acc1 r2 = Inr ((cur', rg', ro', ri'), gs1, r')"
    using Cons.prems(1) by (auto simp: bind_res_eq_Inr)
  have g: "R g2 \<and> R g' \<and> (is_real o2 \<longrightarrow> E o2)"
    using c_op [OF c _ steps(1)] Cons.prems(2) by simp
  have "snd acc1 = snd acc \<or> (\<exists>j. snd acc1 = (g2, o2, j))"
    using steps(2) by (auto simp: any_step_def bind_res_eq_Inr split: prod.splits if_splits)
  then have "R (fst (snd acc1)) \<and> (is_real (fst (snd (snd acc1))) \<longrightarrow> E (fst (snd (snd acc1))))"
    using Cons.prems(3,4) g by auto
  then show ?case using Cons.IH [OF steps(4)] Cons.prems(2) g steps(3) by simp
qed

lemma copy_derefs_closed: "copy_derefs gs = Inr hs \<Longrightarrow> list_all R gs \<Longrightarrow> list_all R hs"
proof (induction gs arbitrary: hs)
  case (Cons p gs)
  then show ?case by (cases p) (auto simp: bind_res_eq_Inr dest: c_copy)
qed simp

lemma update_all_closed: "update_all gs c e = Inr hs \<Longrightarrow> list_all R gs \<Longrightarrow> list_all R hs"
  by (induction gs arbitrary: hs) (auto simp: bind_res_eq_Inr dest: c_update)

lemma any_op:
  assumes c: "ctx_inv n c" and gs: "list_all R gs"
    and ans: "gen_op k (Some (Any gs)) c r = Inr ((o1, g2), p', r')"
  shows "any_class R g2 \<and> any_class R p' \<and> (is_real o1 \<longrightarrow> E o1)"
proof -
  obtain m where k: "k = Suc m" using ans by (cases k) auto
  obtain cur rg ro ri gs' r3 where loop:
    "any_loop (gen_op m) c 0 gs any_init r = Inr ((cur, rg, ro, ri), gs', r3)"
    using ans k by (auto simp: op_any_def bind_res_eq_Inr)
  have post: "R rg \<and> (is_real ro \<longrightarrow> E ro) \<and> list_all R gs'"
    using any_loop_closed [OF c loop gs] by (simp add: any_init_def c_none nil_not_real)
  have upd: "list_all R (updateOne hs ri rg)" if "copy_derefs gs' = Inr hs" for hs
    using copy_derefs_closed [OF that] post
    by (auto simp: updateOne_def list_all_iff dest: set_update_subset_insert [THEN subsetD])
  show ?thesis
    using ans k loop post upd
    by (auto simp: op_any_def class_defs nil_op_def nil_not_real bind_res_eq_Inr factory_defs split: if_splits)
qed

lemma any_closed: "closed_class n (any_class R) E"
proof
  fix c p k r o1 g2 p' r'
  assume "ctx_inv n c" "any_class R p" "gen_op k p c r = Inr ((o1, g2), p', r')"
  then show "any_class R g2 \<and> any_class R p' \<and> (is_real o1 \<longrightarrow> E o1)"
    using any_op null_op unfolding any_class_def by metis
qed (use copy_derefs_closed update_all_closed in \<open>auto simp: class_defs bind_res_eq_Inr factory_defs\<close>)

lemma obeys_law:
  "dispatch_law (gen_op d) gen_update n (\<lambda>t. validated (obeys R E)) E (list_all E)"
proof (rule law_depth)
  fix k
  show "dispatch_law (gen_op k) gen_update n (\<lambda>t. obeys R E) E (list_all E)"
  proof
    fix c g h r o1 g2 g' r'
    assume c: "ctx_inv n c" and g: "obeys R E g h" and ans: "gen_op k g c r = Inr ((o1, g2), g', r')"
    have post: "R g2" "R g'" "is_real o1 \<longrightarrow> E o1" "list_all E h"
      using c_op [OF c _ ans] g by (simp_all add: obeys_def)
    show "obeys R E g' h" using post by (simp add: obeys_def)
    show "list_all E h" by (fact post)
    show "obeys R E g2 (h @ [o1]) \<and> E o1" if "due c o1"
      using post that by (simp add: obeys_def due_def is_real_def)
  qed (auto simp: obeys_def dest: c_update)
qed (auto simp: obeys_def dest: c_update)

end

text \<open>Two closed classes side by side.\<close>

lemma closed_either:
  assumes 1: "closed_class n R1 E1" and 2: "closed_class n R2 E2"
  shows "closed_class n (\<lambda>p. R1 p \<or> R2 p) (\<lambda>o1. E1 o1 \<or> E2 o1)"
proof
  fix c p k r o1 g2 p' r'
  assume "ctx_inv n c" "R1 p \<or> R2 p" "gen_op k p c r = Inr ((o1, g2), p', r')"
  then show "(R1 g2 \<or> R2 g2) \<and> (R1 p' \<or> R2 p') \<and> (is_real o1 \<longrightarrow> E1 o1 \<or> E2 o1)"
    using closed_class.c_op [OF 1] closed_class.c_op [OF 2] by blast
qed (use closed_class.c_none [OF 1] closed_class.c_copy [OF 1] closed_class.c_copy [OF 2]
    closed_class.c_update [OF 1] closed_class.c_update [OF 2] in blast)+

section \<open>Restrictions to threads\<close>

text \<open>The processes of the threads a filter lets through, and those an operation may name itself.\<close>

definition filter_procs :: "(int \<Rightarrow> bool) \<Rightarrow> int set \<Rightarrow> int set" where
  "filter_procs f Q = {p. p \<in> Q \<or> p = kNemesisProcess \<and> f p \<or> 0 \<le> p \<and> (\<exists>t. 0 \<le> t \<and> f t)}"

definition raw_ops :: "int set \<Rightarrow> (string \<times> json \<times> json) set \<Rightarrow> operation \<Rightarrow> bool" where
  "raw_ops Q S o1 \<longleftrightarrow> op_process o1 \<in> insert kInvalidProcess Q \<and> op_sig o1 \<in> S"

lemma free_procs_filtered:
  assumes "ctx_inv n c" and "p \<in> free_procs (onThreadsContext f c)"
  shows "p \<in> filter_procs f Q"
proof -
  have wf: "ctx_wf c" by (rule ctx_inv_wf [OF assms(1)])
  have "p \<in> free_procs c" "f (processToThread c p)"
    using assms(2) wf by (simp_all add: free_procs_onThreadsContext)
  then obtain t where t: "map_of (workers c) t = Some p" "f (processToThread c p)"
    by (auto simp: free_procs_def)
  then show ?thesis
    using processToThread_inverse [OF wf t(1)] ctx_inv_worker_range [OF assms(1) t(1)]
    by (auto simp: filter_procs_def)
qed

lemma raw_ops_answer:
  assumes c: "ctx_inv n c" and p: "all_ptr (raw_node (raw_ops Q S)) q"
    and ans: "gen_op k q (onThreadsContext f c) r = Inr ((o1, g2), q', r')"
  shows "all_ptr (raw_node (raw_ops Q S)) g2" and "all_ptr (raw_node (raw_ops Q S)) q'"
    and "is_real o1 \<Longrightarrow> op_sig o1 \<in> S \<and> op_process o1 \<in> filter_procs f Q"
proof -
  have wf: "ctx_wf (onThreadsContext f c)"
    using c by (simp add: ctx_inv_wf ctx_wf_onThreadsContext)
  show "all_ptr (raw_node (raw_ops Q S)) g2" "all_ptr (raw_node (raw_ops Q S)) q'"
    using raw.gen_op_keeps [OF wf p ans] by simp_all
  have parts: "all_ptr (raw_node (\<lambda>o1. op_process o1 \<in> insert kInvalidProcess Q)) q"
    "all_ptr (raw_node (\<lambda>o1. (op_func o1, op_info o1, op_helper o1) \<in> S)) q"
    by (rule all_nodes_mono(2) [OF _ p], auto simp: raw_ops_def op_sig_def elim: raw_node_mono [rotated])+
  show "op_sig o1 \<in> S \<and> op_process o1 \<in> filter_procs f Q" if "is_real o1"
    using addressing.gen_op_emitted [OF wf parts(1) ans] payload.gen_op_emitted [OF wf parts(2) ans]
      free_procs_filtered [OF c, of _ f Q] that
    by (auto simp: addressed_def op_sig_def filter_procs_def)
qed

interpretation threads:
  closed_class n "threads_class (raw_ops Q S) f" "\<lambda>o1. op_sig o1 \<in> S \<and> op_process o1 \<in> filter_procs f Q"
  for n Q S f
proof
  fix c p k r o1 g2 p' r'
  assume c: "ctx_inv n c" and p: "threads_class (raw_ops Q S) f p"
    and ans: "gen_op k p c r = Inr ((o1, g2), p', r')"
  show "threads_class (raw_ops Q S) f g2 \<and> threads_class (raw_ops Q S) f p' \<and>
      (is_real o1 \<longrightarrow> op_sig o1 \<in> S \<and> op_process o1 \<in> filter_procs f Q)"
  proof (cases p)
    case None
    then show ?thesis using null_op ans by (auto simp: threads_class_def)
  next
    case (Some g)
    then obtain q m where q: "g = OnThreads q f" "all_ptr (raw_node (raw_ops Q S)) q" "k = Suc m"
      using p ans by (cases k) (auto simp: threads_class_def)
    obtain o3 g3 q' r3 where inner: "gen_op m q (onThreadsContext f c) r = Inr ((o3, g3), q', r3)"
      using ans Some q by (auto simp: op_on_threads_def bind_res_eq_Inr)
    show ?thesis
      using raw_ops_answer [OF c q(2) inner] ans Some q inner
      by (auto simp: op_on_threads_def class_defs nil_op_def nil_not_real factory_defs split: if_splits)
  qed
next
  fix g q
  assume "threads_class (raw_ops Q S) f (Some g)" "copyOne g = Inr q"
  then obtain p where "g = OnThreads p f" "all_ptr (raw_node (raw_ops Q S)) p"
    by (auto simp: threads_class_def)
  with \<open>copyOne g = Inr q\<close> show "threads_class (raw_ops Q S) f q"
    using raw.copy_ok(1) [of "raw_ops Q S"] by (cases p) (fastforce simp: class_defs factory_defs)+
next
  fix p c e q
  assume p: "threads_class (raw_ops Q S) f p" and upd: "gen_update p c e = Inr q"
  show "threads_class (raw_ops Q S) f q"
  proof (cases p)
    case (Some g)
    then obtain p1 where p1: "g = OnThreads p1 f" "all_ptr (raw_node (raw_ops Q S)) p1"
      using p by (auto simp: threads_class_def)
    then obtain q1 where "gen_update p1 (onThreadsContext f c) e = Inr q1"
      "all_ptr (raw_node (raw_ops Q S)) q1"
      using raw.update_ok(1) by blast
    then show ?thesis using upd Some p1 by (auto simp: threads_class_def factory_defs split: if_splits)
  qed (use upd in \<open>simp add: threads_class_def\<close>)
qed (simp add: threads_class_def)

section \<open>Partitions by the nemesis, operations by the clients\<close>

lemma nemesis_procs [simp]: "filter_procs (\<lambda>t. t = kNemesisProcess) {kNemesisProcess} = {kNemesisProcess}"
  by (auto simp: filter_procs_def)

lemma client_procs [simp]: "filter_procs (\<lambda>t. t \<noteq> kNemesisProcess) {} = {p. 0 \<le> p}"
  by (auto simp: filter_procs_def)

text \<open>Operations \<open>S\<close> of the clients and \<open>T\<close> of the nemesis.\<close>

definition routes ::
  "(string \<times> json \<times> json) set \<Rightarrow> (string \<times> json \<times> json) set \<Rightarrow> operation \<Rightarrow> bool" where
  "routes S T o1 \<longleftrightarrow>
     op_sig o1 \<in> T \<and> op_process o1 \<in> {kNemesisProcess} \<or> op_sig o1 \<in> S \<and> op_process o1 \<in> {p. 0 \<le> p}"

definition test_class ::
  "(string \<times> json \<times> json) set \<Rightarrow> (string \<times> json \<times> json) set \<Rightarrow> gen_ptr \<Rightarrow> bool" where
  "test_class S T = limit_class (any_class (\<lambda>p.
     threads_class (raw_ops {kNemesisProcess} T) (\<lambda>t. t = kNemesisProcess) p \<or>
     threads_class (raw_ops {} S) (\<lambda>t. t \<noteq> kNemesisProcess) p))"

interpretation routed: closed_class n "test_class S T" "routes S T" for n S T
proof -
  have "closed_class n
      (\<lambda>p. threads_class (raw_ops {kNemesisProcess} T) (\<lambda>t. t = kNemesisProcess) p \<or>
        threads_class (raw_ops {} S) (\<lambda>t. t \<noteq> kNemesisProcess) p) (routes S T)"
    using closed_either [OF threads.closed_class_axioms [of n "{kNemesisProcess}" T "\<lambda>t. t = kNemesisProcess"]
        threads.closed_class_axioms [of n "{}" S "\<lambda>t. t \<noteq> kNemesisProcess"]]
    unfolding nemesis_procs client_procs routes_def .
  then show "closed_class n (test_class S T) (routes S T)"
    unfolding test_class_def by (intro closed_class.limit_closed closed_class.any_closed)
qed

lemma test_class_start:
  assumes "all_ptr (raw_node (raw_ops {kNemesisProcess} T)) ng" and "all_ptr (raw_node (raw_ops {} S)) cg"
  shows "test_class S T (createTimeLimit2 l (nemesis2 ng cg))"
  using assms
  by (simp add: test_class_def class_defs nemesis2_def any_of_def nemesis1_def clients1_def factory_defs)

lemma good_nemesis2:
  "good_gen ng \<Longrightarrow> good_gen cg \<Longrightarrow> ng \<noteq> None \<Longrightarrow> cg \<noteq> None \<Longrightarrow>
     good_gen (nemesis2 ng cg) \<and> nemesis2 ng cg \<noteq> None"
  by (simp add: good_gen_def nemesis2_def any_of_def nemesis1_def clients1_def factory_defs)

text \<open>
  C10. Operations go where the test sends them: in a test over \<open>timeLimit(l, nemesis(ng, cg))\<close> every
  invocation of the history is one of the operations of \<open>ng\<close>, by the nemesis, or one of the operations of
  \<open>cg\<close>, by the process of a client, whatever the schedule, the draws and the outcomes the clients report.
  Clients and nemesis keep their contract and complete what they are given, and the operations are
  schedulable. There is one more condition on the operations: those of \<open>cg\<close> name no process and those of \<open>ng\<close>
  none but the nemesis, since an operation that names a process is given to it unchecked.
\<close>

theorem run_routes:
  assumes "client_contract K C" and "client_contract N E" and "kInvoke \<notin> C" and "kInvoke \<notin> E"
    and "0 < rn_concurrency r" and "good_gen ng" and "good_gen cg" and "ng \<noteq> None" and "cg \<noteq> None"
    and "all_ptr (raw_node (raw_ops {kNemesisProcess} T)) ng" and "all_ptr (raw_node (raw_ops {} S)) cg"
    and "rn_generator r = setGenerator (createTimeLimit2 l (nemesis2 ng cg))" and "rn_history r = []"
    and "Runner_run O1 D (gen_op d) gen_update K N sd r = (Inr (), r')"
    and "o1 \<in> set (invocations (rn_history r'))"
  shows "op_process o1 = kNemesisProcess \<and> op_sig o1 \<in> T \<or> 0 \<le> op_process o1 \<and> op_sig o1 \<in> S"
proof -
  let ?g = "createTimeLimit2 l (nemesis2 ng cg)" and ?J = "obeys (test_class S T) (routes S T)"
  have g: "good_gen ?g \<and> ?g \<noteq> None"
    using good_nemesis2 [OF assms(6-9)] good_time_limit by blast
  have sys: "dispatch_system (gen_op d) gen_update good_gen K C N E (rn_concurrency r)
      (\<lambda>t. validated ?J) (routes S T) (list_all (routes S T))"
    by (intro dispatch_systemI assms(1,2,5) contract_settles [OF assms(1-4)] routed.obeys_law)
  obtain s where s: "run_reaches d K N (rn_nodes r) (rn_concurrency r) ?g s"
    "r_phase (s_run s) = Done" "rn_history r' = r_history (s_run s)"
    using assms(14,12,13) by (rule run_loop)
  have "?J ?g []" using test_class_start [OF assms(10,11)] by (simp add: obeys_def)
  then have "law_inv (validated ?J) (routes S T) (list_all (routes S T)) s"
    using run_reaches_law [OF sys refl _ _ _ s(1)] g by blast
  then show ?thesis using s(2,3) assms(15) by (auto simp: law_inv_def list_all_iff routes_def)
qed

text \<open>A partition and a read; what comes last on either side is never offered.\<close>

definition cut_op :: operation where
  "cut_op = Operation_of ''partition'' nullValue kInvoke"

definition cut_ops :: gen_ptr where
  "cut_ops = createGenerator_ops [cut_op, cut_op]"

definition read_ops :: gen_ptr where
  "read_ops = createGenerator_ops [read_op, read_op]"

definition route_schedule :: schedule where
  "route_schedule = demo_schedule\<lparr>sd_actions := [Ask 5 [], Work (- 1), Ask 6 [], Work 0,
     Take 0 7, Take 0 8, Ask 9 [], Work 0, Work (- 1), JoinAll]\<rparr>"

definition route_runner :: "(remotes, unit, unit, unit) runner" where
  "route_runner =
     (demo_runner ())\<lparr>rn_generator := setGenerator (createTimeLimit2 100 (nemesis2 cut_ops read_ops))\<rparr>"

definition route_test :: "unit res \<times> (remotes, unit, unit, unit) runner" where
  "route_test = Runner_run Ubuntu QuietDB (gen_op 9) gen_update (NoopNemesis ()) (NoopNemesis ())
     route_schedule route_runner"

lemma route_test_returns:
  "fst route_test = Inr () \<and> map (\<lambda>o1. (op_process o1, op_func o1)) (invocations (rn_history (snd route_test)))
     = [(- 1, ''partition''), (0, ''read'')]"
  by code_simp

theorem run_routes_witness:
  "\<exists>o1 \<in> set (invocations (rn_history (snd route_test))). op_process o1 = 0 \<and> op_sig o1 = op_sig read_op"
proof -
  have run: "Runner_run Ubuntu QuietDB (gen_op 9) gen_update (NoopNemesis ()) (NoopNemesis ())
     route_schedule route_runner = (Inr (), snd route_test)"
    using route_test_returns unfolding route_test_def by (metis prod.collapse)
  have "(0, ''read'') \<in> (\<lambda>o1. (op_process o1, op_func o1)) ` set (invocations (rn_history (snd route_test)))"
    unfolding set_map [symmetric] route_test_returns [THEN conjunct2] by simp
  then obtain o1 where o1: "o1 \<in> set (invocations (rn_history (snd route_test)))" "op_process o1 = 0" by auto
  have "op_process o1 = kNemesisProcess \<and> op_sig o1 \<in> {op_sig cut_op} \<or>
      0 \<le> op_process o1 \<and> op_sig o1 \<in> {op_sig read_op}"
    by (rule run_routes [OF noop_contracts(2,2) _ _ _ _ _ _ _ _ _ _ _ run o1(1),
          where ng = cut_ops and cg = read_ops and l = 100])
      (simp_all add: route_runner_def demo_runner_def cut_ops_def read_ops_def good_gen_def factory_defs
        read_op_def cut_op_def Operation_of_def schedulable_def raw_ops_def)
  then show ?thesis using o1 by auto
qed

end
