(* ===== verification/Shipped_Test.thy ===== *)
theory Shipped_Test
  imports Runner_Routing Etcd_Client Etcd_Database
begin

text \<open>
  The test the repository ships (\<open>test/runner/test_runner.cpp\<close>): the runner over SSH remotes, the etcd
  database and client, the noop nemesis and the generator of \<open>test_generator\<close>, composed. Everything
  outside the repository that takes part is a field of \<open>shipped_env\<close>. The list \<open>ops\<close> that \<open>main\<close> fills
  and does not use is left out.
\<close>

section \<open>The program\<close>

record ('e, 's, 'k, 'h, 'v) shipped_env =
  sh_json :: json_lib
  sh_access :: json_access
  sh_format :: "string \<Rightarrow> string list \<Rightarrow> string"
  sh_split :: "string \<Rightarrow> string list"
  sh_stem :: "string \<Rightarrow> string"
  sh_ndebug :: bool
  sh_rounds :: nat
  sh_ssh :: "('s, 'k, 'h, 'v) ssh_lib"
  sh_etcd :: "('e, ('v \<times> 's ssh_remote list) \<times> rng) etcd_lib"
  sh_depth :: nat
  sh_junk :: int

definition shipped_nodes :: "string list" where
  "shipped_nodes = [''47.108.193.81'', ''47.108.227.187'', ''47.108.208.93'']"

definition shipped_ssh :: ssh_info where
  "shipped_ssh =
     \<lparr>si_username = ''young'', si_password = ''guazi13110'', si_sudo_password = ''guazi13110'', si_port = 22,
      si_private_key_path = ''/home/young/.ssh/id_rsa'', si_strict_host_key_checking = False\<rparr>"

text \<open>A character becomes an integer value.\<close>

definition shipped_keys :: "json list" where
  "shipped_keys = map (\<lambda>c. intValue (of_char c)) ''abcdefghijklmn''"

definition shipped_db ::
  "('e, 's, 'k, 'h, 'v) shipped_env \<Rightarrow> (etcd_db, ('v \<times> 's ssh_remote list) \<times> rng) db_class" where
  "shipped_db V = ETCD
     \<lparr>en_remote = shared (SSHRemote (sh_format V) (sh_ssh V) (sh_rounds V)), en_split = sh_split V,
      en_format = sh_format V, en_stem = sh_stem V, en_ndebug = sh_ndebug V, en_rounds = sh_rounds V\<rparr>"

definition shipped_nemesis :: "('e etcd_client, 'w) client_class" where
  "shipped_nemesis = NoopNemesis \<lparr>ec_client = None, ec_node = []\<rparr>"

text \<open>The classes \<open>main\<close> registers.\<close>

definition shipped_registry ::
  "('e, 's, 'k, 'h, 'v) shipped_env \<Rightarrow> ('e etcd_client, ('v \<times> 's ssh_remote list) \<times> rng) registry" where
  "shipped_registry V =
     Nemesis_Register shipped_nemesis (Client_Register (ETCDClient (sh_access V) (sh_etcd V))
       (initial_registry \<lparr>ec_client = None, ec_node = []\<rparr>))"

definition shipped_runner ::
  "('e, 's, 'k, 'h, 'v) shipped_env \<Rightarrow> ('v \<times> 's ssh_remote list) \<times> rng
     \<Rightarrow> (remotes, etcd_db, 'e etcd_client, ('v \<times> 's ssh_remote list) \<times> rng) runner res" where
  "shipped_runner V w =
     bind_res (Runner_make (not_drawing (initRemotes (sh_ssh V) (sh_rounds V) shipped_ssh shipped_nodes []))
         shipped_nodes 5 shipped_ssh True w) (\<lambda>r.
       Inr (Runner_setDB (shipped_db V) (ETCD_ctor shipped_nodes)
         (Runner_setOS Ubuntu [] r)))"

definition shipped_main ::
  "('e, 's, 'k, 'h, 'v) shipped_env \<Rightarrow> rng \<Rightarrow> schedule \<Rightarrow> ('v \<times> 's ssh_remote list) \<times> rng
     \<Rightarrow> (remotes, etcd_db, 'e etcd_client, ('v \<times> 's ssh_remote list) \<times> rng) runner res" where
  "shipped_main V draws sd w =
     bind_res (shipped_runner V w) (\<lambda>r.
       bind_res (test_generator (sh_json V) shipped_keys (sh_junk V) draws) (\<lambda>gen.
         case Runner_run Ubuntu (shipped_db V) (gen_op (sh_depth V)) gen_update
             (cur_client_type (shipped_registry V)) (cur_nemesis_type (shipped_registry V)) sd
             (Runner_setGenerator gen r) of
           (Inl e, r') \<Rightarrow> Inl e
         | (Inr _, r') \<Rightarrow> Inr r'))"

lemma shipped_classes [simp]:
  "cur_client_type (shipped_registry V) = ETCDClient (sh_access V) (sh_etcd V)"
  "cur_nemesis_type (shipped_registry V) = shipped_nemesis"
  by (simp_all add: shipped_registry_def Nemesis_Register_def Client_Register_def)

section \<open>Its generator\<close>

definition client_sigs :: "json_lib \<Rightarrow> json list \<Rightarrow> (string \<times> json \<times> json) set" where
  "client_sigs J keys =
     {x. \<exists>k \<in> set keys. x = op_sig (factory_read J k) \<or>
           (\<exists>v < length keys. x = op_sig (factory_write J k (uintValue (int v))))}"

lemma test_functions:
  "schedulable (fst (gen_func_apply (test_read J keys) c r))"
  "schedulable (fst (gen_func_apply (test_write J keys) c r))"
  "schedulable (fst (gen_func_apply (test_partition J) c r))"
  "op_time (fst (gen_func_apply (test_read J keys) c r)) = 0"
  "op_time (fst (gen_func_apply (test_write J keys) c r)) = 0"
  "op_time (fst (gen_func_apply (test_partition J) c r)) = 0"
  "raw_ops {- 1} {op_sig (factory_fakePartition J)} (fst (gen_func_apply (test_partition J) c r))"
  by (auto simp: schedulable_def gen_func_apply_def test_read_def test_write_def test_partition_def
      raw_ops_def factory_read_def factory_write_def factory_fakePartition_def
      Operation_of_def Let_def split_def)

lemma test_draws:
  assumes "keys \<noteq> []"
  shows "raw_ops {} (client_sigs J keys) (fst (gen_func_apply (test_read J keys) c r))"
    and "raw_ops {} (client_sigs J keys) (fst (gen_func_apply (test_write J keys) c r))"
proof -
  have op: "op_process (factory_read J k) = kInvalidProcess" "op_process (factory_write J k v) = kInvalidProcess"
    for k v by (simp_all add: factory_read_def factory_write_def Operation_of_def)
  have key: "keys ! (x mod length keys) \<in> set keys" "x mod length keys < length keys" for x
    using assms by simp_all
  have "op_sig (factory_read J (keys ! (x mod length keys))) \<in> client_sigs J keys"
    "op_sig (factory_write J (keys ! (x mod length keys)) (uintValue (int (y mod length keys))))
      \<in> client_sigs J keys" for x y
    unfolding client_sigs_def using key(1) [of x] key(2) [of y] by blast+
  then show "raw_ops {} (client_sigs J keys) (fst (gen_func_apply (test_read J keys) c r))"
    "raw_ops {} (client_sigs J keys) (fst (gen_func_apply (test_write J keys) c r))"
    by (simp_all add: raw_ops_def gen_func_apply_def test_read_def test_write_def Let_def split_def op)
qed

lemma test_generator_form:
  assumes gen: "test_generator J keys junk r = Inr g"
  obtains k where "k < 2" and "g = createTimeLimit2 5000000000 (nemesis2 (createGenerator_fun (test_partition J))
    (Some (Stagger 2000000000 junk (Some (Mix k
      [createGenerator_fun (test_read J keys), createGenerator_fun (test_write J keys)])))))"
proof -
  obtain k r' where k: "rand_mod (Suc (Suc 0)) r = Inr (k, r')" by (simp add: rand_mod_def)
  have "sec2nanos 5 = Inr 5000000000" "sec2nanos 1 = Inr 1000000000"
    by (simp_all add: sec2nanos_def round53_exact [where k = 0] in_i64_def)
  then show thesis
    using gen k rand_mod_less [OF k]
    by (intro that [of k]) (auto simp: test_generator_def mix_def stagger_def timeLimit_def in_i64_def factory_defs)
qed

lemma test_generator_parts:
  assumes gen: "test_generator J keys junk r = Inr g" and keys: "keys \<noteq> []"
    and junk: "junk \<le> t \<or> junk = kInvalidTime"
  obtains ng cg where "g = createTimeLimit2 5000000000 (nemesis2 ng cg)"
    and "good_gen (nemesis2 ng cg)" and "nemesis2 ng cg \<noteq> None" and "all_ptr (timely_node t) (nemesis2 ng cg)"
    and "all_ptr (raw_node (raw_ops {kNemesisProcess} {op_sig (factory_fakePartition J)})) ng"
    and "all_ptr (raw_node (raw_ops {} (client_sigs J keys))) cg"
proof -
  obtain k where k: "k < 2" "g = createTimeLimit2 5000000000 (nemesis2 (createGenerator_fun (test_partition J))
    (Some (Stagger 2000000000 junk (Some (Mix k
      [createGenerator_fun (test_read J keys), createGenerator_fun (test_write J keys)])))))"
    using gen by (rule test_generator_form)
  show thesis
    by (rule that [OF k(2)])
      (use k(1) junk keys in \<open>auto simp: good_gen_def nemesis2_def any_of_def nemesis1_def clients1_def
        factory_defs test_functions test_draws\<close>)
qed

section \<open>Its clients\<close>

text \<open>The etcd client reports an outcome for every operation it knows.\<close>

interpretation etcd_settles:
  settling_clients "ETCDClient A E" "NoopNemesis c0"
    "\<lambda>o1. op_process o1 = kNemesisProcess \<or> op_func o1 \<in> etcd_funcs" for A E c0
proof unfold_locales
  fix op c s b op' c' s'
  assume "cl_invoke (ETCDClient A E) op c s = (Inr (b, op', c'), s')"
    and "op_process op = kNemesisProcess \<or> op_func op \<in> etcd_funcs" "op_type op = kInvoke"
    "op_process op \<noteq> kNemesisProcess"
  then show "op_type op' \<noteq> kInvoke"
    using ETCDClient_invoke_frame(6) [of A E op c s b op' c' s'] by (auto simp: ETCDClient_def)
next
  fix op c s b op' c' s'
  assume "cl_invoke (NoopNemesis c0) op c s = (Inr (b, op', c'), s')" "op_type op = kInvoke"
  then show "op_type op' \<noteq> kInvoke" using noop_nemesis.outcome by fastforce
qed

lemma settling_mono:
  assumes "settling_clients K N Q" and "\<And>o1. Q' o1 \<Longrightarrow> Q o1"
  shows "settling_clients K N Q'"
  using settling_clients.client_settles [OF assms(1)] settling_clients.nemesis_settles [OF assms(1)] assms(2)
  by unfold_locales blast+

lemma client_sigs_funcs: "op_sig o1 \<in> client_sigs J keys \<Longrightarrow> op_func o1 \<in> etcd_funcs"
  by (auto simp: client_sigs_def op_sig_def factory_read_def factory_write_def Operation_of_def etcd_funcs_def)

lemma routed_settle:
  "settling_clients (ETCDClient A E) (NoopNemesis c0) (routes (client_sigs J keys) T)"
  by (rule settling_mono [OF etcd_settles.settling_clients_axioms])
    (auto simp: routes_def dest: client_sigs_funcs)

section \<open>Its histories\<close>

text \<open>What \<open>main\<close> runs when it returns.\<close>

lemma shipped_main_run:
  assumes "shipped_main V draws sd w = Inr r'"
  obtains r gen where "test_generator (sh_json V) shipped_keys (sh_junk V) draws = Inr gen"
    and "rn_generator r = setGenerator gen" and "rn_history r = []" and "rn_concurrency r = 5"
    and "Runner_run Ubuntu (shipped_db V) (gen_op (sh_depth V)) gen_update
      (ETCDClient (sh_access V) (sh_etcd V)) shipped_nemesis sd r = (Inr (), r')"
proof -
  let ?run = "\<lambda>gen r. Runner_run Ubuntu (shipped_db V) (gen_op (sh_depth V)) gen_update
      (ETCDClient (sh_access V) (sh_etcd V)) shipped_nemesis sd (Runner_setGenerator gen r)"
  obtain r0 gen where r0: "shipped_runner V w = Inr r0"
    and gen: "test_generator (sh_json V) shipped_keys (sh_junk V) draws = Inr gen"
    and cases: "(case ?run gen r0 of (Inl e, r1) \<Rightarrow> Inl e | (Inr _, r1) \<Rightarrow> Inr r1) = Inr r'"
    using assms by (auto simp: shipped_main_def bind_res_eq_Inr)
  have run: "?run gen r0 = (Inr (), r')"
    using cases by (cases "?run gen r0"; cases "fst (?run gen r0)") simp_all
  have "rn_history r0 = []" "rn_concurrency r0 = 5"
    using r0 by (auto simp: shipped_runner_def bind_res_eq_Inr Runner_make_def Runner_setDB_def
        Runner_setOS_def split: prod.splits sum.splits)
  then show thesis
    by (intro that [OF gen _ _ _ run]) (simp_all add: Runner_setGenerator_def)
qed

lemma shipped_contracts:
  "client_contract (ETCDClient A E) {kSuccess, kFailed, kInvoke}"
  "client_contract (shipped_nemesis :: ('e etcd_client, 'w) client_class) {kSuccess}"
  unfolding shipped_nemesis_def
  by (rule etcd_client.client_contract_axioms noop_nemesis.client_contract_axioms)+

text \<open>The law of its runs: the routes of the operations and the time limit.\<close>

abbreviation shipped_law :: "json_lib \<Rightarrow> int \<Rightarrow> gen_ptr \<Rightarrow> operation list \<Rightarrow> bool" where
  "shipped_law J t p h \<equiv>
     obeys (test_class (client_sigs J shipped_keys) {op_sig (factory_fakePartition J)})
       (routes (client_sigs J shipped_keys) {op_sig (factory_fakePartition J)}) p h \<and>
     within 5000000000 t p h"

lemma shipped_system:
  "dispatch_system (gen_op d) gen_update good_gen (ETCDClient A E) {kSuccess, kFailed, kInvoke}
     shipped_nemesis {kSuccess} 5 (\<lambda>t. validated (shipped_law J t))
     (\<lambda>o1. routes (client_sigs J shipped_keys) {op_sig (factory_fakePartition J)} o1 \<and> True)
     (\<lambda>h. list_all (routes (client_sigs J shipped_keys) {op_sig (factory_fakePartition J)}) h \<and>
       before_cutoff 5000000000 h)"
proof (rule dispatch_systemI [OF shipped_contracts])
  show "settling_clients (ETCDClient A E) shipped_nemesis
      (\<lambda>o1. routes (client_sigs J shipped_keys) {op_sig (factory_fakePartition J)} o1 \<and> True)"
    unfolding shipped_nemesis_def by (rule settling_mono [OF routed_settle]) simp
  show "dispatch_law (gen_op d) gen_update 5 (\<lambda>t. validated (shipped_law J t))
      (\<lambda>o1. routes (client_sigs J shipped_keys) {op_sig (factory_fakePartition J)} o1 \<and> True)
      (\<lambda>h. list_all (routes (client_sigs J shipped_keys) {op_sig (factory_fakePartition J)}) h \<and>
        before_cutoff 5000000000 h)"
    using law_conj [OF routed.obeys_law time_law.dispatch_law_axioms [where l = 5000000000]]
    unfolding validated_conj .
qed simp

text \<open>
  C6. What the shipped test does, as a whole program: whatever the network, the remote shells, etcd
  and the interleaving do, when \<open>main\<close> returns every invocation of the history is the partition, by
  the nemesis, or a read or a write of one of the keys, by one of the five client processes, less than
  five seconds after the first one; no client operation is indeterminate. The clock must not be negative
  nor go back, and the field \<open>Stagger\<close> leaves uninitialised must not hold a time that is still to come.
\<close>

theorem shipped_test_history:
  assumes "shipped_main V draws sd w = Inr r'" and "0 \<le> sd_now sd" and "clocked (sd_now sd) (sd_actions sd)"
    and "sh_junk V \<le> sd_now sd \<or> sh_junk V = kInvalidTime"
  shows "(\<forall>o1 \<in> set (invocations (rn_history r')).
      (op_process o1 = kNemesisProcess \<and> op_sig o1 = op_sig (factory_fakePartition (sh_json V)) \<or>
       0 \<le> op_process o1 \<and> op_process o1 < 5 \<and> op_sig o1 \<in> client_sigs (sh_json V) shipped_keys) \<and>
      op_time o1 < op_time (hd (invocations (rn_history r'))) + 5000000000) \<and>
    (\<forall>o1 \<in> set (rn_history r'). 0 \<le> op_process o1 \<longrightarrow> op_type o1 \<noteq> kInfo)"
proof -
  obtain r gen where r: "test_generator (sh_json V) shipped_keys (sh_junk V) draws = Inr gen"
    "rn_generator r = setGenerator gen" "rn_history r = []" "rn_concurrency r = 5"
    and run: "Runner_run Ubuntu (shipped_db V) (gen_op (sh_depth V)) gen_update
      (ETCDClient (sh_access V) (sh_etcd V)) shipped_nemesis sd r = (Inr (), r')"
    using assms(1) by (rule shipped_main_run)
  obtain ng cg where g: "gen = createTimeLimit2 5000000000 (nemesis2 ng cg)"
    "good_gen (nemesis2 ng cg)" "nemesis2 ng cg \<noteq> None" "all_ptr (timely_node (sd_now sd)) (nemesis2 ng cg)"
    "all_ptr (raw_node (raw_ops {kNemesisProcess} {op_sig (factory_fakePartition (sh_json V))})) ng"
    "all_ptr (raw_node (raw_ops {} (client_sigs (sh_json V) shipped_keys))) cg"
    using test_generator_parts [OF r(1) _ assms(4)] by (auto simp: shipped_keys_def)
  have gen: "good_gen gen" "gen \<noteq> None" unfolding g(1) using good_time_limit [OF g(2,3)] by blast+
  have start: "shipped_law (sh_json V) (sd_now sd) gen []"
    unfolding g(1) using test_class_start [OF g(5,6)] within_start [OF g(2,4) _ assms(2)]
    by (simp add: obeys_def)
  have law: "list_all (routes (client_sigs (sh_json V) shipped_keys) {op_sig (factory_fakePartition (sh_json V))})
      (invocations (rn_history r')) \<and> before_cutoff 5000000000 (invocations (rn_history r'))"
    by (rule whole_test_law [OF shipped_system gen start r(2,3,4) assms(3) run])
  obtain s where s: "run_reaches (sh_depth V) (ETCDClient (sh_access V) (sh_etcd V)) shipped_nemesis
      (rn_nodes r) 5 gen s" "r_phase (s_run s) = Done" "rn_history r' = r_history (s_run s)"
    using run_loop [OF run r(2,3)] unfolding r(4) by metis
  have "sys_inv 5 {kSuccess, kFailed, kInvoke} good_gen s"
    using run_inv [OF shipped_contracts _ gen s(1)] by simp
  then have "ctx_inv 5 (r_ctx (s_run s))"
    "histories 5 {kSuccess, kFailed, kInvoke} (r_ctx (s_run s)) (rn_history r')"
    using s(2,3) by (simp_all add: sys_inv_def drained_def)
  then have "op_process o1 < 5 \<and> op_type o1 \<noteq> kInfo" if "o1 \<in> set (rn_history r')" "0 \<le> op_process o1" for o1
    using no_late_process that by fastforce
  then show ?thesis
    using law by (auto simp: list_all_iff routes_def before_cutoff_def invocations_def)
qed

text \<open>
  Remote shells on which every command fails, and an etcd that accepts writes and finds no key.
\<close>

definition idle_script :: script where
  "idle_script = \<lparr>scr_open = 0, scr_exec = 0, scr_out = [], scr_err = [], scr_close = 0,
     scr_status = 1, scr_signal = None\<rparr>"

definition array_json :: json_lib where
  "array_json =
     \<lparr>asInt = (\<lambda>j. Inr 0), asUInt = (\<lambda>j. Inr 0), double_to_string = (\<lambda>d. []),
      append_to = (\<lambda>j x. case j of arrayValue js \<Rightarrow> arrayValue (js @ [x]) | _ \<Rightarrow> arrayValue [x]),
      index_ref = (\<lambda>j k. (nullValue, j)), set_member = (\<lambda>j k x. objectValue [(k, x)])\<rparr>"

definition half_etcd :: "(unit, 'w) etcd_lib" where
  "half_etcd =
     \<lparr>etcd_new = (\<lambda>url. act_return ()),
      etcd_put = (\<lambda>key val e. act_return \<lparr>is_ok = True, value_string = []\<rparr>),
      etcd_get = (\<lambda>key e. act_return \<lparr>is_ok = False, value_string = []\<rparr>),
      etcd_modify_if = (\<lambda>key val old e. act_return \<lparr>is_ok = False, value_string = []\<rparr>)\<rparr>"

definition idle_env :: "(unit, unit, unit, unit, script) shipped_env" where
  "idle_env =
     \<lparr>sh_json = array_json, sh_access = array_access, sh_format = (\<lambda>t as. t @ concat as),
      sh_split = split_lines, sh_stem = id, sh_ndebug = True, sh_rounds = 2, sh_ssh = script_lib,
      sh_etcd = half_etcd, sh_depth = 16, sh_junk = 0\<rparr>"

definition shipped_schedule :: schedule where
  "shipped_schedule = demo_schedule\<lparr>sd_actions := [Ask 5 [], Ask 6 [0, 0, 1, 0], Ask 7 [], Work 0, Work 1,
     Work (- 1), Take 0 8, Take 0 9, Take 0 10, Ask 5000000005 [], Work 0, Work 1, Work 2, Work 3, Work 4,
     Work (- 1), JoinAll]\<rparr>"

definition idle_remote :: "string \<Rightarrow> unit ssh_remote" where
  "idle_remote ip =
     \<lparr>sr_concurrency_limit = 10, sr_conn_spec = node_spec shipped_ssh ip,
      sr_ssh_client =
        \<lparr>sc_ip_addr = ip, sc_host_addr = 0, sc_port = 22, sc_username = ''young'',
         sc_password = ''guazi13110'', sc_sock = 3, sc_session = Some ()\<rparr>,
      sr_ctx = SSHContext_default\<rparr>"

definition idle_shells :: "script \<times> unit ssh_remote list" where
  "idle_shells = (idle_script, map idle_remote shipped_nodes)"

definition idle_remotes :: remotes where
  "idle_remotes = zip shipped_nodes [Some 0, Some 1, Some 2]"

definition idle_db :: etcd_db where
  "idle_db = DB_initRemotes idle_remotes (ETCD_ctor shipped_nodes)"

abbreviation idle_remote_class :: "(remote_ptr, script \<times> unit ssh_remote list) remote_class" where
  "idle_remote_class \<equiv> shared (SSHRemote (\<lambda>t as. t @ concat as) script_lib 2)"

lemma idle_execute:
  "SSHClient_execute script_lib 2 cmd out err (sr_ssh_client (idle_remote ip)) idle_script =
     (Inr (False, out, err, sr_ssh_client (idle_remote ip)), idle_script)"
  by (simp add: SSHClient_execute_def idle_remote_def SSHChannel_ctor_def createChannel_def
      SSHChannel_exec_def SSHChannel_close_def script_lib_def idle_script_def act_bind_def act_return_def
      next_chunk.simps numeral_2_eq_2 kSocketInit_def)

lemma idle_connect:
  "not_drawing (initRemotes script_lib 2 shipped_ssh shipped_nodes []) ((idle_script, []), []) =
     (Inr idle_remotes, (idle_shells, []))"
  by code_simp

lemma idle_commands:
  assumes "i < 3"
  shows "rm_execute1 idle_remote_class cmd (Some i) idle_shells = (Inr (0, Some i), idle_shells)"
    and "rm_sudoExecute1 idle_remote_class cmd (Some i) idle_shells = (Inr (0, Some i), idle_shells)"
    and "rm_execute idle_remote_class cmd out err (Some i) idle_shells = (Inr (0, out, err, Some i), idle_shells)"
proof -
  have len: "length shipped_nodes = 3" by (simp add: shipped_nodes_def)
  have i: "i < length (snd idle_shells)" "snd idle_shells ! i = idle_remote (shipped_nodes ! i)"
    "fst idle_shells = idle_script"
    using assms len by (simp_all add: idle_shells_def)
  have same: "(fst idle_shells, (snd idle_shells)[i := idle_remote (shipped_nodes ! i)]) = idle_shells"
    using i(2) by (metis list_update_id prod.collapse)
  have upd: "(idle_remote ip)\<lparr>sr_ssh_client := sr_ssh_client (idle_remote ip)\<rparr> = idle_remote ip" for ip
    by (simp add: idle_remote_def)
  note defs = shared_def through_def act_bind_def act_return_def SSHRemote_def SSHRemote_execute1_def
    SSHRemote_execute3_def SSHRemote_execute_def SSHRemote_execute5_def SSHRemote_sudoExecute1_def
    SSHRemote_sudoExecute_def idle_execute upd
  show "rm_execute1 idle_remote_class cmd (Some i) idle_shells = (Inr (0, Some i), idle_shells)"
    using i same by (simp add: defs)
  show "rm_sudoExecute1 idle_remote_class cmd (Some i) idle_shells = (Inr (0, Some i), idle_shells)"
    using i same by (simp add: defs)
  show "rm_execute idle_remote_class cmd out err (Some i) idle_shells = (Inr (0, out, err, Some i), idle_shells)"
    using i same by (simp add: defs)
qed

lemma idle_node:
  assumes "node \<in> set shipped_nodes"
  obtains i where "i < 3" and "remote_at node idle_remotes = (Some i, idle_remotes)"
  using assms that [of 0] that [of 1] that [of 2]
  by (auto simp: shipped_nodes_def idle_remotes_def remote_at_def)

lemma idle_db_remotes [simp]: "ed_remotes idle_db = idle_remotes" "idle_db\<lparr>ed_remotes := idle_remotes\<rparr> = idle_db"
  by (simp_all add: idle_db_def DB_initRemotes_def)

lemma idle_arguments:
  assumes "node \<in> set shipped_nodes"
  shows "\<exists>args. etcd_arguments node idle_db = Inr (args, idle_db)"
  using assms
  by (auto simp: etcd_arguments_def idle_db_def DB_initRemotes_def ETCD_ctor_def ETCD_initialCluster_def
      ETCD_peerURL_def ETCD_clientURL_def ETCD_nodeURL_def ip_at_def shipped_nodes_def)

lemma idle_install:
  assumes "i < 3"
  shows "installArchive split_lines 2 idle_remote_class True (etcd_url idle_db) kDir False [] (Some i) idle_shells =
    (Inr (True, [], Some i), idle_shells)"
proof -
  obtain e where e: "base64_encode True (etcd_url idle_db) = Inr e"
    using encode_short [of "etcd_url idle_db"] by (auto simp: etcd_url_def idle_db_def ETCD_ctor_def DB_initRemotes_def)
  have "tmpDir_loop (Suc m) idle_remote_class dir [] (Some i) idle_shells = (Inr (dir, [], Some i), idle_shells)"
    for m dir
    by (simp add: exists_file_def act_bind_def act_return_def idle_commands [OF assms])
  from this [of 1] have loop:
    "tmpDir_loop 2 idle_remote_class dir [] (Some i) idle_shells = (Inr (dir, [], Some i), idle_shells)" for dir
    by (simp only: Suc_1)
  show ?thesis
    by (simp add: installArchive_def cachedWget_def e tmpDir_def random_dir_def rand_def loop extractArchive_def
        moveArchive_def exists_file_def act_bind_def act_return_def act_lift_def Let_def idle_commands [OF assms])
qed

lemma idle_setup:
  assumes "node \<in> set shipped_nodes"
  shows "db_setup (shipped_db idle_env) node idle_db (idle_shells, []) = (Inr (True, idle_db), (idle_shells, []))"
proof -
  obtain i where i: "i < 3" "remote_at node idle_remotes = (Some i, idle_remotes)"
    using assms by (rule idle_node)
  obtain args where args: "etcd_arguments node idle_db = Inr (args, idle_db)"
    using idle_arguments [OF assms] ..
  have start: "startDaemon id idle_remote_class etcd_options kBinary a (Some i) idle_shells =
      (Inr (Some i), idle_shells)" for a
    by (simp add: startDaemon_def echo_command_def daemon_command_def etcd_options_def no_options_def
        value_of_def act_lift_def act_bind_def act_return_def idle_commands [OF i(1)] Let_def)
  show ?thesis
    by (simp add: shipped_db_def idle_env_def ETCD_def ETCD_setup_def i(2) idle_install [OF i(1)] args start
        drawing_def not_drawing_def act_bind_def act_return_def act_lift_def)
qed

lemma idle_teardown:
  assumes "node \<in> set shipped_nodes"
  shows "db_teardown (shipped_db idle_env) node idle_db (idle_shells, []) = (Inr (True, idle_db), (idle_shells, []))"
proof -
  obtain i where i: "i < 3" "remote_at node idle_remotes = (Some i, idle_remotes)"
    using assms by (rule idle_node)
  show ?thesis
    by (simp add: shipped_db_def idle_env_def ETCD_def ETCD_teardown_def i(2) stopDaemon_def
        not_drawing_def act_bind_def act_return_def idle_commands [OF i(1)])
qed

lemma idle_phase:
  assumes "\<And>node. node \<in> set (rn_nodes r) \<Longrightarrow> f node r = (Inr (), r)"
  shows "for_nodes is f r = (Inr (), r)"
proof -
  have "act_for f xs r = (Inr (), r)" if "set xs \<subseteq> set (rn_nodes r)" for xs
    using that by (induction xs) (simp_all add: assms act_bind_def act_return_def)
  then show ?thesis by (simp add: for_nodes_def par_for_Inr set_par_order)
qed

definition idle_runner ::
  "(remotes, etcd_db, unit etcd_client, (script \<times> unit ssh_remote list) \<times> rng) runner" where
  "idle_runner =
     \<lparr>rn_nodes = shipped_nodes, rn_concurrency = 5, rn_ssh = shipped_ssh, rn_leave_db_running = True,
      rn_os = Some idle_remotes, rn_db = Some idle_db, rn_generator = None, rn_history = [],
      rn_remotes = idle_remotes, rn_relative_time = 0, rn_nemesis = None, rn_nf = None, rn_clients = [],
      rn_indexs = [], rn_world = (idle_shells, [])\<rparr>"

lemma idle_shipped_runner: "shipped_runner idle_env ((idle_script, []), []) = Inr idle_runner"
  by (simp add: shipped_runner_def Runner_make_def idle_connect idle_env_def Runner_setDB_def Runner_setOS_def
      idle_runner_def Ubuntu_def OS_initRemotes_def shipped_db_def ETCD_def idle_db_def)

lemma idle_infra:
  "setupOS Ubuntu is (Runner_setGenerator g idle_runner) = (Inr (), Runner_setGenerator g idle_runner)"
  "teardownDB (shipped_db idle_env) is (Runner_setGenerator g idle_runner) = (Inr (), Runner_setGenerator g idle_runner)"
  "setupDB (shipped_db idle_env) is (Runner_setGenerator g idle_runner) = (Inr (), Runner_setGenerator g idle_runner)"
proof -
  let ?r = "Runner_setGenerator g idle_runner"
  have r: "rn_nodes ?r = shipped_nodes" "rn_os ?r = Some idle_remotes" "rn_db ?r = Some idle_db"
    "rn_world ?r = (idle_shells, [])" "?r\<lparr>rn_os := Some idle_remotes, rn_world := (idle_shells, [])\<rparr> = ?r"
    "?r\<lparr>rn_db := Some idle_db, rn_world := (idle_shells, [])\<rparr> = ?r"
    by (simp_all add: Runner_setGenerator_def idle_runner_def)
  have os: "on_os (os_setup Ubuntu node) ?r = (Inr (), ?r)" if "node \<in> set (rn_nodes ?r)" for node
  proof -
    have "\<exists>i. remote_at node idle_remotes = (Some i, idle_remotes)"
      using that unfolding r(1) by (metis idle_node)
    then obtain i where "remote_at node idle_remotes = (Some i, idle_remotes)" ..
    then show ?thesis by (simp add: on_os_def r Ubuntu_def Ubuntu_setup_def act_return_def)
  qed
  show "setupOS Ubuntu is ?r = (Inr (), ?r)" unfolding setupOS_def using os by (rule idle_phase)
  have down: "act_void (on_db (db_teardown (shipped_db idle_env) node)) ?r = (Inr (), ?r)"
    if "node \<in> set (rn_nodes ?r)" for node
    using idle_teardown that r by (simp add: on_db_def act_void_def act_bind_def act_return_def)
  show "teardownDB (shipped_db idle_env) is ?r = (Inr (), ?r)" unfolding teardownDB_def using down by (rule idle_phase)
  have up: "act_void (on_db (db_setup (shipped_db idle_env) node)) ?r = (Inr (), ?r)"
    if "node \<in> set (rn_nodes ?r)" for node
    using idle_setup that r by (simp add: on_db_def act_void_def act_bind_def act_return_def)
  have "for_nodes is (\<lambda>node. act_void (on_db (db_setup (shipped_db idle_env) node))) ?r = (Inr (), ?r)"
    using up by (rule idle_phase)
  moreover have "setupPrimaries (shipped_db idle_env) ?r = (Inr (), ?r)"
  proof -
    have "ETCD_getPrimaries idle_db w = (Inr ([''47.108.193.81''], idle_db), w)"
      "ETCD_setupPrimary node idle_db w = (Inr (True, idle_db), w)" for node and w :: "(script \<times> unit ssh_remote list) \<times> rng"
      by (simp_all add: ETCD_getPrimaries_def ETCD_setupPrimary_def idle_db_def DB_initRemotes_def ETCD_ctor_def
          shipped_nodes_def act_return_def)
    then show ?thesis
      by (simp add: setupPrimaries_def shipped_db_def ETCD_def on_db_def r act_void_def act_bind_def act_return_def)
  qed
  ultimately show "setupDB (shipped_db idle_env) is ?r = (Inr (), ?r)" by (simp add: setupDB_def act_bind_def)
qed

text \<open>What is left of the run, which \<open>code_simp\<close> evaluates.\<close>

definition idle_rest ::
  "gen_ptr \<Rightarrow> unit res \<times> (remotes, etcd_db, unit etcd_client, (script \<times> unit ssh_remote list) \<times> rng) runner" where
  "idle_rest g =
     act_bind (\<lambda>r. (Inr (), r\<lparr>rn_relative_time := sd_start shipped_schedule\<rparr>)) (\<lambda>_.
     act_bind (setupClientNemesis (ETCDClient array_access half_etcd) shipped_nemesis
       (sd_early shipped_schedule) (sd_create shipped_schedule) (sd_clients_up shipped_schedule)) (\<lambda>_.
     act_bind (runCases (gen_op 16) gen_update (ETCDClient array_access half_etcd) shipped_nemesis
       (sd_now shipped_schedule) (sd_actions shipped_schedule)) (\<lambda>_.
     act_bind (teardownClientNemesis (ETCDClient array_access half_etcd) shipped_nemesis
       (sd_clients_down shipped_schedule)) (\<lambda>_.
     act_bind (finishDB (shipped_db idle_env) (sd_db_down shipped_schedule)) (\<lambda>_.
     teardownOS Ubuntu (sd_os_down shipped_schedule)))))) (Runner_setGenerator g idle_runner)"

lemma idle_main:
  "shipped_main idle_env draws shipped_schedule ((idle_script, []), []) =
     bind_res (test_generator array_json shipped_keys 0 draws) (\<lambda>g.
       case idle_rest g of (Inl e, r') \<Rightarrow> Inl e | (Inr _, r') \<Rightarrow> Inr r')"
proof -
  have env: "sh_json idle_env = array_json" "sh_junk idle_env = 0" "sh_depth idle_env = 16"
    "sh_access idle_env = array_access" "sh_etcd idle_env = half_etcd"
    by (simp_all add: idle_env_def)
  have "Runner_run Ubuntu (shipped_db idle_env) (gen_op 16) gen_update (ETCDClient array_access half_etcd)
      shipped_nemesis shipped_schedule (Runner_setGenerator g idle_runner) = idle_rest g" for g
    unfolding Runner_run_def idle_rest_def act_bind_def [of "setupOS _ _"] act_bind_def [of "teardownDB _ _"]
      act_bind_def [of "setupDB _ _"] by (simp add: idle_infra)
  then show ?thesis by (simp add: shipped_main_def idle_shipped_runner env del: gen_op.simps)
qed

text \<open>Equations that evaluate: keys, the URL of a node, and the delay of a stagger with an integer modulus.\<close>

definition rand_mod_abs :: "int \<Rightarrow> rng \<Rightarrow> (nat \<times> rng) res" where
  "rand_mod_abs dt = rand_mod (nat \<bar>dt\<bar>)"

lemma ETCDClient_clientURL_code [code]: "ETCDClient_clientURL node = ''http://'' @ node @ '':2379''"
proof -
  have "int_to_string 2379 = ''2379''"
    by (simp add: int_to_string_def nat_to_string.simps digits)
  then show ?thesis by (simp add: ETCDClient_clientURL_def ETCDClient_nodeURL_def)
qed

lemma shipped_keys_code [code]:
  "shipped_keys = map intValue [97, 98, 99, 100, 101, 102, 103, 104, 105, 106, 107, 108, 109, 110]"
  by (simp add: shipped_keys_def)

lemma rand_mod_nat_code [code]:
  "rand_mod_abs dt r = (if dt = 0 then Inl DivByZero
     else Inr (nat (int (fst (rand r)) mod \<bar>dt\<bar>), snd (rand r)))"
  unfolding rand_mod_abs_def rand_mod_def
  by (simp add: nat_mod_distrib)

lemma op_stagger_code [code]:
  "op_stagger rec dt next_time g c r =
     bind_res (rec g c r) (\<lambda>((op2, gen2), g', r1).
       if notNil op2 gen2 then
         let next_time' = (if next_time = kInvalidTime then ctx_time c else next_time) in
         if op_type op2 = kPending
         then Inr ((op2, Some (Stagger dt next_time' g')),
                   Some (Stagger dt next_time' g'), r1)
         else
           bind_res (rand_mod_abs dt r1) (\<lambda>(x, r2).
             bind_res (add_i64 next_time' (int x)) (\<lambda>next.
               let next_gen = createStagger3 dt next gen2;
                   op3 = (if next_time' > op_time op2
                          then op2\<lparr>op_time := next_time'\<rparr> else op2)
               in Inr ((op3, next_gen), Some (Stagger dt next_time' g'), r2)))
       else Inr (nil_op, Some (Stagger dt next_time g'), r1))"
  unfolding op_stagger_def rand_mod_abs_def ..

definition idle_gen :: gen_ptr where
  "idle_gen = createTimeLimit2 5000000000 (nemesis2 (createGenerator_fun (test_partition array_json))
     (Some (Stagger 2000000000 0 (Some (Mix 0 [createGenerator_fun (test_read array_json shipped_keys),
       createGenerator_fun (test_write array_json shipped_keys)])))))"

lemma idle_test_generator: "test_generator array_json shipped_keys 0 [] = Inr idle_gen"
proof -
  have "rand_mod (Suc (Suc 0)) [] = Inr (0, [])" by (simp add: rand_mod_def rand_def)
  moreover have "sec2nanos 5 = Inr 5000000000" "sec2nanos 1 = Inr 1000000000"
    by (simp_all add: sec2nanos_def round53_exact [where k = 0] in_i64_def)
  ultimately show ?thesis
    by (simp add: test_generator_def mix_def stagger_def timeLimit_def in_i64_def createStagger2_def
        Stagger_ctor2_def createMix_def idle_gen_def)
qed

lemma idle_main_returns:
  "(case idle_rest idle_gen of
      (Inl e, r') \<Rightarrow> False
    | (Inr _, r') \<Rightarrow> map (\<lambda>o1. (op_process o1, op_func o1, op_time o1)) (invocations (rn_history r')) =
       [(- 1, ''partition'', 5), (0, ''read'', 6), (1, ''write'', 7)])"
  by code_simp

theorem shipped_test_history_witness:
  "\<exists>r'. shipped_main idle_env [] shipped_schedule ((idle_script, []), []) = Inr r' \<and>
     map (\<lambda>o1. (op_process o1, op_func o1, op_time o1)) (invocations (rn_history r')) =
       [(- 1, ''partition'', 5), (0, ''read'', 6), (1, ''write'', 7)] \<and>
     list_all (\<lambda>o1. (op_sig o1 = op_sig (factory_fakePartition array_json) \<or>
         op_sig o1 \<in> client_sigs array_json shipped_keys) \<and> op_time o1 < 5000000005)
       (invocations (rn_history r'))"
proof -
  obtain x r' where rest: "idle_rest idle_gen = (x, r')" by force
  have x: "x = Inr ()" and hist: "map (\<lambda>o1. (op_process o1, op_func o1, op_time o1)) (invocations (rn_history r')) =
       [(- 1, ''partition'', 5), (0, ''read'', 6), (1, ''write'', 7)]"
    using idle_main_returns unfolding rest by (cases x; simp)+
  have main: "shipped_main idle_env [] shipped_schedule ((idle_script, []), []) = Inr r'"
    by (simp add: idle_main idle_test_generator rest x)
  have "sh_json idle_env = array_json" "sh_junk idle_env = 0" by (simp_all add: idle_env_def)
  moreover have "clocked (sd_now shipped_schedule) (sd_actions shipped_schedule)" "sd_now shipped_schedule = 0"
    by (simp_all add: shipped_schedule_def demo_schedule_def)
  moreover have "op_time (hd (invocations (rn_history r'))) = 5"
    using hist by (cases "invocations (rn_history r')") simp_all
  ultimately have "list_all (\<lambda>o1. (op_sig o1 = op_sig (factory_fakePartition array_json) \<or>
         op_sig o1 \<in> client_sigs array_json shipped_keys) \<and> op_time o1 < 5000000005)
       (invocations (rn_history r'))"
    using shipped_test_history [OF main] by (auto simp: list_all_iff)
  then show ?thesis using main hist by (intro exI [of _ r'] conjI)
qed

end
