(* ===== verification/Runner_Progress.thy ===== *)
theory Runner_Progress
  imports Runner_Lists
begin

text \<open>
  Runs with clients that do not raise on the operations a law lets through. Such a run never loses a
  worker; from every state of its loop the operations under way can be carried out and taken back
  (\<open>live_drains\<close>), so that the loop goes on as long as the generator offers operations, and is left
  when it has none. When a rank of the invocations goes down with every operation, there is a
  continuation to the end from every state; a list of operations is an instance.
\<close>

section \<open>Clients that do not raise\<close>

text \<open>\<open>opened\<close> holds of the clients that can be asked.\<close>

locale steady_clients =
  fixes K :: "('c, 'w) client_class" and N :: "('c, 'w) client_class"
    and Q :: "operation \<Rightarrow> bool" and opened :: "'c \<Rightarrow> bool"
  assumes creates: "\<exists>c v'. cl_create K v = (Inr c, v')"
    and opens: "\<exists>b c' v'. cl_open K node c v = (Inr (b, c'), v') \<and> opened c'"
    and invokes: "opened c \<Longrightarrow> Q op1 \<Longrightarrow> op_type op1 = kInvoke \<Longrightarrow> op_process op1 \<noteq> kNemesisProcess \<Longrightarrow>
      \<exists>b op' c' v'. cl_invoke K op1 c v = (Inr (b, op', c'), v') \<and> opened c'"
    and closes: "\<exists>b c' v'. cl_close K c v = (Inr (b, c'), v')"
    and nemesis_invokes: "Q op1 \<Longrightarrow> op_type op1 = kInvoke \<Longrightarrow> op_process op1 = kNemesisProcess \<Longrightarrow>
      \<exists>b op' c' v'. cl_invoke N op1 c v = (Inr (b, op', c'), v')"

text \<open>A worker has the client its next invocation goes to, or makes one.\<close>

definition ready :: "('c \<Rightarrow> bool) \<Rightarrow> 'c worker \<Rightarrow> bool" where
  "ready opened w \<longleftrightarrow> w_status w = Running \<and>
     (w_kind w = NemesisKind \<or> w_process w \<noteq> kInvalidProcess \<longrightarrow> w_client w \<noteq> None) \<and>
     (w_kind w = ClientKind \<longrightarrow> (\<forall>c. w_client w = Some c \<longrightarrow> opened c))"

lemma ready_put [simp]: "ready A (putOp op1 w) \<longleftrightarrow> ready A w"
  by (simp add: ready_def putOp_def)

lemma ready_in [simp]: "ready A (w\<lparr>w_in := q\<rparr>) \<longleftrightarrow> ready A w"
  by (simp add: ready_def)

context steady_clients
begin

lemma steady_close: "\<exists>b w' v'. ClientWorker_close K w v = (Inr (b, w'), v') \<and> w' = w\<lparr>w_client := None\<rparr>"
proof (cases "w_client w")
  case None
  then show ?thesis by (auto simp: ClientWorker_close_def act_return_def)
next
  case (Some c)
  obtain b c' v' where "cl_close K c v = (Inr (b, c'), v')" using closes by blast
  then show ?thesis using Some by (auto simp: ClientWorker_close_def act_bind_def act_return_def)
qed

lemma steady_invoke:
  assumes "ready opened w" and "Q op1" "op_type op1 = kInvoke"
    and kind: "w_kind w = ClientKind \<longleftrightarrow> op_process op1 \<noteq> kNemesisProcess"
  shows "\<exists>b op' w' v'. Worker_invoke K N op1 w v = (Inr (b, op', w'), v') \<and> ready opened w'"
proof -
  have "\<exists>b op' w' v'. Worker_invoke K N op1 w v = (Inr (b, op', w'), v') \<and>
    (w_kind w = ClientKind \<longrightarrow> (\<forall>c. w_client w' = Some c \<longrightarrow> opened c))"
  proof (cases "w_kind w")
    case NemesisKind
    then obtain c where c: "w_client w = Some c" using assms(1) by (auto simp: ready_def)
    obtain b op' c' v' where "cl_invoke N op1 c v = (Inr (b, op', c'), v')"
      using nemesis_invokes [OF assms(2,3)] kind NemesisKind by (metis worker_kind.distinct(1))
    then show ?thesis
      using NemesisKind c by (auto simp: Worker_invoke_def NemesisWorker_invoke_def act_bind_def act_return_def)
  next
    case ClientKind
    then have ask: "\<exists>b op' c' v'. cl_invoke K op1 c u = (Inr (b, op', c'), v') \<and> opened c'"
      if "opened c" for c u
      using invokes [OF that assms(2,3)] kind by simp
    show ?thesis
    proof (cases "w_process w = kInvalidProcess \<or> w_process w \<noteq> op_process op1")
      case True
      obtain b w1 v1 where w1: "ClientWorker_close K w v = (Inr (b, w1), v1)" using steady_close by blast
      obtain c v2 where c: "cl_create K v1 = (Inr c, v2)" using creates by blast
      obtain b2 c2 v3 where c2: "cl_open K (w_node w1) c v2 = (Inr (b2, c2), v3)" "opened c2"
        using opens by blast
      obtain b3 op' c3 v4 where "cl_invoke K op1 c2 v3 = (Inr (b3, op', c3), v4)" "opened c3"
        using ask [OF c2(2)] by blast
      then show ?thesis
        using True ClientKind w1 c c2
        by (auto simp: Worker_invoke_def ClientWorker_invoke_def act_bind_def act_return_def)
    next
      case False
      then obtain c where c: "w_client w = Some c" "opened c"
        using assms(1) ClientKind by (auto simp: ready_def)
      obtain b op' c' v' where "cl_invoke K op1 c v = (Inr (b, op', c'), v')" "opened c'"
        using ask [OF c(2)] by blast
      then show ?thesis
        using False ClientKind c by (auto simp: Worker_invoke_def ClientWorker_invoke_def act_bind_def act_return_def)
    qed
  qed
  then show ?thesis using Worker_invoke_frame assms(1) unfolding ready_def by metis
qed

end

section \<open>No worker is lost\<close>

definition steady :: "('c \<Rightarrow> bool) \<Rightarrow> ('c, 'w) sys \<Rightarrow> bool" where
  "steady opened s \<longleftrightarrow> in_i32 (r_outstanding (s_run s)) \<and>
     (r_phase (s_run s) = Polling \<longrightarrow> list_all (\<lambda>(t, w). ready opened w) (s_workers s)) \<and>
     (r_phase (s_run s) = Joining \<longrightarrow> list_all (\<lambda>(t, w). w_status w \<in> {Running, Finished}) (s_workers s))"

lemma workers_update:
  "list_all (\<lambda>(t, w). P w) ws \<Longrightarrow> P w' \<Longrightarrow> list_all (\<lambda>(t, w). P w) (AList.update t w' ws)"
  by (induction ws) auto

lemma workers_at: "list_all (\<lambda>(t, w). P w) ws \<Longrightarrow> map_of ws t = Some w \<Longrightarrow> P w"
  by (auto simp: list_all_iff dest: map_of_SomeD)

lemma run_poll_workers:
  assumes poll: "run_poll gop gupd now r rs ws = Inr (rs', ws')" and out: "in_i32 (r_outstanding rs)"
    and P: "list_all (\<lambda>(t, w). P w) ws" "\<And>op1 w. P w \<Longrightarrow> P (putOp op1 w)"
  shows "in_i32 (r_outstanding rs')" and "list_all (\<lambda>(t, w). P w) ws'"
proof -
  obtain o1 g2 g' r' where ans: "gop (r_gen rs) ((r_ctx rs)\<lparr>ctx_time := now\<rparr>) r = Inr ((o1, g2), g', r')"
    using poll by (auto simp: run_poll_def Let_def bind_res_eq_Inr)
  let ?rs1 = "rs\<lparr>r_ctx := (r_ctx rs)\<lparr>ctx_time := now\<rparr>, r_gen := g'\<rparr>"
  have all: "list_all (\<lambda>(t, w). P w) (map (\<lambda>(t, w). (t, putOp op1 w)) ws)" for op1
    using P by (induction ws) auto
  have go: "in_i32 (r_outstanding rs') \<and> list_all (\<lambda>(t, w). P w) ws'"
    if d: "dispatch gupd o1 g2 ?rs1 ws = Inr (rs', ws')"
  proof -
    obtain t w c1 where "map_of ws t = Some w" "ws' = AList.update t (putOp o1 w) ws"
      using d by (rule dispatch_parts)
    then have "list_all (\<lambda>(t, w). P w) ws'"
      using workers_at [OF P(1)] P(2) workers_update [OF P(1)] by blast
    moreover have "in_i32 (r_outstanding rs')"
      using d by (auto simp: dispatch_def Let_def bind_res_eq_Inr add_i32_def split: option.splits if_splits)
    ultimately show ?thesis by simp
  qed
  have "in_i32 (r_outstanding rs') \<and> list_all (\<lambda>(t, w). P w) ws'"
    using poll ans out P(1) all go
    by (auto simp: run_poll_def Let_def bind_res_eq_Inr split: if_splits)
  then show "in_i32 (r_outstanding rs')" "list_all (\<lambda>(t, w). P w) ws'" by blast+
qed

text \<open>The operations in the queues of the workers.\<close>

definition queued :: "(operation \<Rightarrow> bool) \<Rightarrow> ('c, 'w) sys \<Rightarrow> bool" where
  "queued Q s \<longleftrightarrow>
     (r_phase (s_run s) = Polling \<longrightarrow> list_all (\<lambda>(t, w). list_all Q (w_in w)) (s_workers s))"

lemma law_queued: "law_inv J Q F s \<Longrightarrow> queued Q s"
  by (cases "r_phase (s_run s)") (simp_all add: law_inv_def queued_def)

locale steady_system =
  runner_system gop gupd ginv K C N D n + steady_clients K N Q opened
  for gop gupd ginv and K :: "('c, 'w) client_class" and C and N :: "('c, 'w) client_class" and D and n
    and Q opened
begin

lemma steady_queue:
  assumes inv: "sys_inv n C ginv s" and st: "steady opened s" and q: "queued Q s"
    and poll: "r_phase (s_run s) = Polling" and w: "map_of (s_workers s) t = Some w" "w_in w = op1 # ops"
  shows "\<exists>b op' w2 v2. Worker_invoke K N op1 (w\<lparr>w_in := ops\<rparr>) v = (Inr (b, op', w2), v2) \<and> ready opened w2"
    and "op_type op1 \<noteq> kExit" and "ready opened w"
proof -
  have acc: "accounts n C (r_ctx (s_run s)) (r_outstanding (s_run s)) (s_workers s) (s_completions s)"
    using inv poll by (simp add: sys_inv_def)
  have all: "list_all (\<lambda>(t, w). ready opened w) (s_workers s)" using st poll by (simp add: steady_def)
  show ready: "ready opened w" by (rule workers_at [OF all w(1)])
  have "list_all Q (w_in w)"
    using q poll workers_hold [OF _ w(1)] by (simp add: queued_def)
  then have op: "Q op1" using w(2) by simp
  have ok: "op_type op1 = kInvoke" "map_of (workers (r_ctx (s_run s))) t = Some (op_process op1)"
    "w_kind w = ClientKind \<longleftrightarrow> t \<noteq> kNemesisProcess"
    using accountsD(4) [OF acc w(1)] w(2) by (auto simp: worker_ok_def)
  then show "op_type op1 \<noteq> kExit" by simp
  have "w_kind (w\<lparr>w_in := ops\<rparr>) = ClientKind \<longleftrightarrow> op_process op1 \<noteq> kNemesisProcess"
    using ok(3) ctx_inv_worker_range [OF accountsD(1) [OF acc] ok(2)] by auto
  then show "\<exists>b op' w2 v2. Worker_invoke K N op1 (w\<lparr>w_in := ops\<rparr>) v = (Inr (b, op', w2), v2) \<and> ready opened w2"
    using steady_invoke [OF _ op ok(1)] ready by simp
qed

lemma steady_work:
  assumes inv: "sys_inv n C ginv s" and st: "steady opened s" and q: "queued Q s"
    and phase: "r_phase (s_run s) \<in> {Polling, Joining}"
    and w: "map_of (s_workers s) t = Some w" and run: "w_status w = Running"
    and it: "runAsync_iter K N w (s_world s) = (w', out, v)"
  shows "steady opened (s\<lparr>s_workers := AList.update t w' (s_workers s),
          s_completions := s_completions s @ out, s_world := v\<rparr>)"
proof (cases "r_phase (s_run s) = Polling")
  case True
  have all: "list_all (\<lambda>(t, w). ready opened w) (s_workers s)" using st True by (simp add: steady_def)
  have "ready opened w'"
  proof (cases "w_in w")
    case Nil
    then show ?thesis using it workers_at [OF all w] by simp
  next
    case (Cons op1 ops)
    note steady = steady_queue [OF inv st q True w Cons]
    then obtain b op' w2 v2 where "Worker_invoke K N op1 (w\<lparr>w_in := ops\<rparr>) (s_world s) = (Inr (b, op', w2), v2)"
      "ready opened w2" by blast
    then show ?thesis using it Cons steady(2) by (auto simp: runAsync_iter_def)
  qed
  then show ?thesis using st True workers_update [OF all] by (simp add: steady_def)
next
  case False
  then have joining: "r_phase (s_run s) = Joining" using phase by simp
  then have all: "list_all (\<lambda>(t, w). w_status w \<in> {Running, Finished}) (s_workers s)"
    using st by (simp add: steady_def)
  have "drained n C s" using inv joining by (simp add: sys_inv_def)
  then obtain op1 q where op: "w_in w = op1 # q" "op_type op1 = kExit"
    using w run unfolding drained_def by (cases "w_in w") fastforce+
  have "w_status w' = Finished" by (rule exit_finishes [OF closes op it])
  then have "list_all (\<lambda>(t, w). w_status w \<in> {Running, Finished}) (AList.update t w' (s_workers s))"
    by (intro workers_update all) simp
  then show ?thesis using st joining by (simp add: steady_def)
qed

lemma steady_step:
  assumes step: "sys_step gop gupd K N s s'" and inv: "sys_inv n C ginv s" and st: "steady opened s"
    and q: "queued Q s"
  shows "steady opened s'"
  using step
proof cases
  case (complete xs op1 ys now rs)
  then have "in_i32 (r_outstanding rs)" "r_phase rs = Polling"
    using run_complete_phase [of gupd now op1 "s_run s" rs]
    by (auto simp: run_complete_def Let_def bind_res_eq_Inr add_i32_def split: if_splits)
  then show ?thesis using complete st by (simp add: steady_def)
next
  case (poll now r rs ws)
  have out: "in_i32 (r_outstanding (s_run s))" and all: "list_all (\<lambda>(t, w). ready opened w) (s_workers s)"
    using st poll(2) by (simp_all add: steady_def)
  have new: "in_i32 (r_outstanding rs)" "list_all (\<lambda>(t, w). ready opened w) ws"
    by (rule run_poll_workers [OF poll(3) out all]; simp)+
  then have "list_all (\<lambda>(t, w). w_status w \<in> {Running, Finished}) ws"
    by (fastforce simp: list_all_iff ready_def)
  then show ?thesis using poll(1) new by (simp add: steady_def)
next
  case (work t w w' out v)
  then show ?thesis using steady_work [OF inv st q] by simp
qed (use st in \<open>simp_all add: steady_def\<close>)

lemma steady_init:
  assumes "runCases_init N nodes n now g w0 = Inr s"
  shows "steady opened s"
proof -
  obtain ws w1 where ws: "init_workers N nodes n w0 = (Inr ws, w1)"
    and s: "s_workers s = ws" "r_outstanding (s_run s) = 0" "r_phase (s_run s) = Polling"
    using assms by (auto simp: runCases_init_def split: prod.splits sum.splits)
  have "list_all (\<lambda>(t, w). ready opened w) ws"
    using ws n_pos
    by (auto simp: init_workers_def NemesisWorker_def res_simps list_all_iff ready_def ClientWorker_def
        split: if_splits)
  then show ?thesis using s by (simp add: steady_def in_i32_def)
qed

text \<open>
  The operations under way: each of them is invoked, then its completion is taken.
\<close>

definition under_way :: "('x, 'y) sys \<Rightarrow> nat" where
  "under_way s = sum_list (map (\<lambda>(t, w). 2 * length (w_in w)) (s_workers s)) + length (s_completions s)"

lemma idle_outstanding:
  assumes inv: "sys_inv n C ginv s" and st: "steady opened s" and poll: "r_phase (s_run s) = Polling"
    and idle: "under_way s = 0"
  shows "r_outstanding (s_run s) = 0"
proof -
  have acc: "accounts n C (r_ctx (s_run s)) (r_outstanding (s_run s)) (s_workers s) (s_completions s)"
    using inv poll by (simp add: sys_inv_def)
  have "length (w_in w) = 0" "ready opened w" if "(t, w) \<in> set (s_workers s)" for t w
    using that idle st poll by (auto simp: under_way_def sum_list_eq_0_iff steady_def list_all_iff)
  then have "sum_list (map (\<lambda>(t, w). load w) (s_workers s)) = 0"
    by (auto simp: sum_list_eq_0_iff load_def ready_def)
  then show ?thesis using accountsD(7) [OF acc] idle by (simp add: under_way_def)
qed

lemma steady_completes:
  assumes inv: "sys_inv n C ginv s" and st: "steady opened s" and poll: "r_phase (s_run s) = Polling"
    and cs: "op1 \<in> set (s_completions s)" and C: "kInfo \<notin> C"
  shows "\<exists>rs. run_complete gupd now op1 (s_run s) = Inr rs \<and> r_phase rs = Polling"
proof -
  let ?rs = "s_run s"
  have acc: "accounts n C (r_ctx ?rs) (r_outstanding ?rs) (s_workers s) (s_completions s)"
    and g: "ginv (r_gen ?rs)" using inv poll by (simp_all add: sys_inv_def)
  have "completion_ok C (r_ctx ?rs) op1" using accountsD(6) [OF acc] cs by simp
  then have info: "op_process op1 = kNemesisProcess \<or> op_type op1 \<noteq> kInfo"
    using ctx_inv_worker_range [OF accountsD(1) [OF acc]] C by (fastforce simp: completion_ok_def)
  have "0 < r_outstanding ?rs" using accountsD(7) [OF acc] length_pos_if_in_set [OF cs] by linarith
  then have out: "add_i32 (r_outstanding ?rs) (- 1) = Inr (r_outstanding ?rs - 1)"
    using st by (simp add: steady_def add_i32_def in_i32_def)
  have "\<exists>g'. gupd (r_gen ?rs) c e = Inr g'" for c e using g_upd [OF g] by blast
  then obtain g' where "gupd (r_gen ?rs) ((r_ctx ?rs)\<lparr>ctx_time := now,
      free_threads := set_insert (processToThread (r_ctx ?rs) (op_process op1)) (free_threads (r_ctx ?rs))\<rparr>)
      (op1\<lparr>op_time := now\<rparr>) = Inr g'" by blast
  then show ?thesis using info out poll by (auto simp: run_complete_def Let_def)
qed

lemma drain_step:
  assumes inv: "sys_inv n C ginv s" and st: "steady opened s" and q: "queued Q s"
    and poll: "r_phase (s_run s) = Polling" and busy: "under_way s \<noteq> 0" and C: "kInfo \<notin> C"
  shows "\<exists>a s1. sys_exec gop gupd K N a s = Some s1 \<and> action_time t a = t \<and>
    r_phase (s_run s1) = Polling \<and> under_way s1 < under_way s \<and>
    (list_all (\<lambda>o1. op_type o1 \<noteq> kInvoke) (s_completions s) \<longrightarrow>
      invocations (r_history (s_run s1)) = invocations (r_history (s_run s)))"
proof (cases "s_completions s")
  case (Cons op1 cs)
  obtain rs where rs: "run_complete gupd t op1 (s_run s) = Inr rs" "r_phase rs = Polling"
    using steady_completes [OF inv st poll _ C, of op1] Cons by auto
  have hist: "r_history rs = r_history (s_run s) @ [op1\<lparr>op_time := t\<rparr>]"
    using rs(1) by (rule run_complete_parts)
  have "sys_exec gop gupd K N (Take 0 t) s = Some (s\<lparr>s_run := rs, s_completions := cs\<rparr>)"
    using poll Cons rs(1) by simp
  then show ?thesis
    using Cons rs hist
    by (intro exI [of _ "Take 0 t"] exI [of _ "s\<lparr>s_run := rs, s_completions := cs\<rparr>"]) (simp add: under_way_def)
next
  case Nil
  have acc: "accounts n C (r_ctx (s_run s)) (r_outstanding (s_run s)) (s_workers s) (s_completions s)"
    using inv poll by (simp add: sys_inv_def)
  obtain u w where tw: "(u, w) \<in> set (s_workers s)" "w_in w \<noteq> []"
    using busy Nil by (auto simp: under_way_def sum_list_eq_0_iff)
  then have w: "map_of (s_workers s) u = Some w" using accountsD(2) [OF acc] by simp
  obtain op1 ops where ops: "w_in w = op1 # ops" using tw(2) by (cases "w_in w") auto
  note steady = steady_queue [OF inv st q poll w ops]
  obtain b op' w2 v where run: "Worker_invoke K N op1 (w\<lparr>w_in := ops\<rparr>) (s_world s) = (Inr (b, op', w2), v)"
    using steady(1) by blast
  then have it: "runAsync_iter K N w (s_world s) = (w2, [op'], v)" and q2: "w_in w2 = ops"
    using ops steady(2) Worker_invoke_frame [OF run] by (simp_all add: runAsync_iter_def)
  let ?s = "s\<lparr>s_workers := AList.update u w2 (s_workers s), s_completions := s_completions s @ [op'], s_world := v\<rparr>"
  have "sys_exec gop gupd K N (Work u) s = Some ?s"
    using poll w steady(3) it by (simp add: ready_def)
  moreover have "under_way ?s < under_way s"
    using sum_list_update_key [OF w, of "\<lambda>w. 2 * length (w_in w)" w2] ops q2 by (simp add: under_way_def)
  ultimately show ?thesis using poll by (intro exI [of _ "Work u"] exI [of _ ?s]) simp
qed

text \<open>Nothing but the counter of the operations under way can stop a dispatch.\<close>

lemma dispatch_goes:
  assumes acc: "accounts n C (r_ctx rs) (r_outstanding rs) ws cs" and hist: "histories n C (r_ctx rs) (r_history rs)"
    and type: "op_type o1 = kInvoke" and proc: "op_process o1 \<in> insert kNemesisProcess (free_procs (r_ctx rs))"
    and g: "ginv g2" and out: "in_i32 (r_outstanding rs + 1)"
  shows "\<exists>rs' ws'. dispatch gupd o1 g2 rs ws = Inr (rs', ws')"
  using acc hist type proc g
proof (rule dispatch_step)
  assume "dispatch gupd o1 g2 rs ws = Inl SignedOverflow"
  moreover have "gupd g2 c e \<noteq> Inl x" for c e x using g_upd [OF g, of c e] by auto
  ultimately show ?thesis
    using out by (auto simp: dispatch_def Let_def add_i32_def bind_res_def split: option.splits sum.splits)
qed blast

text \<open>An answer of the generator, when nothing is under way.\<close>

lemma poll_idle:
  assumes inv: "sys_inv n C ginv s" and poll: "r_phase (s_run s) = Polling" and out: "r_outstanding (s_run s) = 0"
    and ans: "gop (r_gen (s_run s)) ((r_ctx (s_run s))\<lparr>ctx_time := now\<rparr>) r = Inr ((o1, g2), g', r')"
    and due: "op_type o1 = kNil \<or> op_type o1 = kInvoke \<and> op_time o1 \<le> now"
  shows "\<exists>s1. sys_exec gop gupd K N (Ask now r) s = Some s1 \<and>
    (if op_type o1 = kNil then r_phase (s_run s1) = Joining
     else r_phase (s_run s1) = Polling \<and> r_history (s_run s1) = r_history (s_run s) @ [o1])"
proof -
  let ?rs = "s_run s" and ?c = "(r_ctx (s_run s))\<lparr>ctx_time := now\<rparr>"
  let ?rs1 = "?rs\<lparr>r_ctx := ?c, r_gen := g'\<rparr>"
  have acc: "accounts n C ?c (r_outstanding ?rs) (s_workers s) (s_completions s)"
    and hist: "histories n C ?c (r_history ?rs)" and g: "ginv (r_gen ?rs)"
    using inv poll by (auto simp: sys_inv_def accounts_time histories_time)
  note op = g_op [OF ctx_inv_wf [OF accountsD(1) [OF acc]] g ans]
  have "\<exists>rs ws. run_poll gop gupd now r ?rs (s_workers s) = Inr (rs, ws) \<and>
    (if op_type o1 = kNil then r_phase rs = Joining
     else r_phase rs = Polling \<and> r_history rs = r_history ?rs @ [o1])"
  proof (cases "op_type o1 = kNil")
    case True
    then show ?thesis using ans out by (simp add: run_poll_def)
  next
    case False
    then have o1: "op_type o1 = kInvoke" "\<not> now < op_time o1" using due by auto
    have eq: "run_poll gop gupd now r ?rs (s_workers s) = dispatch gupd o1 g2 ?rs1 (s_workers s)"
      using ans o1 by (simp add: run_poll_def)
    have "op_process o1 \<in> insert kNemesisProcess (free_procs (r_ctx ?rs1))" "ginv g2"
      "in_i32 (r_outstanding ?rs1 + 1)"
      using op o1(1) out by (simp_all add: in_i32_def)
    then obtain rs ws where d: "dispatch gupd o1 g2 ?rs1 (s_workers s) = Inr (rs, ws)"
      using dispatch_goes [of ?rs1 "s_workers s" "s_completions s" o1 g2] acc hist o1(1) by auto
    then have "r_history rs = r_history ?rs1 @ [o1] \<and> r_phase rs = r_phase ?rs1"
      by (rule dispatch_parts) simp
    then show ?thesis using d eq poll o1 by simp
  qed
  then obtain rs ws where rs: "run_poll gop gupd now r ?rs (s_workers s) = Inr (rs, ws)"
    "if op_type o1 = kNil then r_phase rs = Joining
     else r_phase rs = Polling \<and> r_history rs = r_history ?rs @ [o1]" by blast
  show ?thesis
    using poll rs by (intro exI [of _ "s\<lparr>s_run := rs, s_workers := ws\<rparr>"]) simp
qed

end

section \<open>Laws that come to an end\<close>

text \<open>
  A generator that offers an operation or none whenever all clients are free, at a time that is not
  over; a rank of the invocations goes down with every operation.
\<close>

locale offering_law =
  dispatch_law gop gupd n J Q F for gop gupd n J Q F +
  fixes rank :: "operation list \<Rightarrow> nat" and T :: "int \<Rightarrow> bool"
  assumes offers: "ctx_inv n c \<Longrightarrow> {0..<n} \<subseteq> set (free_threads c) \<Longrightarrow> J t g h \<Longrightarrow> T t \<Longrightarrow>
      \<exists>now r o1 g2 g' r'. t \<le> now \<and> gop g (c\<lparr>ctx_time := now\<rparr>) r = Inr ((o1, g2), g', r') \<and>
        (op_type o1 = kNil \<or>
         op_type o1 = kInvoke \<and> op_time o1 \<le> now \<and> T now \<and> rank (h @ [o1]) < rank h)"

locale progress_system =
  steady_system gop gupd ginv K C N D n Q opened + offering_law gop gupd n J Q F rank T + settling_clients K N Q
  for gop gupd ginv and K :: "('c, 'w) client_class" and C and N :: "('c, 'w) client_class" and D
    and n J Q F opened rank T +
  assumes no_info: "kInfo \<notin> C"

sublocale progress_system \<subseteq> law: dispatch_system gop gupd ginv K C N D n J Q F
  by unfold_locales

context progress_system
begin

text \<open>What holds at every state of a run, at the time of its last action.\<close>

definition live :: "int \<Rightarrow> ('c, 'w) sys \<Rightarrow> bool" where
  "live t s \<longleftrightarrow> sys_inv n C ginv s \<and> steady opened s \<and> law_inv (J t) Q F s"

lemma live_exec:
  "sys_exec gop gupd K N a s = Some s' \<Longrightarrow> t \<le> action_time t a \<Longrightarrow> live t s \<Longrightarrow> live (action_time t a) s'"
  using sys_exec_step [of gop gupd K N a s s'] step_inv steady_step law_queued law.law_exec
  unfolding live_def by blast

lemma live_execs:
  "sys_execs gop gupd K N as s = Some s' \<Longrightarrow> clocked t as \<Longrightarrow> live t s \<Longrightarrow> live (fold (\<lambda>a t. action_time t a) as t) s'"
proof (induction as arbitrary: s t)
  case (Cons a as)
  then obtain s1 where "sys_exec gop gupd K N a s = Some s1" "sys_execs gop gupd K N as s1 = Some s'"
    by (auto split: option.splits)
  then show ?case using Cons live_exec by simp
qed simp

lemma live_steps:
  assumes timeless: "\<And>t'. J t' = J t" and "sys_steps gop gupd K N s s'" and "live t s"
  shows "live t s'"
  using assms(2,3) unfolding sys_steps_def
proof (induction rule: rtranclp_induct)
  case (step s1 s2)
  then show ?case
    using step_inv steady_step law_queued law.law_step [OF step.hyps(2) timeless] unfolding live_def by blast
qed

lemma live_init:
  assumes "runCases_init N nodes n now g w0 = Inr s" and "ginv g" and "J t g []"
  shows "live t s"
  unfolding live_def
  using init_inv [OF assms(1,2)] steady_init [OF assms(1)] law.law_init [OF assms(1), of t] assms(3) by blast

lemma live_drains:
  assumes "live t s" and "r_phase (s_run s) = Polling"
  shows "\<exists>s'. sys_steps gop gupd K N s s' \<and> live t s' \<and> r_phase (s_run s') = Polling \<and> under_way s' = 0 \<and>
    invocations (r_history (s_run s')) = invocations (r_history (s_run s))"
  using assms
proof (induction "under_way s" arbitrary: s rule: less_induct)
  case less
  show ?case
  proof (cases "under_way s = 0")
    case True
    then show ?thesis using less.prems by (intro exI [of _ s]) (simp add: sys_steps_def)
  next
    case False
    have s: "sys_inv n C ginv s" "steady opened s" "law_inv (J t) Q F s" using less.prems(1) by (simp_all add: live_def)
    obtain a s1 where s1: "sys_exec gop gupd K N a s = Some s1" "action_time t a = t"
      "r_phase (s_run s1) = Polling" "under_way s1 < under_way s"
      "invocations (r_history (s_run s1)) = invocations (r_history (s_run s))"
      using drain_step [OF s(1,2) law_queued [OF s(3)] less.prems(2) False no_info, of t] s(3) less.prems(2)
      by (auto simp: law_inv_def)
    have "live t s1" using live_exec [OF s1(1) _ less.prems(1)] s1(2) by simp
    then obtain s' where "sys_steps gop gupd K N s1 s'" "live t s'" "r_phase (s_run s') = Polling" "under_way s' = 0"
      "invocations (r_history (s_run s')) = invocations (r_history (s_run s1))"
      using less.hyps [OF s1(4)] s1(3) by blast
    then show ?thesis
      using sys_exec_step [OF s1(1)] s1(5) unfolding sys_steps_def by (metis converse_rtranclp_into_rtranclp)
  qed
qed

lemma live_joins:
  assumes "live t s" and "r_phase (s_run s) = Joining"
  shows "\<exists>s'. sys_steps gop gupd K N s s' \<and> r_phase (s_run s') = Done \<and>
    r_history (s_run s') = r_history (s_run s)"
proof -
  have "list_all (\<lambda>(t, w). w_status w \<in> {Running, Finished}) (s_workers s)"
    using assms by (simp add: live_def steady_def)
  then have "\<not> worker_has (s_workers s) u (Crashed e)" for u e
    using workers_at by (fastforce simp: worker_has_def)
  then show ?thesis using joining_done [OF closes] assms by (simp add: live_def)
qed

text \<open>One round: what is under way is carried out, and the generator asked.\<close>

lemma live_round:
  assumes "live t s" and "T t" and "r_phase (s_run s) = Polling"
  shows "\<exists>s' t'. sys_steps gop gupd K N s s' \<and> live t' s' \<and>
    (r_phase (s_run s') = Joining \<or> r_phase (s_run s') = Polling \<and> T t' \<and>
      rank (invocations (r_history (s_run s'))) < rank (invocations (r_history (s_run s))))"
proof -
  obtain s1 where s1: "sys_steps gop gupd K N s s1" "live t s1" "r_phase (s_run s1) = Polling" "under_way s1 = 0"
    "invocations (r_history (s_run s1)) = invocations (r_history (s_run s))"
    using live_drains [OF assms(1,3)] by blast
  have inv: "sys_inv n C ginv s1" "steady opened s1" "law_inv (J t) Q F s1" using s1(2) by (simp_all add: live_def)
  have out: "r_outstanding (s_run s1) = 0" by (rule idle_outstanding [OF inv(1,2) s1(3,4)])
  have acc: "accounts n C (r_ctx (s_run s1)) (r_outstanding (s_run s1)) (s_workers s1) (s_completions s1)"
    using inv(1) s1(3) by (simp add: sys_inv_def)
  have free: "{0..<n} \<subseteq> set (free_threads (r_ctx (s_run s1)))"
    using accounts_idle(3) [OF acc _ n_pos] out by simp
  let ?h = "invocations (r_history (s_run s1))"
  have J: "J t (r_gen (s_run s1)) ?h" using inv(3) s1(3) by (simp add: law_inv_def)
  obtain now r o1 g2 g' r' where now: "t \<le> now" and
    ans: "gop (r_gen (s_run s1)) ((r_ctx (s_run s1))\<lparr>ctx_time := now\<rparr>) r = Inr ((o1, g2), g', r')" and
    offer: "op_type o1 = kNil \<or> op_type o1 = kInvoke \<and> op_time o1 \<le> now \<and> T now \<and>
      rank (?h @ [o1]) < rank ?h"
    using offers [OF accountsD(1) [OF acc] free J assms(2)] by blast
  obtain s2 where s2: "sys_exec gop gupd K N (Ask now r) s1 = Some s2" "if op_type o1 = kNil then r_phase (s_run s2) = Joining
     else r_phase (s_run s2) = Polling \<and> r_history (s_run s2) = r_history (s_run s1) @ [o1]"
    using poll_idle [OF inv(1) s1(3) out ans] offer by blast
  have live: "live now s2" using live_exec [OF s2(1) _ s1(2)] now by simp
  have steps: "sys_steps gop gupd K N s s2"
    using s1(1) sys_exec_step [OF s2(1)] unfolding sys_steps_def by (rule rtranclp.rtrancl_into_rtrancl)
  show ?thesis
  proof (cases "op_type o1 = kNil")
    case True
    then show ?thesis using steps live s2(2) by auto
  next
    case False
    then have "r_phase (s_run s2) = Polling" "T now" "invocations (r_history (s_run s2)) = ?h @ [o1]"
      "rank (?h @ [o1]) < rank ?h"
      using s2(2) offer by auto
    then show ?thesis using steps live s1(5) by (intro exI [of _ s2] exI [of _ now]) simp
  qed
qed

lemma live_finishes:
  assumes "live t s" and "T t" and "\<And>e. r_phase (s_run s) \<noteq> Aborted e"
  shows "\<exists>s'. sys_steps gop gupd K N s s' \<and> r_phase (s_run s') = Done \<and> F (invocations (r_history (s_run s')))"
  using assms
proof (induction "rank (invocations (r_history (s_run s)))" arbitrary: s t rule: less_induct)
  case less
  have join: "\<exists>s'. sys_steps gop gupd K N s s' \<and> r_phase (s_run s') = Done \<and> F (invocations (r_history (s_run s')))"
    if "live t s" "r_phase (s_run s) = Joining" for t s
    using live_joins [OF that] that by (auto simp: live_def law_inv_def)
  show ?case
  proof (cases "r_phase (s_run s)")
    case Polling
    obtain s1 t1 where s1: "sys_steps gop gupd K N s s1" "live t1 s1"
      "r_phase (s_run s1) = Joining \<or> r_phase (s_run s1) = Polling \<and> T t1 \<and>
        rank (invocations (r_history (s_run s1))) < rank (invocations (r_history (s_run s)))"
      using live_round [OF less.prems(1,2) Polling] by blast
    have "\<exists>s'. sys_steps gop gupd K N s1 s' \<and> r_phase (s_run s') = Done \<and> F (invocations (r_history (s_run s')))"
      using s1(3) join [OF s1(2)] less.hyps [OF _ s1(2)] by auto
    then show ?thesis using s1(1) unfolding sys_steps_def by (metis rtranclp_trans)
  next
    case Joining
    then show ?thesis using join less.prems(1) by blast
  next
    case Done
    then show ?thesis
      using less.prems(1) by (intro exI [of _ s]) (simp add: sys_steps_def live_def law_inv_def)
  next
    case (Aborted e)
    then show ?thesis using less.prems(3) by blast
  qed
qed

text \<open>The states a run reaches: for laws without time, and on a clock that does not go back.\<close>

lemma steps_finish:
  assumes "\<And>t'. J t' = J t" and "runCases_init N nodes n now g w0 = Inr s0" and "ginv g" and "J t g []"
    and "sys_steps gop gupd K N s0 s" and "T t" and "\<And>e. r_phase (s_run s) \<noteq> Aborted e"
  shows "\<exists>s'. sys_steps gop gupd K N s s' \<and> r_phase (s_run s') = Done \<and> F (invocations (r_history (s_run s')))"
  by (rule live_finishes [OF live_steps [OF assms(1,5) live_init [OF assms(2-4)]] assms(6,7)])

lemma execs_finish:
  assumes "runCases_init N nodes n now g w0 = Inr s0" and "ginv g" and "J t g []"
    and "sys_execs gop gupd K N as s0 = Some s" and "clocked t as" and "T (fold (\<lambda>a t. action_time t a) as t)"
    and "\<And>e. r_phase (s_run s) \<noteq> Aborted e"
  shows "\<exists>s'. sys_steps gop gupd K N s s' \<and> r_phase (s_run s') = Done \<and> F (invocations (r_history (s_run s')))"
  by (rule live_finishes [OF live_execs [OF assms(4,5) live_init [OF assms(1-3)]] assms(6,7)])

end

section \<open>Lists of operations\<close>

lemma list_law_bounded: "validated (list_law d ops) g h \<Longrightarrow> length h \<le> length ops"
proof -
  have *: "length h \<le> length ops" if "list_law d ops p h" for p
  proof -
    have "length (map op_sig (h @ ptr_ops p)) = length (map op_sig ops)" using that by (simp add: list_law_def)
    then show ?thesis by simp
  qed
  show "validated (list_law d ops) g h \<Longrightarrow> length h \<le> length ops" by (erule validatedE) (auto dest: *)
qed

lemma list_law_offers:
  assumes c: "ctx_inv n c" and free: "{0..<n} \<subseteq> set (free_threads c)" and n: "0 < n" and ops: "ops \<noteq> []"
    and law: "validated (list_law d ops) g h"
  shows "\<exists>now r o1 g2 g' r'. t \<le> now \<and> gen_op d g (c\<lparr>ctx_time := now\<rparr>) r = Inr ((o1, g2), g', r') \<and>
    (op_type o1 = kNil \<or> op_type o1 = kInvoke \<and> op_time o1 \<le> now)"
  using law
proof (cases rule: validatedE)
  case none
  then obtain k where "d = Suc k" by (cases d) (auto simp: list_law_def)
  then have "gen_op d g (c\<lparr>ctx_time := t\<rparr>) [] = Inr ((Operation_of_type kNil, None), None, [])"
    using none(1) by (simp add: nil_op_def)
  then show ?thesis
    by (intro exI [of _ t] exI [of _ "[]"] exI [of _ "Operation_of_type kNil"]) (simp add: Operation_of_type_def)
next
  case (wrapped p)
  then have p: "all_ptr ops_node p" "psize p < d" by (simp_all add: list_law_def)
  then obtain k where k: "d = Suc k" by (cases d) auto
  define now where "now = max t (case ptr_ops p of [] \<Rightarrow> t | o0 # os \<Rightarrow> op_time o0)"
  let ?c = "c\<lparr>ctx_time := now\<rparr>"
  have ans: "queue_answer p ?c [] (gen_op k p ?c [])"
    by (rule queue_gen_op [OF ctx_inv_wf [OF ctx_inv_time [OF c]] p(1)]) (use p(2) k in simp)
  have "\<exists>o1 g2 r'. gen_op k p ?c [] = Inr ((o1, g2), p, r') \<and>
    (op_type o1 = kNil \<or> op_type o1 = kInvoke \<and> op_time o1 \<le> now)"
  proof (cases "ptr_ops p")
    case Nil
    then show ?thesis using ans by (simp add: queue_answer_def nil_op_def Operation_of_type_def)
  next
    case (Cons o0 os)
    have "op_type o0 \<in> {kInit, kInvoke}" using ops_types(2) [OF p(1), of o0] Cons by simp
    moreover have "free_threads c \<noteq> []" using free n by (force simp: subset_iff)
    ultimately show ?thesis using ans Cons by (auto simp: queue_answer_def now_def)
  qed
  then obtain o1 g2 r' where o1: "gen_op k p ?c [] = Inr ((o1, g2), p, r')"
    "op_type o1 = kNil \<or> op_type o1 = kInvoke \<and> op_time o1 \<le> now" by blast
  then have "\<exists>g2 g' r'. gen_op d g ?c [] = Inr ((o1, g2), g', r')"
    using k wrapped(1) by (auto simp: op_validate_def)
  moreover have "t \<le> now" by (simp add: now_def)
  ultimately show ?thesis using o1(2) by blast
qed

lemma list_offering:
  assumes "0 < n" and "ops \<noteq> []"
  shows "offering_law (gen_op d) gen_update n (\<lambda>t. validated (list_law d ops)) (\<lambda>_. True)
    (\<lambda>h. map op_sig h = map op_sig ops) (\<lambda>h. length ops - length h) (\<lambda>t. True)"
proof (intro offering_law.intro offering_law_axioms.intro list_law.dispatch_law_axioms)
  fix c g h t
  assume c: "ctx_inv n c" and free: "{0..<n} \<subseteq> set (free_threads c)" and law: "validated (list_law d ops) g h"
  obtain now r o1 g2 g' r' where o1: "t \<le> now" "gen_op d g (c\<lparr>ctx_time := now\<rparr>) r = Inr ((o1, g2), g', r')"
    "op_type o1 = kNil \<or> op_type o1 = kInvoke \<and> op_time o1 \<le> now"
    using list_law_offers [OF c free assms law] by blast
  have "length (h @ [o1]) \<le> length ops" if "op_type o1 = kInvoke" "op_time o1 \<le> now"
  proof -
    have "due (c\<lparr>ctx_time := now\<rparr>) o1" using that by (simp add: due_def)
    then have "validated (list_law d ops) g2 (h @ [o1])"
      using list_law.j_go [OF ctx_inv_time [OF c] law o1(2)] by blast
    then show ?thesis by (rule list_law_bounded)
  qed
  then show "\<exists>now r o1 g2 g' r'. t \<le> now \<and> gen_op d g (c\<lparr>ctx_time := now\<rparr>) r = Inr ((o1, g2), g', r') \<and>
      (op_type o1 = kNil \<or> op_type o1 = kInvoke \<and> op_time o1 \<le> now \<and> True \<and>
        length ops - length (h @ [o1]) < length ops - length h)"
    using o1 by (intro exI [of _ now] exI [of _ r] exI [of _ o1] exI [of _ g2] exI [of _ g'] exI [of _ r']) auto
qed

lemma list_progress:
  assumes "client_contract K C" and "client_contract N E" and "kInvoke \<notin> C" and "kInvoke \<notin> E"
    and "kInfo \<notin> C" and "steady_clients K N (\<lambda>_. True) opened" and "0 < n" and "ops \<noteq> []"
  shows "progress_system (gen_op d) gen_update good_gen K C N E n (\<lambda>t. validated (list_law d ops)) (\<lambda>_. True)
    (\<lambda>h. map op_sig h = map op_sig ops) opened (\<lambda>h. length ops - length h) (\<lambda>t. True)"
  by (intro progress_system.intro steady_system.intro progress_system_axioms.intro
      runner_systemI [OF assms(1,2,7)] contract_settles [OF assms(1-4)] assms(5,6) list_offering [OF assms(7,8)])

interpretation noop_steady: steady_clients "NoopNemesis c0" "NoopNemesis c0" Q "\<lambda>_. True" for c0 :: 'c and Q
  by unfold_locales (auto simp: NoopNemesis_def act_return_def)

interpretation noop_progress:
  progress_system "gen_op d" gen_update good_gen "NoopNemesis c0" "{kSuccess}" "NoopNemesis c0" "{kSuccess}"
    "int (Suc m)" "\<lambda>t. validated (list_law d (o1 # ops))" "\<lambda>_. True"
    "\<lambda>h. map op_sig h = map op_sig (o1 # ops)" "\<lambda>_. True" "\<lambda>h. length (o1 # ops) - length h" "\<lambda>t. True"
  for d c0 m o1 ops
  by (intro list_progress noop_nemesis.client_contract_axioms noop_steady.steady_clients_axioms) simp_all

text \<open>
  C8. A list of schedulable operations can be carried out to its end: with clients and a nemesis that
  keep their contract, do not raise and complete what they are given, the clients with a determinate
  outcome (never \<open>:info\<close>), and a stack more than two calls deeper than the list is long, every state a
  test over the list can reach that is not an abort has a continuation in which the test ends, with
  the list as the invocations of its history.
\<close>

theorem run_list_finishes:
  assumes "client_contract K C" and "client_contract N E" and "kInvoke \<notin> C" and "kInvoke \<notin> E"
    and "kInfo \<notin> C" and "steady_clients K N (\<lambda>_. True) opened" and "0 < n" and "list_all schedulable ops"
    and "ops \<noteq> []" and "length ops + 2 < d" and "run_reaches d K N nodes n (createGenerator_ops ops) s"
    and "\<And>e. r_phase (s_run s) \<noteq> Aborted e"
  shows "\<exists>s'. sys_steps (gen_op d) gen_update K N s s' \<and> r_phase (s_run s') = Done \<and>
    map op_sig (invocations (r_history (s_run s'))) = map op_sig ops"
proof -
  note g = createGenerator_ops_node [OF assms(8,9)]
  have sys: "progress_system (gen_op d) gen_update good_gen K C N E n (\<lambda>t. validated (list_law d ops)) (\<lambda>_. True)
      (\<lambda>h. map op_sig h = map op_sig ops) opened (\<lambda>h. length ops - length h) (\<lambda>t. True)"
    by (rule list_progress [OF assms(1-7,9)])
  obtain now w0 s0 where s0: "runCases_init N nodes n now (setGenerator (createGenerator_ops ops)) w0 = Inr s0"
    and steps: "sys_steps (gen_op d) gen_update K N s0 s"
    using assms(11) unfolding run_reaches_def by blast
  have "validated (list_law d ops) (setGenerator (createGenerator_ops ops)) []"
    using g assms(10) by (simp add: list_law_def)
  then show ?thesis
    by (rule progress_system.steps_finish [OF sys refl s0 good_gen_set [OF g(1,2)] _ steps TrueI assms(12)])
qed

text \<open>The first state of the test over two operations, with noop clients.\<close>

theorem run_list_finishes_witness:
  "\<exists>s s' :: (unit, unit) sys. r_history (s_run s) = [] \<and>
     sys_steps (gen_op 5) gen_update (NoopNemesis ()) (NoopNemesis ()) s s' \<and> r_phase (s_run s') = Done \<and>
     map op_sig (invocations (r_history (s_run s'))) = map op_sig list_ops"
proof -
  obtain s :: "(unit, unit) sys" where
    s: "runCases_init (NoopNemesis ()) [''n1''] 1 0 (setGenerator (createGenerator_ops list_ops)) () = Inr s"
    "r_phase (s_run s) = Polling" "r_history (s_run s) = []"
    by (simp add: runCases_init_def init_workers_def NemesisWorker_def NoopNemesis_def act_bind_def act_return_def)
  have reach: "run_reaches 5 (NoopNemesis ()) (NoopNemesis ()) [''n1''] 1 (createGenerator_ops list_ops) s"
    unfolding run_reaches_def using s(1) by (auto simp: sys_steps_def)
  have "\<exists>s'. sys_steps (gen_op 5) gen_update (NoopNemesis ()) (NoopNemesis ()) s s' \<and> r_phase (s_run s') = Done \<and>
      map op_sig (invocations (r_history (s_run s'))) = map op_sig list_ops"
    by (rule run_list_finishes [OF noop_contracts(2,2) _ _ _ noop_steady.steady_clients_axioms _ _ _ _ reach])
      (simp_all add: s(2) list_ops_def schedulable_def Operation_of_def)
  then show ?thesis using s(3) by blast
qed

end
