(* ===== verification/Runner_Unfailing.thy ===== *)
theory Runner_Unfailing
  imports Runner_Progress
begin

text \<open>
  Runs that are not aborted. When the generator answers at every time that is not over, with a time
  the runner can subtract the clock from, and the clients do not raise, nothing is left that aborts
  the loop but the counter of the operations under way, and a schedule has to ask for every one of
  them.
\<close>

text \<open>An answer whose distance to the clock can be represented.\<close>

definition sound_answer :: "int \<Rightarrow> op_result \<Rightarrow> bool" where
  "sound_answer now res \<longleftrightarrow>
     (case res of
        Inl e \<Rightarrow> False
      | Inr ((o1, g2), g', r') \<Rightarrow> op_type o1 = kInvoke \<longrightarrow> in_i64 (op_time o1 - now))"

locale answering_law =
  offering_law gop gupd n J Q F rank T for gop gupd n J Q F rank T +
  assumes answers: "ctx_inv n c \<Longrightarrow> J (ctx_time c) g h \<Longrightarrow> T (ctx_time c) \<Longrightarrow>
      sound_answer (ctx_time c) (gop g c r)"
    and T_earlier: "T t' \<Longrightarrow> t \<le> t' \<Longrightarrow> T t"

text \<open>At most \<open>m\<close> operations are under way, and no fault has ended the loop.\<close>

definition unaborted :: "int \<Rightarrow> ('c, 'w) sys \<Rightarrow> bool" where
  "unaborted m s \<longleftrightarrow> r_outstanding (s_run s) \<le> m \<and> (\<forall>e. r_phase (s_run s) \<noteq> Aborted e)"

lemma clocked_later: "clocked t as \<Longrightarrow> t \<le> fold (\<lambda>a t. action_time t a) as t"
proof (induction as arbitrary: t)
  case (Cons a as)
  then show ?case using Cons.IH [of "action_time t a"] by fastforce
qed simp

locale unfailing_system =
  progress_system gop gupd ginv K C N D n J Q F opened rank T + answering_law gop gupd n J Q F rank T
  for gop gupd ginv and K :: "('c, 'w) client_class" and C and N :: "('c, 'w) client_class" and D
    and n J Q F opened rank T
begin

lemma unaborted_poll:
  assumes "live t s" and "r_phase (s_run s) = Polling" and "t \<le> now" and "T now"
    and out: "r_outstanding (s_run s) \<le> m" "m + 1 < 2 ^ 31"
  shows "\<exists>rs ws. run_poll gop gupd now r (s_run s) (s_workers s) = Inr (rs, ws) \<and>
    r_outstanding rs \<le> m + 1 \<and> (\<forall>e. r_phase rs \<noteq> Aborted e)"
proof -
  let ?rs = "s_run s" and ?c = "(r_ctx (s_run s))\<lparr>ctx_time := now\<rparr>"
  have acc: "accounts n C ?c (r_outstanding ?rs) (s_workers s) (s_completions s)"
    and hist: "histories n C ?c (r_history ?rs)" and g: "ginv (r_gen ?rs)"
    and law: "J t (r_gen ?rs) (invocations (r_history ?rs))" and st: "in_i32 (r_outstanding ?rs)"
    using assms(1,2) by (simp_all add: live_def sys_inv_def accounts_time histories_time law_inv_def steady_def)
  have "sound_answer now (gop (r_gen ?rs) ?c r)"
    using answers [of ?c "r_gen ?rs" _ r] accountsD(1) [OF acc] j_later [OF law assms(3)] assms(4) by simp
  then obtain o1 g2 g' r' where ans: "gop (r_gen ?rs) ?c r = Inr ((o1, g2), g', r')"
    "op_type o1 = kInvoke \<longrightarrow> in_i64 (op_time o1 - now)"
    by (auto simp: sound_answer_def split: sum.splits)
  note op = g_op [OF ctx_inv_wf [OF accountsD(1) [OF acc]] g ans(1)]
  let ?rs1 = "?rs\<lparr>r_ctx := ?c, r_gen := g'\<rparr>"
  show ?thesis
  proof (cases "op_type o1 = kInvoke \<and> op_time o1 \<le> now")
    case True
    have "in_i32 (r_outstanding ?rs + 1)" using out st by (simp add: in_i32_def)
    then obtain rs ws where d: "dispatch gupd o1 g2 ?rs1 (s_workers s) = Inr (rs, ws)"
      using dispatch_goes [of ?rs1 "s_workers s" "s_completions s" o1 g2] acc hist op True by auto
    then have "r_outstanding rs = r_outstanding ?rs + 1" "r_phase rs = Polling"
      using assms(2) by (auto simp: dispatch_def Let_def bind_res_eq_Inr add_i32_eq_Inr split: option.splits)
    then show ?thesis using d ans(1) True out by (simp add: run_poll_def)
  next
    case False
    have type: "op_type o1 \<in> {kInvoke, kNil, kPending}" using op by blast
    then consider "op_type o1 = kNil" | "op_type o1 = kPending" | "op_type o1 = kInvoke" "now < op_time o1"
      using False by fastforce
    then show ?thesis
      using ans assms(2) out by cases (simp_all add: run_poll_def Let_def add_i64_def)
  qed
qed

lemma unaborted_exec:
  assumes step: "sys_exec gop gupd K N a s = Some s'" and live: "live t s" and un: "unaborted m s"
    and time: "t \<le> action_time t a" "T (action_time t a)" and m: "m + 1 < 2 ^ 31"
  shows "unaborted (m + 1) s'"
proof (cases a)
  case (Take i now)
  then have polling: "r_phase (s_run s) = Polling" and i: "i < length (s_completions s)"
    using step by (auto split: if_splits)
  have inv: "sys_inv n C ginv s" "steady opened s" using live by (simp_all add: live_def)
  obtain rs where rs: "run_complete gupd now (s_completions s ! i) (s_run s) = Inr rs" "r_phase rs = Polling"
    using steady_completes [OF inv polling nth_mem [OF i] no_info] by blast
  have "r_outstanding rs = r_outstanding (s_run s) - 1"
    using rs(1) by (auto simp: run_complete_def Let_def bind_res_eq_Inr add_i32_eq_Inr)
  then show ?thesis using Take step polling i rs un by (auto simp: unaborted_def)
next
  case (Ask now r)
  then have polling: "r_phase (s_run s) = Polling" using step by (auto split: if_splits)
  obtain rs ws where "run_poll gop gupd now r (s_run s) (s_workers s) = Inr (rs, ws)"
    "r_outstanding rs \<le> m + 1" "\<forall>e. r_phase rs \<noteq> Aborted e"
    using unaborted_poll [OF live polling _ _ _ m, of now r] time Ask un by (auto simp: unaborted_def)
  then show ?thesis using Ask step polling by (auto simp: unaborted_def)
next
  case (Work u)
  then have "s_run s' = s_run s" using step by (auto split: if_splits option.splits prod.splits)
  then show ?thesis using un by (auto simp: unaborted_def)
next
  case JoinAll
  then have "s_run s' = (s_run s)\<lparr>r_phase := Done\<rparr>" using step by (auto split: if_splits)
  then show ?thesis using un by (auto simp: unaborted_def)
qed

lemma unaborted_execs:
  assumes "sys_execs gop gupd K N as s = Some s'" and "live t s" and "unaborted m s" and "clocked t as"
    and "T (fold (\<lambda>a t. action_time t a) as t)" and "m + int (length as) < 2 ^ 31"
  shows "unaborted (m + int (length as)) s'"
  using assms
proof (induction as arbitrary: s t m)
  case (Cons a as)
  then obtain s1 where s1: "sys_exec gop gupd K N a s = Some s1" "sys_execs gop gupd K N as s1 = Some s'"
    by (auto split: option.splits)
  let ?t = "action_time t a"
  have time: "t \<le> ?t" "clocked ?t as" "T (fold (\<lambda>a t. action_time t a) as ?t)" using Cons.prems(4,5) by simp_all
  have "T ?t" by (rule T_earlier [OF time(3) clocked_later [OF time(2)]])
  then have "unaborted (m + 1) s1"
    using unaborted_exec [OF s1(1) Cons.prems(2,3) time(1)] Cons.prems(6) by simp
  then have "unaborted (m + 1 + int (length as)) s'"
    using Cons.IH [OF s1(2) live_exec [OF s1(1) time(1) Cons.prems(2)] _ time(2,3)] Cons.prems(6) by simp
  then show ?case by (simp add: algebra_simps)
qed simp

text \<open>Every state of a schedule is one from which the run can be finished.\<close>

lemma schedule_finishes:
  assumes init: "runCases_init N nodes n now g w0 = Inr s0" and "ginv g" and "J t g []"
    and "sys_execs gop gupd K N as s0 = Some s" and "clocked t as" and "T (fold (\<lambda>a t. action_time t a) as t)"
    and "int (length as) < 2 ^ 31"
  shows "\<exists>s'. sys_steps gop gupd K N s s' \<and> r_phase (s_run s') = Done \<and> F (invocations (r_history (s_run s')))"
proof -
  have "unaborted 0 s0"
    using init by (auto simp: unaborted_def runCases_init_def split: prod.splits sum.splits)
  then have "unaborted (int (length as)) s"
    using unaborted_execs [OF assms(4) live_init [OF assms(1-3)] _ assms(5,6), of 0] assms(7) by simp
  then have "r_phase (s_run s) \<noteq> Aborted e" for e by (simp add: unaborted_def)
  then show ?thesis by (rule execs_finish [OF assms(1-6)])
qed

end

end
