(* ===== verification/Runner_Endless.thy ===== *)
theory Runner_Endless
  imports Runner_Unfailing Runner_Limits
begin

text \<open>
  Runs under a time limit come to an end. A class of generators is \<open>endless\<close> when a generator of it
  always answers with an operation, or with pending where no thread it may use is free; functions
  form one, and \<open>Stagger\<close>, \<open>Mix\<close>, \<open>OnThreads\<close> and \<open>Any\<close> make one from others. Inside a \<open>TimeLimit\<close>
  such a generator offers an operation until the cutoff and none after it.
\<close>

section \<open>Generators that never run out\<close>

text \<open>
  An answer at the time \<open>T\<close>: a fault only if \<open>l\<close>, and pending only if not \<open>w\<close>. An operation is not
  earlier than the time of the question, and the generator it leaves is one of its time.
\<close>

definition endless_answer ::
  "(int \<Rightarrow> gen_ptr \<Rightarrow> bool) \<Rightarrow> bool \<Rightarrow> bool \<Rightarrow> int \<Rightarrow> op_result \<Rightarrow> bool" where
  "endless_answer R w l T res \<longleftrightarrow>
     (case res of
        Inl e \<Rightarrow> l
      | Inr ((o1, g2), p', r') \<Rightarrow>
          R T p' \<and>
          (op_type o1 = kInvoke \<and> T \<le> op_time o1 \<and> R (op_time o1) g2 \<or>
           op_type o1 = kPending \<and> \<not> w \<and> R T g2))"

lemma endless_answer_Inl [simp]: "endless_answer R w l T (Inl e) \<longleftrightarrow> l"
  by (simp add: endless_answer_def)

lemma endless_answer_Inr [simp]:
  "endless_answer R w l T (Inr ((o1, g2), p', r')) \<longleftrightarrow>
     R T p' \<and>
     (op_type o1 = kInvoke \<and> T \<le> op_time o1 \<and> R (op_time o1) g2 \<or>
      op_type o1 = kPending \<and> \<not> w \<and> R T g2)"
  by (simp add: endless_answer_def)

text \<open>The answer of a wrapper that calls the generator inside first.\<close>

lemma endless_bind:
  assumes "endless_answer R w l T x" and "l \<Longrightarrow> l'"
    and "\<And>o1 g2 p' r'. x = Inr ((o1, g2), p', r') \<Longrightarrow> op_type o1 \<noteq> kNil \<Longrightarrow>
      endless_answer R w l T (Inr ((o1, g2), p', r')) \<Longrightarrow> endless_answer R' w' l' T (f ((o1, g2), p', r'))"
  shows "endless_answer R' w' l' T (bind_res x f)"
proof (cases x)
  case (Inr y)
  obtain o1 g2 p' r' where "y = ((o1, g2), p', r')" by (cases y) auto
  then show ?thesis using assms Inr by auto
qed (use assms in simp)

text \<open>
  \<open>W\<close> says in which contexts a thread is free; a call depth of \<open>d\<close> is enough, and times up to \<open>b\<close>
  after the time of the question do not overflow when the sum does not.
\<close>

locale endless =
  fixes R :: "int \<Rightarrow> gen_ptr \<Rightarrow> bool" and W :: "ctx \<Rightarrow> bool" and b :: int and d :: nat
  assumes e_later: "R t p \<Longrightarrow> t \<le> t' \<Longrightarrow> R t' p"
    and e_some: "\<not> R t None"
    and e_copy: "R t (Some g) \<Longrightarrow> \<exists>q. copyOne g = Inr q \<and> R t q"
    and e_update: "R t p \<Longrightarrow> gen_update p c e = Inr q \<Longrightarrow> R t q"
    and e_op: "ctx_wf c \<Longrightarrow> R (ctx_time c) p \<Longrightarrow>
      endless_answer R (W c) (k < d \<or> 2 ^ 63 \<le> ctx_time c + b) (ctx_time c) (gen_op k p c r)"

text \<open>A worse bound.\<close>

lemma endless_weaken:
  assumes "endless R W b d" and "b \<le> b'" and "d \<le> d'" and "\<And>c. W' c \<Longrightarrow> W c"
  shows "endless R W' b' d'"
proof
  fix c p k r
  assume "ctx_wf c" "R (ctx_time c) p"
  then have "endless_answer R (W c) (k < d \<or> 2 ^ 63 \<le> ctx_time c + b) (ctx_time c) (gen_op k p c r)"
    by (rule endless.e_op [OF assms(1)])
  then show "endless_answer R (W' c) (k < d' \<or> 2 ^ 63 \<le> ctx_time c + b') (ctx_time c) (gen_op k p c r)"
    using assms(2-4) by (auto simp: endless_answer_def split: sum.splits)
qed (fact endless.e_later [OF assms(1)] endless.e_some [OF assms(1)] endless.e_copy [OF assms(1)]
    endless.e_update [OF assms(1)])+

text \<open>Two classes side by side, asked where both have a thread.\<close>

lemma endless_either:
  assumes 1: "endless R1 W b d" and 2: "endless R2 W b d"
  shows "endless (\<lambda>t p. R1 t p \<or> R2 t p) W b d"
proof
  fix c p k r
  assume "ctx_wf c" "R1 (ctx_time c) p \<or> R2 (ctx_time c) p"
  then show "endless_answer (\<lambda>t p. R1 t p \<or> R2 t p) (W c) (k < d \<or> 2 ^ 63 \<le> ctx_time c + b) (ctx_time c)
      (gen_op k p c r)"
    using endless.e_op [OF 1, of c p k r] endless.e_op [OF 2, of c p k r]
    by (auto simp: endless_answer_def split: sum.splits)
qed (use endless.e_later [OF 1] endless.e_later [OF 2] endless.e_some [OF 1] endless.e_some [OF 2]
    endless.e_copy [OF 1] endless.e_copy [OF 2] endless.e_update [OF 1] endless.e_update [OF 2] in metis)+

section \<open>Functions\<close>

text \<open>A function generator, or what its answers leave of it.\<close>

definition fresh :: "operation \<Rightarrow> bool" where
  "fresh o1 \<longleftrightarrow> op_type o1 \<in> {kInit, kInvoke} \<and> op_time o1 = 0"

definition source :: "gen_func \<Rightarrow> int \<Rightarrow> gen_ptr \<Rightarrow> bool" where
  "source fn t p \<longleftrightarrow>
     p = Some (FunctionGenerator fn) \<or> p = Some (ListGenerator [None, Some (FunctionGenerator fn)]) \<or>
     (\<exists>o1. fresh o1 \<and> p = Some (ListGenerator [Some (OperationGenerator o1), Some (FunctionGenerator fn)]))"

lemma ask_operation:
  assumes "ctx_wf c" and "fresh o1"
  shows "\<exists>o2 g2 r'. op_operation o1 c r = Inr ((o2, g2), Some (OperationGenerator o1), r') \<and>
    (op_type o2 = kInvoke \<and> op_time o2 = ctx_time c \<and> g2 = None \<or>
     op_type o2 = kPending \<and> free_threads c = [] \<and> g2 = Some (OperationGenerator o1))"
proof (cases "free_threads c = []")
  case True
  then show ?thesis
    by (simp add: op_operation_def fillInOperation_eq randomFreeProcess_none createGenerator_op_def)
next
  case False
  with assms(1) obtain p where "randomFreeProcess c r = Inr (p, snd (draw r))" "p \<noteq> kInvalidProcess"
    by (rule randomFreeProcess_some)
  then show ?thesis
    using assms(2) by (auto simp: op_operation_def fillInOperation_eq fresh_def)
qed

text \<open>Functions whose operations have no time yet.\<close>

locale fresh_function =
  fixes fn :: gen_func
  assumes applied: "fresh (fst (gen_func_apply fn c r))"
begin

lemma source_head:
  assumes "ctx_wf c" and "fresh o1"
  shows "endless_answer (source fn) (free_threads c \<noteq> []) (k < 2) (ctx_time c)
    (gen_op k (Some (ListGenerator [Some (OperationGenerator o1), Some (FunctionGenerator fn)])) c r)"
proof (cases "k < 2")
  case True
  then consider "k = 0" | "k = Suc 0" by linarith
  then show ?thesis using True by cases (simp_all add: op_list_def)
next
  case False
  then obtain m where k: "k = Suc (Suc m)" by (metis add_2_eq_Suc le_Suc_ex not_less)
  obtain o2 g2 r' where "op_operation o1 c r = Inr ((o2, g2), Some (OperationGenerator o1), r')"
    "op_type o2 = kInvoke \<and> op_time o2 = ctx_time c \<and> g2 = None \<or>
     op_type o2 = kPending \<and> free_threads c = [] \<and> g2 = Some (OperationGenerator o1)"
    using ask_operation [OF assms] by blast
  then show ?thesis using assms(2) k by (auto simp: op_list_def source_def)
qed

lemma source_function:
  assumes "ctx_wf c"
  shows "endless_answer (\<lambda>t p. source fn t p) (free_threads c \<noteq> []) (k < 3) (ctx_time c)
      (gen_op k (Some (FunctionGenerator fn)) c r)"
    and "gen_op k (Some (FunctionGenerator fn)) c r = Inr ((o1, g2), p', r') \<Longrightarrow> p' = Some (FunctionGenerator fn)"
proof -
  obtain o2 r1 where fn: "gen_func_apply fn c r = (o2, r1)" by force
  have "fresh o2" using applied [of c r] fn by simp
  note head = source_head [OF assms this]
  have eq: "gen_op (Suc m) (Some (FunctionGenerator fn)) c r =
      bind_res (gen_op m (Some (ListGenerator [Some (OperationGenerator o2), Some (FunctionGenerator fn)])) c r1)
        (\<lambda>(res, _, r2). Inr (res, Some (FunctionGenerator fn), r2))" for m
    using fn by (simp add: op_function_def factory_defs)
  show "endless_answer (\<lambda>t p. source fn t p) (free_threads c \<noteq> []) (k < 3) (ctx_time c)
      (gen_op k (Some (FunctionGenerator fn)) c r)"
  proof (cases k)
    case (Suc m)
    show ?thesis
      unfolding Suc eq by (rule endless_bind [OF head]) (auto simp: source_def)
  qed simp
  show "gen_op k (Some (FunctionGenerator fn)) c r = Inr ((o1, g2), p', r') \<Longrightarrow> p' = Some (FunctionGenerator fn)"
    by (cases k) (auto simp: eq bind_res_eq_Inr simp del: gen_op.simps(2))
qed

lemma source_rest:
  assumes "ctx_wf c"
  shows "endless_answer (source fn) (free_threads c \<noteq> []) (k < 5) (ctx_time c)
    (gen_op k (Some (ListGenerator [None, Some (FunctionGenerator fn)])) c r)"
proof (cases "k < 2")
  case True
  then consider "k = 0" | "k = Suc 0" by linarith
  then show ?thesis by cases (simp_all add: op_list_def)
next
  case False
  then obtain m where k: "k = Suc (Suc m)" by (metis add_2_eq_Suc le_Suc_ex not_less)
  let ?f = "Some (FunctionGenerator fn)"
  have single: "endless_answer (source fn) (free_threads c \<noteq> []) (m < 3) (ctx_time c)
      (bind_res (gen_op (Suc m) (Some (ListGenerator [?f])) c r)
        (\<lambda>(res, _, r2). Inr (res, Some (ListGenerator [None, ?f]), r2)))"
  proof (cases "gen_op m ?f c r")
    case (Inl e)
    then show ?thesis using source_function(1) [OF assms, of m r] by (simp add: op_list_def)
  next
    case (Inr y)
    obtain o1 g2 p' r' where y: "y = ((o1, g2), p', r')" by (cases y) auto
    note ans = Inr [unfolded y]
    have p': "p' = ?f" by (rule source_function(2) [OF assms ans])
    have o1: "op_type o1 \<noteq> kNil"
      "op_type o1 = kInvoke \<and> ctx_time c \<le> op_time o1 \<and> source fn (op_time o1) g2 \<or>
       op_type o1 = kPending \<and> \<not> free_threads c \<noteq> [] \<and> source fn (ctx_time c) g2"
      using source_function(1) [OF assms, of m r] ans by auto
    then show ?thesis using ans p' by (auto simp: op_list_def source_def)
  qed
  have null: "gen_op (Suc m) None c r = Inr (nil_op, None, r)" by simp
  show ?thesis
    unfolding k gen_op.simps(2) [of "Suc m"] op_step.simps op_list_skip_null [of "gen_op (Suc m)", OF null]
    using single by (auto simp: endless_answer_def split: sum.splits)
qed

lemma endless_source: "endless (source fn) (\<lambda>c. free_threads c \<noteq> []) 0 5"
proof
  fix c p k r
  assume c: "ctx_wf c" and "source fn (ctx_time c) p"
  then consider "p = Some (FunctionGenerator fn)" | "p = Some (ListGenerator [None, Some (FunctionGenerator fn)])"
    | o1 where "fresh o1" "p = Some (ListGenerator [Some (OperationGenerator o1), Some (FunctionGenerator fn)])"
    by (auto simp: source_def)
  then show "endless_answer (source fn) (free_threads c \<noteq> []) (k < 5 \<or> 2 ^ 63 \<le> ctx_time c + 0) (ctx_time c)
      (gen_op k p c r)"
    using source_function(1) [OF c, of k r] source_rest [OF c, of k r] source_head [OF c, of _ k r]
    by cases (fastforce simp: endless_answer_def split: sum.splits)+
qed (auto simp: source_def)

end

section \<open>Wrappers\<close>

text \<open>The schedule of a \<open>Stagger\<close> is never further ahead than its largest delay.\<close>

definition staggered :: "(int \<Rightarrow> gen_ptr \<Rightarrow> bool) \<Rightarrow> int \<Rightarrow> int \<Rightarrow> gen_ptr \<Rightarrow> bool" where
  "staggered R dt t p \<longleftrightarrow>
     0 \<le> t \<and> (\<exists>n q. p = Some (Stagger dt n q) \<and> - (2 ^ 63) \<le> n \<and> n \<le> t + \<bar>dt\<bar> \<and> R t q)"

definition mixed :: "(int \<Rightarrow> gen_ptr \<Rightarrow> bool) \<Rightarrow> int \<Rightarrow> gen_ptr \<Rightarrow> bool" where
  "mixed R t p \<longleftrightarrow> (\<exists>idx gs. p = Some (Mix idx gs) \<and> idx < length gs \<and> list_all (R t) gs)"

definition restricted :: "(int \<Rightarrow> bool) \<Rightarrow> (int \<Rightarrow> gen_ptr \<Rightarrow> bool) \<Rightarrow> int \<Rightarrow> gen_ptr \<Rightarrow> bool" where
  "restricted f R t p \<longleftrightarrow> (\<exists>q. p = Some (OnThreads q f) \<and> R t q)"

definition paired ::
  "(int \<Rightarrow> gen_ptr \<Rightarrow> bool) \<Rightarrow> (int \<Rightarrow> gen_ptr \<Rightarrow> bool) \<Rightarrow> int \<Rightarrow> gen_ptr \<Rightarrow> bool" where
  "paired R1 R2 t p \<longleftrightarrow> (\<exists>q1 q2. p = Some (Any [q1, q2]) \<and> R1 t q1 \<and> R2 t q2)"

context endless
begin

lemma e_notNil: "op_type o1 \<noteq> kNil \<Longrightarrow> R t g2 \<Longrightarrow> notNil o1 g2"
  using e_some by (cases g2) (auto simp: notNil_def)

lemma e_copy_ptr: "R t p \<Longrightarrow> \<exists>g q. p = Some g \<and> copyOne g = Inr q \<and> R t q"
  using e_some e_copy by (cases p) auto

text \<open>A wrapper calls the generator inside, at the same time and with less depth.\<close>

lemma e_inner:
  assumes "ctx_wf c" and "ctx_time c = T" and "R T q"
    and "\<And>m. k = Suc m \<Longrightarrow> gen_op k p c' r = bind_res (gen_op m q c r) f"
    and "k < Suc d \<or> 2 ^ 63 \<le> T + b \<Longrightarrow> l"
    and "\<And>o1 g2 q' r'. notNil o1 g2 \<Longrightarrow> R T q' \<Longrightarrow> op_type o1 \<noteq> kNil \<Longrightarrow>
      op_type o1 = kInvoke \<and> T \<le> op_time o1 \<and> R (op_time o1) g2 \<or> op_type o1 = kPending \<and> \<not> W c \<and> R T g2 \<Longrightarrow>
      endless_answer R' w l T (f ((o1, g2), q', r'))"
  shows "endless_answer R' w l T (gen_op k p c' r)"
proof (cases k)
  case (Suc m)
  have "endless_answer R (W c) (m < d \<or> 2 ^ 63 \<le> T + b) T (gen_op m q c r)"
    using e_op [OF assms(1), of q m r] assms(2,3) by simp
  then show ?thesis
    unfolding assms(4) [OF Suc]
  proof (rule endless_bind)
    fix o1 g2 q' r'
    assume type: "op_type o1 \<noteq> kNil"
      and "endless_answer R (W c) (m < d \<or> 2 ^ 63 \<le> T + b) T (Inr ((o1, g2), q', r'))"
    then have ans: "R T q'"
      "op_type o1 = kInvoke \<and> T \<le> op_time o1 \<and> R (op_time o1) g2 \<or> op_type o1 = kPending \<and> \<not> W c \<and> R T g2"
      by auto
    then have "notNil o1 g2" using type e_notNil by blast
    then show "endless_answer R' w l T (f ((o1, g2), q', r'))" using assms(6) ans type by blast
  qed (use assms(5) Suc in simp)
qed (use assms(5) in simp)

lemma e_threads: "endless (restricted f R) (\<lambda>c. W (onThreadsContext f c)) b (Suc d)"
proof
  fix c p k r
  assume c: "ctx_wf c" and "restricted f R (ctx_time c) p"
  then obtain q where q: "p = Some (OnThreads q f)" "R (ctx_time c) q" by (auto simp: restricted_def)
  show "endless_answer (restricted f R) (W (onThreadsContext f c)) (k < Suc d \<or> 2 ^ 63 \<le> ctx_time c + b)
      (ctx_time c) (gen_op k p c r)"
  proof (rule e_inner [OF ctx_wf_onThreadsContext [OF c] time_onThreadsContext q(2)])
    show "gen_op k p c r = bind_res (gen_op m q (onThreadsContext f c) r) (\<lambda>((op2, gen2), g', r').
       if notNil op2 gen2
       then Inr ((op2, createOnThreads gen2 f), Some (OnThreads g' f), r')
       else Inr (nil_op, Some (OnThreads g' f), r'))" if "k = Suc m" for m
      using q(1) that by (simp add: op_on_threads_def)
  qed (auto simp: restricted_def createOnThreads_def)
next
  fix t g
  assume "restricted f R t (Some g)"
  then obtain q where q: "g = OnThreads q f" "R t q" by (auto simp: restricted_def)
  then show "\<exists>q. copyOne g = Inr q \<and> restricted f R t q"
    using e_copy_ptr [of t q] by (auto simp: restricted_def createOnThreads_def)
next
  fix t p c e q
  assume "restricted f R t p" "gen_update p c e = Inr q"
  then show "restricted f R t q"
    using e_update by (auto simp: restricted_def createOnThreads_def bind_res_eq_Inr split: if_splits)
qed (use e_later in \<open>auto simp: restricted_def\<close>)

lemma e_stagger:
  assumes "dt \<noteq> 0" and "2 * \<bar>dt\<bar> \<le> b'" and "b \<le> b'"
  shows "endless (staggered R dt) W b' (Suc d)"
proof
  fix c :: ctx and p k r
  let ?T = "ctx_time c"
  assume c: "ctx_wf c" and "staggered R dt ?T p"
  then obtain n q where p: "p = Some (Stagger dt n q)" "- (2 ^ 63) \<le> n" "n \<le> ?T + \<bar>dt\<bar>" "R ?T q" "0 \<le> ?T"
    by (auto simp: staggered_def)
  define u where "u = (if n = kInvalidTime then ?T else n)"
  have u: "- (2 ^ 63) \<le> u" "u \<le> ?T + \<bar>dt\<bar>" using p by (auto simp: u_def)
  let ?f = "\<lambda>((op2, gen2), g', r1).
       if notNil op2 gen2 then
         if op_type op2 = kPending then Inr ((op2, Some (Stagger dt u g')), Some (Stagger dt u g'), r1)
         else
           bind_res (rand_mod (nat \<bar>dt\<bar>) r1) (\<lambda>(x, r2).
             bind_res (add_i64 u (int x)) (\<lambda>next.
               Inr ((if u > op_time op2 then op2\<lparr>op_time := u\<rparr> else op2, createStagger3 dt next gen2),
                 Some (Stagger dt u g'), r2)))
       else Inr (nil_op, Some (Stagger dt n g'), r1)"
  show "endless_answer (staggered R dt) (W c) (k < Suc d \<or> 2 ^ 63 \<le> ?T + b') ?T (gen_op k p c r)"
  proof (rule e_inner [OF c refl p(4)])
    show "gen_op k p c r = bind_res (gen_op m q c r) ?f" if "k = Suc m" for m
      unfolding that p(1) gen_op.simps op_step.simps op_stagger_def Let_def u_def [symmetric] ..
  next
    fix o1 g2 q' r1
    assume ans: "notNil o1 g2" "R ?T q'"
      "op_type o1 = kInvoke \<and> ?T \<le> op_time o1 \<and> R (op_time o1) g2 \<or> op_type o1 = kPending \<and> \<not> W c \<and> R ?T g2"
    obtain x r2 where x: "rand_mod (nat \<bar>dt\<bar>) r1 = Inr (x, r2)" "int x < \<bar>dt\<bar>"
    proof -
      have "nat \<bar>dt\<bar> \<noteq> 0" using assms(1) by simp
      then obtain x r2 where x: "rand_mod (nat \<bar>dt\<bar>) r1 = Inr (x, r2)" by (simp add: rand_mod_def)
      then show ?thesis using that rand_mod_less [OF x] by simp
    qed
    have wait: "staggered R dt ?T (Some (Stagger dt u q'))" using u p(5) ans(2) by (simp add: staggered_def)
    have go: "staggered R dt t (createStagger3 dt (u + int x) g2)"
      if "op_time o1 \<le> t" "u \<le> t" "?T \<le> op_time o1" "R (op_time o1) g2" for t
      using that u x(2) p(5) e_later [OF that(4,1)] by (simp add: staggered_def factory_defs)
    have fits: "add_i64 u (int x) = Inr (u + int x)" if "?T + b' < 2 ^ 63"
      using that u x(2) assms(2) by (simp add: add_i64_def in_i64_def)
    show "endless_answer (staggered R dt) (W c) (k < Suc d \<or> 2 ^ 63 \<le> ?T + b') ?T (?f ((o1, g2), q', r1))"
      using ans wait go x(1) fits by (cases "?T + b' < 2 ^ 63") (auto simp: add_i64_def)
  qed (use assms(3) in auto)
next
  fix t g
  assume "staggered R dt t (Some g)"
  then obtain n q where q: "g = Stagger dt n q" "R t q" "0 \<le> t" "- (2 ^ 63) \<le> n" "n \<le> t + \<bar>dt\<bar>"
    by (auto simp: staggered_def)
  then show "\<exists>q. copyOne g = Inr q \<and> staggered R dt t q"
    using e_copy_ptr [of t q] by (auto simp: staggered_def factory_defs)
next
  fix t p c e q
  assume "staggered R dt t p" "gen_update p c e = Inr q"
  then show "staggered R dt t q"
    using e_update by (auto simp: staggered_def factory_defs bind_res_eq_Inr)
qed (use e_later in \<open>fastforce simp: staggered_def\<close>)+

lemma e_copies: "list_all (R t) gs \<Longrightarrow> \<exists>hs. copy_derefs gs = Inr hs \<and> length hs = length gs \<and> list_all (R t) hs"
proof (induction gs)
  case (Cons p gs)
  then show ?case using e_copy_ptr [of t p] by auto
qed simp

lemma mix_some:
  assumes "list_all (R t) gs" and "gs \<noteq> []"
  shows "\<exists>m r'. mix gs r = Inr (m, r') \<and> mixed R t m"
proof -
  obtain i r' where i: "rand_mod (length gs) r = Inr (i, r')" using assms(2) by (simp add: rand_mod_def)
  then show ?thesis using assms rand_mod_less [OF i] by (simp add: mix_def mixed_def factory_defs)
qed

lemma e_mix: "endless (mixed R) W b (Suc d)"
proof
  fix c :: ctx and p k r
  let ?T = "ctx_time c"
  assume c: "ctx_wf c" and "mixed R ?T p"
  then obtain idx gs where p: "p = Some (Mix idx gs)" "idx < length gs" "list_all (R ?T) gs"
    by (auto simp: mixed_def)
  have q: "R ?T (gs ! idx)" using p by (simp add: list_all_length)
  let ?f = "\<lambda>((op2, gen2), g', r1).
          let gs' = gs[idx := g'] in
          if notNil op2 gen2 then
            bind_res (copy_derefs gs') (\<lambda>copy.
              bind_res (mix (copy[idx := gen2]) r1) (\<lambda>(m, r2).
                Inr ((op2, m), Some (Mix idx gs'), r2)))
          else
            bind_res (copy_derefs (take idx gs' @ drop (Suc idx) gs')) (\<lambda>copy.
              bind_res (mix copy r1) (\<lambda>(m, r2).
                bind_res (gen_op (k - 1) m c r2) (\<lambda>(res, _, r3).
                  Inr (res, Some (Mix idx gs'), r3))))"
  show "endless_answer (mixed R) (W c) (k < Suc d \<or> 2 ^ 63 \<le> ?T + b) ?T (gen_op k p c r)"
  proof (rule e_inner [OF c refl q])
    have "gs \<noteq> []" "\<not> length gs \<le> idx" using p(2) by auto
    then show "gen_op k p c r = bind_res (gen_op m (gs ! idx) c r) ?f" if "k = Suc m" for m
      unfolding that p(1) gen_op.simps op_step.simps op_mix_def diff_Suc_1 by simp
  next
    fix o1 g2 q' r1
    assume ans: "notNil o1 g2" "R ?T q'"
      "op_type o1 = kInvoke \<and> ?T \<le> op_time o1 \<and> R (op_time o1) g2 \<or> op_type o1 = kPending \<and> \<not> W c \<and> R ?T g2"
    have gs': "list_all (R ?T) (gs[idx := q'])"
      using p(3) ans(2) by (auto simp: list_all_iff dest: set_update_subset_insert [THEN subsetD])
    then obtain hs where hs: "copy_derefs (gs[idx := q']) = Inr hs" "length hs = length gs" "list_all (R ?T) hs"
      using e_copies [OF gs'] by auto
    have go: "\<exists>m r'. mix (hs[idx := g2]) r1 = Inr (m, r') \<and> mixed R t m" if "?T \<le> t" "R t g2" for t
    proof (rule mix_some)
      show "list_all (R t) (hs[idx := g2])"
        using hs(3) that e_later [OF _ that(1)]
        by (auto simp: list_all_iff dest!: set_update_subset_insert [THEN subsetD])
      show "hs[idx := g2] \<noteq> []" using hs(2) p(2) by auto
    qed
    have "mixed R ?T (Some (Mix idx (gs[idx := q'])))" using p(2) gs' by (simp add: mixed_def)
    then show "endless_answer (mixed R) (W c) (k < Suc d \<or> 2 ^ 63 \<le> ?T + b) ?T (?f ((o1, g2), q', r1))"
      using ans hs(1) go [of ?T] go [of "op_time o1"] by (auto simp: Let_def)
  qed auto
next
  fix t g
  assume "mixed R t (Some g)"
  then obtain idx gs where g: "g = Mix idx gs" "idx < length gs" "list_all (R t) gs" by (auto simp: mixed_def)
  then obtain hs where "copy_derefs gs = Inr hs" using e_copies [of t gs] by blast
  then show "\<exists>q. copyOne g = Inr q \<and> mixed R t q" using g by (simp add: mixed_def factory_defs)
qed (auto simp: mixed_def factory_defs list_all_iff intro: e_later)

end

interpretation reads: fresh_function "test_read J keys" for J keys
  by unfold_locales (simp add: fresh_def gen_func_apply_def test_read_def factory_read_def Operation_of_def split_def Let_def)

interpretation writes: fresh_function "test_write J keys" for J keys
  by unfold_locales (simp add: fresh_def gen_func_apply_def test_write_def factory_write_def Operation_of_def split_def Let_def)

interpretation partitions: fresh_function "test_partition J" for J
  by unfold_locales (simp add: fresh_def gen_func_apply_def test_partition_def factory_fakePartition_def Operation_of_def)

interpretation read_source: endless "source (test_read J keys)" "\<lambda>c. free_threads c \<noteq> []" 0 5 for J keys
  by (rule reads.endless_source)

section \<open>The first of two\<close>

text \<open>What the loop of \<open>Any\<close> makes of two answers that are not nil.\<close>

lemma any_first: "notNil o1 g1 \<Longrightarrow> any_step 0 any_init o1 g1 r = Inr (((o1, 1, 0), g1, o1, 0), r)"
  by (simp add: any_step_def any_init_def soonestOpMap_def Operation_of_type_def)

lemma any_second:
  assumes "notNil o1 g1" and "notNil o2 g2" and "op_type o1 \<in> {kInvoke, kPending}" and "op_type o2 \<in> {kInvoke, kPending}"
  shows "\<exists>cur og oo i r'. any_step (Suc 0) ((o1, 1, 0), g1, o1, 0) o2 g2 r = Inr ((cur, og, oo, i), r') \<and>
    (og = g1 \<and> oo = o1 \<and> i = 0 \<and> op_type o1 = kInvoke \<or>
     og = g2 \<and> oo = o2 \<and> i = 1 \<and> (op_type o2 = kInvoke \<or> op_type o1 = kPending))"
proof -
  obtain x r' where "rand_mod (Suc (Suc 0)) r = Inr (x, r')" by (simp add: rand_mod_def)
  then show ?thesis
    using assms by (auto simp: any_step_def soonestOpMap_def Let_def)
qed

lemma ask_pair:
  assumes "gen_op m q1 c r = Inr ((o1, g1), p1, r1)" and "notNil o1 g1"
  shows "gen_op (Suc m) (Some (Any [q1, q2])) c r =
    bind_res (gen_op m q2 c r1) (\<lambda>((o2, g2), p2, r2).
      bind_res (any_step (Suc 0) ((o1, 1, 0), g1, o1, 0) o2 g2 r2) (\<lambda>((cur, og, oo, i), r3).
        if notNil oo og then
          bind_res (copy_derefs [p1, p2]) (\<lambda>copy.
            Inr ((oo, createAny (updateOne copy i og)), Some (Any [p1, p2]), r3))
        else Inr (nil_op, Some (Any [p1, p2]), r3)))"
proof (cases "gen_op m q2 c r1")
  case (Inr y)
  obtain o2 g2 p2 r2 where y: "y = ((o2, g2), p2, r2)" by (cases y) auto
  show ?thesis
    using Inr assms unfolding y
    by (cases "any_step (Suc 0) ((o1, 1, 0), g1, o1, 0) o2 g2 r2") (auto simp: op_any_def any_first)
qed (use assms in \<open>simp add: op_any_def any_first\<close>)

lemma copy_pair:
  assumes "endless R1 W1 b d" and "endless R2 W2 b d" and "R1 t p1" and "R2 t p2"
  shows "\<exists>h1 h2. copy_derefs [p1, p2] = Inr [h1, h2] \<and> R1 t h1 \<and> R2 t h2"
  using endless.e_copy_ptr [OF assms(1,3)] endless.e_copy_ptr [OF assms(2,4)] by auto

lemma endless_paired:
  assumes 1: "endless R1 W1 b d" and 2: "endless R2 W2 b d"
  shows "endless (paired R1 R2) (\<lambda>c. W1 c \<or> W2 c) b (Suc d)"
proof
  fix c :: ctx and p k r
  let ?T = "ctx_time c"
  assume c: "ctx_wf c" and "paired R1 R2 ?T p"
  then obtain q1 q2 where p: "p = Some (Any [q1, q2])" "R1 ?T q1" "R2 ?T q2" by (auto simp: paired_def)
  show "endless_answer (paired R1 R2) (W1 c \<or> W2 c) (k < Suc d \<or> 2 ^ 63 \<le> ?T + b) ?T (gen_op k p c r)"
  proof (cases k)
    case (Suc m)
    note first = endless.e_op [OF 1 c p(2), of m r]
    show ?thesis
    proof (cases "gen_op m q1 c r")
      case (Inl e)
      then show ?thesis using first p(1) Suc by (simp add: op_any_def)
    next
      case (Inr y)
      obtain o1 g1 p1 r1 where "y = ((o1, g1), p1, r1)" by (cases y) auto
      note a1 = Inr [unfolded this]
      have ans1: "R1 ?T p1" "op_type o1 = kInvoke \<and> ?T \<le> op_time o1 \<and> R1 (op_time o1) g1 \<or>
          op_type o1 = kPending \<and> \<not> W1 c \<and> R1 ?T g1"
        using first a1 by simp_all
      then have some1: "notNil o1 g1" "op_type o1 \<in> {kInvoke, kPending}"
        using endless.e_notNil [OF 1] by auto
      show ?thesis
        unfolding Suc p(1) ask_pair [OF a1 some1(1)]
      proof (rule endless_bind [OF endless.e_op [OF 2 c p(3), of m r1]])
        fix o2 g2 p2 r2
        assume "endless_answer R2 (W2 c) (m < d \<or> 2 ^ 63 \<le> ?T + b) ?T (Inr ((o2, g2), p2, r2))"
        then have ans2: "R2 ?T p2" "op_type o2 = kInvoke \<and> ?T \<le> op_time o2 \<and> R2 (op_time o2) g2 \<or>
            op_type o2 = kPending \<and> \<not> W2 c \<and> R2 ?T g2" by simp_all
        then have some2: "notNil o2 g2" "op_type o2 \<in> {kInvoke, kPending}"
          using endless.e_notNil [OF 2] by auto
        obtain cur og oo i r3 where pick: "any_step (Suc 0) ((o1, 1, 0), g1, o1, 0) o2 g2 r2 = Inr ((cur, og, oo, i), r3)"
          "og = g1 \<and> oo = o1 \<and> i = 0 \<and> op_type o1 = kInvoke \<or>
           og = g2 \<and> oo = o2 \<and> i = 1 \<and> (op_type o2 = kInvoke \<or> op_type o1 = kPending)"
          using any_second [OF some1(1) some2(1) some1(2) some2(2)] by blast
        obtain h1 h2 where copy: "copy_derefs [p1, p2] = Inr [h1, h2]" "R1 ?T h1" "R2 ?T h2"
          using copy_pair [OF 1 2 ans1(1) ans2(1)] by blast
        have later: "R1 t h1" "R2 t h2" if "?T \<le> t" for t
          using copy that endless.e_later [OF 1] endless.e_later [OF 2] by blast+
        show "endless_answer (paired R1 R2) (W1 c \<or> W2 c) (Suc m < Suc d \<or> 2 ^ 63 \<le> ?T + b) ?T
          ((\<lambda>((o2, g2), p2, r2).
              bind_res (any_step (Suc 0) ((o1, 1, 0), g1, o1, 0) o2 g2 r2) (\<lambda>((cur, og, oo, i), r3).
                if notNil oo og then
                  bind_res (copy_derefs [p1, p2]) (\<lambda>copy.
                    Inr ((oo, createAny (updateOne copy i og)), Some (Any [p1, p2]), r3))
                else Inr (nil_op, Some (Any [p1, p2]), r3))) ((o2, g2), p2, r2))"
        proof -
          have wait: "paired R1 R2 ?T (Some (Any [p1, p2]))" using ans1 ans2 by (simp add: paired_def)
          from pick(2) show ?thesis
          proof (elim disjE conjE)
            assume o1: "og = g1" "oo = o1" "i = 0" "op_type o1 = kInvoke"
            then have "?T \<le> op_time o1" "R1 (op_time o1) g1" using ans1 by auto
            then show ?thesis
              using o1 later(2) wait some1 pick(1) copy(1) by (simp add: paired_def createAny_def updateOne_def)
          next
            assume o2: "og = g2" "oo = o2" "i = 1" "op_type o2 = kInvoke"
            then have "?T \<le> op_time o2" "R2 (op_time o2) g2" using ans2 by auto
            then show ?thesis
              using o2 later(1) wait some2 pick(1) copy(1) by (simp add: paired_def createAny_def updateOne_def)
          next
            assume o2: "og = g2" "oo = o2" "i = 1" "op_type o1 = kPending"
            then have "\<not> W1 c" using ans1 by auto
            moreover have "op_type o2 = kInvoke \<and> ?T \<le> op_time o2 \<and> R2 (op_time o2) g2 \<or>
              op_type o2 = kPending \<and> \<not> W2 c \<and> R2 ?T g2" by (fact ans2)
            ultimately show ?thesis
              using o2 later(1) wait some2 pick(1) copy by (auto simp: paired_def createAny_def updateOne_def)
          qed
        qed
      qed simp
    qed
  qed simp
next
  fix t g
  assume "paired R1 R2 t (Some g)"
  then obtain q1 q2 where g: "g = Any [q1, q2]" "R1 t q1" "R2 t q2" by (auto simp: paired_def)
  then show "\<exists>q. copyOne g = Inr q \<and> paired R1 R2 t q"
    using copy_pair [OF 1 2 g(2,3)] by (auto simp: paired_def createAny_def)
next
  fix t p c e q
  assume "paired R1 R2 t p" "gen_update p c e = Inr q"
  then obtain q1 q2 h1 h2 where "R1 t q1" "R2 t q2" "gen_update q1 c e = Inr h1" "gen_update q2 c e = Inr h2"
    "q = Some (Any [h1, h2])"
    by (auto simp: paired_def createAny_def bind_res_eq_Inr)
  then show "paired R1 R2 t q"
    using endless.e_update [OF 1] endless.e_update [OF 2] unfolding paired_def by blast
next
  fix t t' :: int and p
  assume "paired R1 R2 t p" "t \<le> t'"
  then show "paired R1 R2 t' p"
    using endless.e_later [OF 1] endless.e_later [OF 2] unfolding paired_def by blast
qed (simp add: paired_def)

section \<open>Under a time limit\<close>

text \<open>Such a generator in a \<open>TimeLimit\<close>, and the invocations so far are not of the future.\<close>

definition inside_limit :: "(int \<Rightarrow> gen_ptr \<Rightarrow> bool) \<Rightarrow> int \<Rightarrow> int \<Rightarrow> gen_ptr \<Rightarrow> operation list \<Rightarrow> bool" where
  "inside_limit R l t p h \<longleftrightarrow>
     (\<exists>cutoff g. p = Some (TimeLimit l cutoff g) \<and> R t g) \<and> list_all (\<lambda>o1. op_time o1 \<le> t) h"

definition unstarted :: "operation list \<Rightarrow> nat" where
  "unstarted h = (if h = [] then 1 else 0)"

context endless
begin

lemma inside_ask:
  assumes c: "ctx_inv n c" and law: "inside_limit R l (ctx_time c) p h"
    and ans: "gen_op k p c r = Inr ((o1, g2), p', r')"
  shows "inside_limit R l (ctx_time c) p' h"
    and "due c o1 \<Longrightarrow> inside_limit R l (ctx_time c) g2 (h @ [o1])"
proof -
  obtain cutoff g where p: "p = Some (TimeLimit l cutoff g)" "R (ctx_time c) g"
    and h: "list_all (\<lambda>o1. op_time o1 \<le> ctx_time c) h"
    using law by (auto simp: inside_limit_def)
  obtain m where k: "k = Suc m" using ans by (cases k) auto
  obtain o3 g3 g' r3 where inner: "gen_op m g c r = Inr ((o3, g3), g', r3)"
    using ans p k by (auto simp: op_time_limit_def bind_res_eq_Inr)
  have g: "R (ctx_time c) g'" "op_type o3 = kInvoke \<and> R (op_time o3) g3 \<or> op_type o3 = kPending"
    using e_op [OF ctx_inv_wf [OF c] p(2), of m r] inner by auto
  show "inside_limit R l (ctx_time c) p' h"
    using ans p k inner g(1) h
    by (auto simp: op_time_limit_def bind_res_eq_Inr inside_limit_def split: if_splits)
  have later: "R (ctx_time c) g3" if "op_type o3 = kInvoke" "op_time o3 \<le> ctx_time c"
    using g(2) that e_later by auto
  show "inside_limit R l (ctx_time c) g2 (h @ [o1])" if "due c o1"
    using ans p k inner h that later
    by (auto simp: op_time_limit_def bind_res_eq_Inr inside_limit_def due_def nil_op_def Operation_of_type_def
        factory_defs split: if_splits)
qed

lemma inside_law:
  "dispatch_law (gen_op k) gen_update n (inside_limit R l) (\<lambda>_. True) (\<lambda>_. True)"
proof
  show "inside_limit R l t g h \<Longrightarrow> gen_update g c e = Inr g' \<Longrightarrow> inside_limit R l t g' h" for t g h c e g'
    using e_update by (auto simp: inside_limit_def bind_res_eq_Inr factory_defs)
  show "inside_limit R l t g h \<Longrightarrow> t \<le> t' \<Longrightarrow> inside_limit R l t' g h" for t g h t'
    using e_later by (fastforce simp: inside_limit_def list_all_iff)
qed (use inside_ask in simp_all)

lemma inside_laws:
  "dispatch_law (gen_op k) gen_update n (\<lambda>t. validated (inside_limit R l t)) (\<lambda>_. True) (\<lambda>_. True)"
proof (rule law_depth)
  show "inside_limit R l t g h \<Longrightarrow> gen_update g c e = Inr g' \<Longrightarrow> inside_limit R l t g' h" for t g h c e g'
    by (rule dispatch_law.j_upd [OF inside_law])
  show "inside_limit R l t g h \<Longrightarrow> t \<le> t' \<Longrightarrow> inside_limit R l t' g h" for t g h t'
    by (rule dispatch_law.j_later [OF inside_law])
qed (simp_all add: inside_law)

text \<open>
  Before the first operation such a limit offers one, as the generator inside is \<open>prompt\<close>; after it,
  nothing from the cutoff on.
\<close>

lemma limit_offers:
  assumes c: "ctx_inv n c" and w: "\<And>t. W (c\<lparr>ctx_time := t\<rparr>)" and b: "0 \<le> b" and d: "d < k"
    and t: "t + l + b < 2 ^ 63" and law: "within l t p h" "inside_limit R l t p h"
  shows "\<exists>now o1 g2 g' r'. t \<le> now \<and> gen_op k p (c\<lparr>ctx_time := now\<rparr>) [] = Inr ((o1, g2), g', r') \<and>
    (op_type o1 = kNil \<or> op_type o1 = kInvoke \<and> op_time o1 \<le> now \<and> now = t \<and> h = [])"
proof -
  obtain m where k: "k = Suc m" "\<not> m < d" using d by (cases k) auto
  obtain cutoff g where p: "p = Some (TimeLimit l cutoff g)" "R t g" and past: "list_all (\<lambda>o1. op_time o1 \<le> t) h"
    using law(2) by (auto simp: inside_limit_def)
  have l: "0 < l" using law(1) by (simp add: within_def)
  have ask: "\<exists>o3 g3 g' r'. gen_op m g (c\<lparr>ctx_time := now\<rparr>) [] = Inr ((o3, g3), g', r') \<and> notNil o3 g3 \<and>
    op_type o3 = kInvoke \<and> now \<le> op_time o3" if now: "t \<le> now" "now \<le> t + l" for now
  proof -
    have "R now g" using p(2) now(1) by (rule e_later)
    then have "endless_answer R True False now (gen_op m g (c\<lparr>ctx_time := now\<rparr>) [])"
      using e_op [OF ctx_inv_wf [OF ctx_inv_time [OF c]], of now g m "[]"] w [of now] k(2) t now(2) by simp
    then obtain o3 g3 g' r' where "gen_op m g (c\<lparr>ctx_time := now\<rparr>) [] = Inr ((o3, g3), g', r')"
      "op_type o3 = kInvoke" "now \<le> op_time o3" "R (op_time o3) g3"
      by (auto simp: endless_answer_def split: sum.splits)
    then show ?thesis using e_notNil [of o3] by simp
  qed
  show ?thesis
  proof (cases h)
    case Nil
    then have g: "cutoff = kInvalidTime" "prompt t g" "0 \<le> t" using law(1) p(1) by (auto simp: within_def)
    let ?c = "c\<lparr>ctx_time := t\<rparr>"
    obtain o3 g3 g' r' where o3: "gen_op m g ?c [] = Inr ((o3, g3), g', r')"
      "notNil o3 g3" "op_type o3 = kInvoke" using ask [of t] l by auto
    have "op_time o3 = t"
      using prompt_ask(3) [OF ctx_inv_time [OF c] _ o3(1) o3(3)] g(2) by simp
    moreover have "in_i64 (t + l)" using g(3) l b t by (simp add: in_i64_def)
    ultimately have "gen_op k p ?c [] =
        Inr ((o3, createTimeLimit3 l (t + l) g3), Some (TimeLimit l (t + l) g'), r')"
      using o3 p(1) g(1) k(1) l by (simp add: op_time_limit_def add_i64_def)
    then show ?thesis using o3(3) \<open>op_time o3 = t\<close> Nil by (intro exI [of _ t]) simp
  next
    case (Cons x hs)
    then have x: "cutoff = op_time x + l" "0 \<le> op_time x" "op_time x \<le> t"
      using law(1) p(1) past by (auto simp: within_def limited_def)
    define now where "now = max t cutoff"
    have now: "t \<le> now" "cutoff \<le> now" "now \<le> t + l" using x l by (simp_all add: now_def)
    let ?c = "c\<lparr>ctx_time := now\<rparr>"
    obtain o3 g3 g' r' where o3: "gen_op m g ?c [] = Inr ((o3, g3), g', r')"
      "notNil o3 g3" "op_type o3 = kInvoke" "now \<le> op_time o3" using ask [OF now(1,3)] by blast
    have "cutoff \<noteq> kInvalidTime" "\<not> op_time o3 < cutoff" using x l o3(4) now(2) by auto
    then have "gen_op k p ?c [] = Inr (nil_op, Some (TimeLimit l cutoff g'), r')"
      using o3 p(1) k(1) by (simp add: op_time_limit_def)
    then show ?thesis
      using now(1) by (intro exI [of _ now]) (simp add: nil_op_def Operation_of_type_def)
  qed
qed

lemma limit_offering:
  assumes law: "dispatch_law (gen_op k) gen_update n J Q F" and b: "0 \<le> b" and d: "Suc d < k"
    and inside: "\<And>t g h. J t g h \<Longrightarrow> validated (\<lambda>g h. within l t g h \<and> inside_limit R l t g h) g h"
    and w: "\<And>c. ctx_inv n c \<Longrightarrow> {0..<n} \<subseteq> set (free_threads c) \<Longrightarrow> W c"
  shows "offering_law (gen_op k) gen_update n J Q F unstarted (\<lambda>t. t + l + b < 2 ^ 63)"
proof (intro offering_law.intro offering_law_axioms.intro law)
  fix c g h t
  assume c: "ctx_inv n c" and free: "{0..<n} \<subseteq> set (free_threads c)" and J: "J t g h" and t: "t + l + b < 2 ^ 63"
  obtain p where p: "g = Some (Validate p)" "within l t p h" "inside_limit R l t p h"
    using inside [OF J] by (cases rule: validatedE) (auto simp: inside_limit_def)
  obtain m where k: "k = Suc m" "d < m" using d by (cases k) auto
  have "W (c\<lparr>ctx_time := t\<rparr>)" for t using w [OF ctx_inv_time [OF c]] free by simp
  then obtain now o1 g2 g' r' where o1: "t \<le> now" "gen_op m p (c\<lparr>ctx_time := now\<rparr>) [] = Inr ((o1, g2), g', r')"
    "op_type o1 = kNil \<or> op_type o1 = kInvoke \<and> op_time o1 \<le> now \<and> now = t \<and> h = []"
    using limit_offers [OF c _ b k(2) t p(2,3)] by blast
  then have "\<exists>g2 g' r'. gen_op k g (c\<lparr>ctx_time := now\<rparr>) [] = Inr ((o1, g2), g', r')"
    using k(1) p(1) by (auto simp: op_validate_def)
  then show "\<exists>now r o1 g2 g' r'. t \<le> now \<and> gen_op k g (c\<lparr>ctx_time := now\<rparr>) r = Inr ((o1, g2), g', r') \<and>
      (op_type o1 = kNil \<or>
       op_type o1 = kInvoke \<and> op_time o1 \<le> now \<and> now + l + b < 2 ^ 63 \<and> unstarted (h @ [o1]) < unstarted h)"
    using o1 t by (fastforce simp: unstarted_def)
qed

text \<open>At a time from which the limit can still be reckoned, there is an answer.\<close>

lemma limit_answers:
  assumes c: "ctx_inv n c" and b: "0 \<le> b" and d: "d < k"
    and t: "ctx_time c + l + b < 2 ^ 63" and law: "within l (ctx_time c) p h" "inside_limit R l (ctx_time c) p h"
  shows "sound_answer (ctx_time c) (gen_op k p c r)"
proof -
  let ?T = "ctx_time c"
  obtain m where k: "k = Suc m" "\<not> m < d" using d by (cases k) auto
  obtain cutoff g where p: "p = Some (TimeLimit l cutoff g)" "R ?T g" and past: "list_all (\<lambda>o1. op_time o1 \<le> ?T) h"
    using law(2) by (auto simp: inside_limit_def)
  have l: "0 < l" using law(1) by (simp add: within_def)
  have "endless_answer R (W c) False ?T (gen_op m g c r)"
    using e_op [OF ctx_inv_wf [OF c] p(2), of m r] k(2) t l by simp
  then obtain o3 g3 g' r' where o3: "gen_op m g c r = Inr ((o3, g3), g', r')"
    "op_type o3 = kInvoke \<and> ?T \<le> op_time o3 \<or> op_type o3 = kPending"
    by (auto simp: endless_answer_def split: sum.splits)
  show ?thesis
  proof (cases h)
    case Nil
    then have g: "cutoff = kInvalidTime" "prompt ?T g" "0 \<le> ?T" using law(1) p(1) by (auto simp: within_def)
    have "op_type o3 = kInvoke \<Longrightarrow> op_time o3 = ?T" by (rule prompt_ask(3) [OF c g(2) o3(1)])
    moreover have "in_i64 (?T + l)" using g(3) l b t by (simp add: in_i64_def)
    ultimately show ?thesis
      using o3 p(1) g(1) k(1)
      by (auto simp: op_time_limit_def add_i64_def sound_answer_def nil_op_def Operation_of_type_def in_i64_def)
  next
    case (Cons x hs)
    then have "cutoff = op_time x + l" "0 \<le> op_time x" "op_time x \<le> ?T"
      using law(1) p(1) past by (auto simp: within_def limited_def)
    then have "cutoff \<noteq> kInvalidTime" "cutoff < 2 ^ 63" "0 \<le> ?T" using t l b by auto
    then show ?thesis
      using o3 p(1) k(1)
      by (auto simp: op_time_limit_def sound_answer_def nil_op_def Operation_of_type_def in_i64_def)
  qed
qed

lemma limit_answering:
  assumes law: "dispatch_law (gen_op k) gen_update n J Q F" and b: "0 \<le> b" and d: "Suc d < k"
    and inside: "\<And>t g h. J t g h \<Longrightarrow> validated (\<lambda>g h. within l t g h \<and> inside_limit R l t g h) g h"
    and w: "\<And>c. ctx_inv n c \<Longrightarrow> {0..<n} \<subseteq> set (free_threads c) \<Longrightarrow> W c"
  shows "answering_law (gen_op k) gen_update n J Q F unstarted (\<lambda>t. t + l + b < 2 ^ 63)"
proof (intro answering_law.intro answering_law_axioms.intro limit_offering assms)
  fix c g h r
  assume c: "ctx_inv n c" and J: "J (ctx_time c) g h" and t: "ctx_time c + l + b < 2 ^ 63"
  obtain p where p: "g = Some (Validate p)" "within l (ctx_time c) p h" "inside_limit R l (ctx_time c) p h"
    using inside [OF J] by (cases rule: validatedE) (auto simp: inside_limit_def)
  obtain m where k: "k = Suc m" "d < m" using d by (cases k) auto
  have "sound_answer (ctx_time c) (gen_op m p c r)" by (rule limit_answers [OF c b k(2) t p(2,3)])
  then show "sound_answer (ctx_time c) (gen_op k g c r)"
    using k(1) p(1) by (auto simp: op_validate_def sound_answer_def split: sum.splits if_splits)
next
  show "t + l + b < 2 ^ 63" if "t' + l + b < 2 ^ 63" "t \<le> t'" for t t'
    using that(2) by (intro le_less_trans [OF _ that(1)]) simp
qed

end

end
