(* ===== verification/Shipped_Progress.thy ===== *)
theory Shipped_Progress
  imports Shipped_Test Runner_Endless
begin

text \<open>
  The shipped test comes to an end. Its generator is an endless one under a time limit, and its
  clients do not raise as long as etcd answers and what it answers to a read is a number.
\<close>

section \<open>Its generator\<close>

text \<open>What is inside the limit: partitions by the nemesis, staggered reads and writes by the clients.\<close>

definition client_source :: "json_lib \<Rightarrow> json list \<Rightarrow> int \<Rightarrow> gen_ptr \<Rightarrow> bool" where
  "client_source J keys t p \<longleftrightarrow> source (test_read J keys) t p \<or> source (test_write J keys) t p"

definition test_source :: "json_lib \<Rightarrow> json list \<Rightarrow> int \<Rightarrow> gen_ptr \<Rightarrow> bool" where
  "test_source J keys =
     paired (restricted (\<lambda>t. t = kNemesisProcess) (source (test_partition J)))
       (restricted (\<lambda>t. t \<noteq> kNemesisProcess) (staggered (mixed (client_source J keys)) 2000000000))"

definition some_free :: "ctx \<Rightarrow> bool" where
  "some_free c \<longleftrightarrow> free_threads (onThreadsContext (\<lambda>t. t \<noteq> kNemesisProcess) c) \<noteq> []"

lemma all_free:
  assumes "ctx_inv n c" and "{0..<n} \<subseteq> set (free_threads c)" and "0 < n"
  shows "some_free c"
proof -
  have "ascending (free_threads c)" using assms(1) by (simp add: ctx_inv_def)
  moreover have "0 \<in> set (free_threads c)" using assms(2,3) by auto
  ultimately show ?thesis by (force simp: some_free_def free_onThreadsContext filter_empty_conv)
qed

interpretation client_sources: endless "client_source J keys" "\<lambda>c. free_threads c \<noteq> []" 0 5 for J keys
  unfolding client_source_def by (rule endless_either [OF reads.endless_source writes.endless_source])

interpretation test_sources: endless "test_source J keys" some_free 4000000000 9 for J keys
proof -
  let ?cli = "\<lambda>t. t \<noteq> kNemesisProcess" and ?nem = "\<lambda>t. t = kNemesisProcess"
  have mix: "endless (mixed (client_source J keys)) (\<lambda>c. free_threads c \<noteq> []) 0 6"
    using client_sources.e_mix by simp
  have stagger: "endless (staggered (mixed (client_source J keys)) 2000000000) (\<lambda>c. free_threads c \<noteq> []) 4000000000 7"
    using endless.e_stagger [OF mix, of 2000000000 4000000000] by simp
  have clients: "endless (restricted ?cli (staggered (mixed (client_source J keys)) 2000000000))
      (\<lambda>c. free_threads (onThreadsContext ?cli c) \<noteq> []) 4000000000 8"
    using endless.e_threads [OF stagger] by simp
  have nemesis: "endless (restricted ?nem (source (test_partition J)))
      (\<lambda>c. free_threads (onThreadsContext ?nem c) \<noteq> []) 4000000000 8"
    by (rule endless_weaken [OF endless.e_threads [OF partitions.endless_source]]) simp_all
  have "endless (test_source J keys) (\<lambda>c. free_threads (onThreadsContext ?nem c) \<noteq> [] \<or>
      free_threads (onThreadsContext ?cli c) \<noteq> []) 4000000000 9"
    using endless_paired [OF nemesis clients] by (simp add: test_source_def)
  then show "endless (test_source J keys) some_free 4000000000 9"
    by (rule endless_weaken) (simp_all add: some_free_def)
qed

lemma test_generator_inside:
  assumes "test_generator J keys junk r = Inr g" and "junk \<le> t \<or> junk = kInvalidTime"
    and "- (2 ^ 63) \<le> junk" and "0 \<le> t"
  shows "inside_limit (test_source J keys) 5000000000 t g []"
proof -
  obtain k where "k < 2" "g = createTimeLimit2 5000000000 (nemesis2 (createGenerator_fun (test_partition J))
    (Some (Stagger 2000000000 junk (Some (Mix k
      [createGenerator_fun (test_read J keys), createGenerator_fun (test_write J keys)])))))"
    using assms(1) by (rule test_generator_form)
  then show ?thesis
    using assms(2-4)
    by (auto simp: inside_limit_def test_source_def paired_def restricted_def staggered_def mixed_def
        client_source_def source_def nemesis2_def any_of_def nemesis1_def clients1_def factory_defs)
qed

section \<open>Its clients\<close>

text \<open>The first \<open>m\<close> arguments of an operation from \<open>i\<close> on can be read.\<close>

fun readable :: "json_access \<Rightarrow> nat \<Rightarrow> nat \<Rightarrow> json \<Rightarrow> bool" where
  "readable A i 0 info = True"
| "readable A i (Suc m) info =
     (case at_index A info i of
        Inl e \<Rightarrow> False
      | Inr (v, info') \<Rightarrow>
          (case asString A v of Inl e \<Rightarrow> False | Inr s \<Rightarrow> readable A (Suc i) m info'))"

lemma readable_Suc:
  assumes "readable A i (Suc m) info"
  obtains v info' s where "at_index A info i = Inr (v, info')" and "asString A v = Inr s"
    and "readable A (Suc i) m info'"
proof (cases "at_index A info i")
  case (Inr y)
  then show thesis using assms that by (cases y; cases "asString A (fst y)") auto
qed (use assms in simp)

text \<open>
  An etcd that answers every call, with a number where it answers a read, and operations whose
  arguments are there.
\<close>

locale answering_etcd =
  fixes A :: json_access and E :: "('e, 'w) etcd_lib" and J :: json_lib and keys :: "json list"
  assumes news: "\<exists>e w'. etcd_new E url w = (Inr e, w')"
    and puts: "\<exists>a w'. etcd_put E key val e w = (Inr a, w')"
    and gets: "\<exists>a w'. etcd_get E key e w = (Inr a, w') \<and> (is_ok a \<longrightarrow> (\<exists>v. stoi (value_string a) = Inr v))"
    and reads: "k \<in> set keys \<Longrightarrow> readable A 0 1 (op_info (factory_read J k))"
    and fills: "k \<in> set keys \<Longrightarrow> at_index A (op_info (factory_read J k)) 0 = Inr (v, info) \<Longrightarrow>
      \<exists>info'. set_index A info 1 (intValue i) = Inr info'"
    and writes: "k \<in> set keys \<Longrightarrow> m < length keys \<Longrightarrow>
      readable A 0 2 (op_info (factory_write J k (uintValue (int m))))"
begin

lemma answers_read:
  assumes "k \<in> set keys" and "op_sig o1 = op_sig (factory_read J k)" and "op_type o1 = kInvoke"
    and "ec_client c = Some e"
  shows "\<exists>b op' w'. ETCDClient_invoke A E o1 c w = (Inr (b, op', c), w')"
proof -
  have o1: "op_func o1 = ''read''" "op_info o1 = op_info (factory_read J k)"
    using assms(2) by (simp_all add: op_sig_def factory_read_def Operation_of_def)
  obtain v info s where arg: "at_index A (op_info o1) 0 = Inr (v, info)" "asString A v = Inr s"
    using readable_Suc [of A 0 0 "op_info o1"] reads [OF assms(1)] o1(2) by auto
  have set: "\<exists>info'. set_index A info 1 (intValue i) = Inr info'" for i
    using fills [OF assms(1)] arg(1) o1(2) by simp
  obtain a w' where get: "etcd_get E s e w = (Inr a, w')" "is_ok a \<longrightarrow> (\<exists>v. stoi (value_string a) = Inr v)"
    using gets by blast
  show ?thesis
  proof (cases "is_ok a")
    case True
    then obtain i where i: "stoi (value_string a) = Inr i" using get(2) by blast
    obtain info' where "set_index A info 1 (intValue i) = Inr info'" using set by blast
    then show ?thesis
      using True i assms(3,4) o1(1) arg get(1)
      by (auto simp: ETCDClient_invoke_def arg_string_def deref_client_def act_bind_def act_lift_def act_return_def)
  next
    case False
    then show ?thesis
      using assms(3,4) o1(1) arg get(1)
      by (auto simp: ETCDClient_invoke_def arg_string_def deref_client_def act_bind_def act_lift_def act_return_def)
  qed
qed

lemma answers_write:
  assumes "k \<in> set keys" and "m < length keys" and "op_sig o1 = op_sig (factory_write J k (uintValue (int m)))"
    and "op_type o1 = kInvoke" and "ec_client c = Some e"
  shows "\<exists>b op' w'. ETCDClient_invoke A E o1 c w = (Inr (b, op', c), w')"
proof -
  have o1: "op_func o1 = ''write''" "op_info o1 = op_info (factory_write J k (uintValue (int m)))"
    using assms(3) by (simp_all add: op_sig_def factory_write_def Operation_of_def)
  have "readable A 0 (Suc (Suc 0)) (op_info o1)"
    using writes [OF assms(1,2)] o1(2) by (simp add: numeral_2_eq_2)
  then obtain v info s v' info' s' where arg: "at_index A (op_info o1) 0 = Inr (v, info)" "asString A v = Inr s"
    "at_index A info (Suc 0) = Inr (v', info')" "asString A v' = Inr s'"
    by (metis readable_Suc)
  obtain a w' where "etcd_put E s s' e w = (Inr a, w')" using puts by blast
  then show ?thesis
    using assms(4,5) o1(1) arg
    by (auto simp: ETCDClient_invoke_def arg_string_def deref_client_def act_bind_def act_lift_def act_return_def)
qed

lemma answers_routed:
  assumes "routes (client_sigs J keys) T o1" and "op_process o1 \<noteq> kNemesisProcess" and "op_type o1 = kInvoke"
    and "ec_client c = Some e"
  shows "\<exists>b op' w'. ETCDClient_invoke A E o1 c w = (Inr (b, op', c), w')"
proof -
  have "op_sig o1 \<in> client_sigs J keys" using assms(1,2) by (auto simp: routes_def)
  then obtain k where "k \<in> set keys" "op_sig o1 = op_sig (factory_read J k) \<or>
      (\<exists>v < length keys. op_sig o1 = op_sig (factory_write J k (uintValue (int v))))"
    by (auto simp: client_sigs_def)
  then show ?thesis using answers_read [OF _ _ assms(3,4)] answers_write [OF _ _ _ assms(3,4)] by blast
qed

lemma steady_etcd:
  "steady_clients (ETCDClient A E) (NoopNemesis c0) (routes (client_sigs J keys) T) (\<lambda>c. ec_client c \<noteq> None)"
proof
  show "\<exists>b c' v'. cl_open (ETCDClient A E) node c v = (Inr (b, c'), v') \<and> ec_client c' \<noteq> None" for node c v
    using news [of "ETCDClient_clientURL node" v]
    by (auto simp: ETCDClient_def ETCDClient_open_def act_bind_def act_return_def)
  show "\<exists>b op' c' v'. cl_invoke (ETCDClient A E) o1 c v = (Inr (b, op', c'), v') \<and> ec_client c' \<noteq> None"
    if "ec_client c \<noteq> None" "routes (client_sigs J keys) T o1" "op_type o1 = kInvoke"
      "op_process o1 \<noteq> kNemesisProcess" for c o1 v
  proof -
    note answer = answers_routed [OF that(2,4,3)]
    have "ec_client c \<noteq> None" by (fact that(1))
    then obtain e where "ec_client c = Some e" by auto
    then obtain b op' v' where "ETCDClient_invoke A E o1 c v = (Inr (b, op', c), v')"
      using answer [of c e v] by blast
    then show ?thesis using \<open>ec_client c \<noteq> None\<close> by (simp add: ETCDClient_def)
  qed
qed (auto simp: ETCDClient_def NoopNemesis_def act_return_def)

end

interpretation idle_etcd: answering_etcd array_access half_etcd array_json shipped_keys
  by unfold_locales
    (auto simp: half_etcd_def act_return_def array_access_def array_json_def factory_read_def factory_write_def
      Operation_of_def shipped_keys_def numeral_2_eq_2)

section \<open>Its runs\<close>

abbreviation shipped_routes :: "json_lib \<Rightarrow> operation \<Rightarrow> bool" where
  "shipped_routes J \<equiv> routes (client_sigs J shipped_keys) {op_sig (factory_fakePartition J)}"

abbreviation ending_law :: "json_lib \<Rightarrow> int \<Rightarrow> gen_ptr \<Rightarrow> operation list \<Rightarrow> bool" where
  "ending_law J t g h \<equiv> validated (shipped_law J t) g h \<and>
     validated (inside_limit (test_source J shipped_keys) 5000000000 t) g h"

abbreviation ended :: "json_lib \<Rightarrow> operation list \<Rightarrow> bool" where
  "ended J h \<equiv> list_all (shipped_routes J) h \<and> before_cutoff 5000000000 h"

lemma shipped_ending:
  "dispatch_law (gen_op d) gen_update 5 (ending_law J) (shipped_routes J) (ended J)"
  using law_conj [OF dispatch_system.axioms(2) [OF shipped_system]
      test_sources.inside_laws [of d 5 J shipped_keys 5000000000]] by simp

lemma shipped_answering:
  assumes "10 < d"
  shows "answering_law (gen_op d) gen_update 5 (ending_law J) (shipped_routes J) (ended J)
    unstarted (\<lambda>t. t + 5000000000 + 4000000000 < 2 ^ 63)"
proof (rule test_sources.limit_answering [OF shipped_ending])
  show "validated (\<lambda>g h. within 5000000000 t g h \<and> inside_limit (test_source J shipped_keys) 5000000000 t g h) g h"
    if "ending_law J t g h" for t g h
    using that validated_conj by (blast elim: validated_mono)
qed (use assms all_free in auto)

lemma shipped_unfailing:
  assumes "answering_etcd A E J shipped_keys" and "10 < d"
  shows "unfailing_system (gen_op d) gen_update good_gen (ETCDClient A E) {kSuccess, kFailed, kInvoke}
    shipped_nemesis {kSuccess} 5 (ending_law J) (shipped_routes J) (ended J) (\<lambda>c. ec_client c \<noteq> None)
    unstarted (\<lambda>t. t + 5000000000 + 4000000000 < 2 ^ 63)"
proof (intro unfailing_system.intro progress_system.intro steady_system.intro progress_system_axioms.intro
    runner_systemI [OF shipped_contracts] shipped_answering assms(2)
    answering_law.axioms(1) [OF shipped_answering [OF assms(2)]])
  show "steady_clients (ETCDClient A E) shipped_nemesis (shipped_routes J) (\<lambda>c. ec_client c \<noteq> None)"
    unfolding shipped_nemesis_def by (rule answering_etcd.steady_etcd [OF assms(1)])
  show "settling_clients (ETCDClient A E) shipped_nemesis (shipped_routes J)"
    unfolding shipped_nemesis_def by (rule routed_settle)
qed simp_all

text \<open>What the loop of the shipped test starts from.\<close>

lemma shipped_start:
  assumes "test_generator J shipped_keys junk draws = Inr gen" and "junk \<le> now \<or> junk = kInvalidTime"
    and "- (2 ^ 63) \<le> junk" and "0 \<le> now"
  shows "good_gen (setGenerator gen)" and "ending_law J now (setGenerator gen) []"
proof -
  obtain ng cg where g: "gen = createTimeLimit2 5000000000 (nemesis2 ng cg)"
    "good_gen (nemesis2 ng cg)" "nemesis2 ng cg \<noteq> None" "all_ptr (timely_node now) (nemesis2 ng cg)"
    "all_ptr (raw_node (raw_ops {kNemesisProcess} {op_sig (factory_fakePartition J)})) ng"
    "all_ptr (raw_node (raw_ops {} (client_sigs J shipped_keys))) cg"
    using test_generator_parts [OF assms(1) _ assms(2)] by (auto simp: shipped_keys_def)
  show "good_gen (setGenerator gen)"
    unfolding g(1) using good_time_limit [OF g(2,3)] good_gen_set by blast
  have "shipped_law J now gen []"
    unfolding g(1) using test_class_start [OF g(5,6)] within_start [OF g(2,4) _ assms(4)]
    by (simp add: obeys_def)
  moreover have "inside_limit (test_source J shipped_keys) 5000000000 now gen []"
    by (rule test_generator_inside [OF assms])
  ultimately show "ending_law J now (setGenerator gen) []" by simp
qed

text \<open>
  C7. The shipped test can be brought to its end: as long as etcd answers every call, with a
  number where it answers a read, no state that the loop of the test reaches, whatever the interleaving,
  the draws and the delays, is a dead end or an abort: the run has a continuation in which the
  workers finish and are joined, and then every invocation is the partition or a read or a write, less
  than five seconds after the first one. The conditions: the clock is not negative, does not go back and leaves nine
  seconds to the end of its range; less than \<open>2 ^ 31\<close> steps have been taken; the stack is deeper than
  ten calls; and the field \<open>next_time\<close> that the constructor of \<open>Stagger\<close> leaves uninitialised, an
  arbitrary 64-bit integer in C++, holds \<open>kInvalidTime\<close> or a time that is not still to come.
\<close>

theorem shipped_test_finishes:
  assumes "answering_etcd (sh_access V) (sh_etcd V) (sh_json V) shipped_keys" and "10 < sh_depth V"
    and "test_generator (sh_json V) shipped_keys (sh_junk V) draws = Inr gen"
    and "sh_junk V \<le> now \<or> sh_junk V = kInvalidTime" and "in_i64 (sh_junk V)" and "0 \<le> now"
    and "runCases_init shipped_nemesis shipped_nodes 5 now (setGenerator gen) w = Inr s0"
    and "sys_execs (gen_op (sh_depth V)) gen_update (ETCDClient (sh_access V) (sh_etcd V)) shipped_nemesis as s0 = Some s"
    and "clocked now as" and "int (length as) < 2 ^ 31"
    and "fold (\<lambda>a t. action_time t a) as now + 9000000000 < 2 ^ 63"
  shows "\<exists>s'. sys_steps (gen_op (sh_depth V)) gen_update (ETCDClient (sh_access V) (sh_etcd V)) shipped_nemesis s s' \<and>
    r_phase (s_run s') = Done \<and>
    (\<forall>o1 \<in> set (invocations (r_history (s_run s'))).
      routes (client_sigs (sh_json V) shipped_keys) {op_sig (factory_fakePartition (sh_json V))} o1 \<and>
      op_time o1 < op_time (hd (invocations (r_history (s_run s')))) + 5000000000)"
proof -
  have "- (2 ^ 63) \<le> sh_junk V" using assms(5) by (simp add: in_i64_def)
  note start = shipped_start [OF assms(3,4) this assms(6)]
  note sys = shipped_unfailing [OF assms(1,2)]
  have time: "fold (\<lambda>a t. action_time t a) as now + 5000000000 + 4000000000 < 2 ^ 63" using assms(11) by simp
  show ?thesis
    using unfailing_system.schedule_finishes [OF sys assms(7) start assms(8,9) time assms(10)]
    by (auto simp: before_cutoff_def list_all_iff)
qed

text \<open>Two operations under way, in the world of \<open>idle_env\<close>.\<close>

interpretation idle_runs:
  unfailing_system "gen_op 16" gen_update good_gen "ETCDClient array_access half_etcd" "{kSuccess, kFailed, kInvoke}"
    shipped_nemesis "{kSuccess}" 5 "ending_law array_json" "shipped_routes array_json" "ended array_json"
    "\<lambda>c. ec_client c \<noteq> None" unstarted "\<lambda>t. t + 5000000000 + 4000000000 < 2 ^ 63"
  by (rule shipped_unfailing [OF idle_etcd.answering_etcd_axioms]) simp

definition idle_execs :: "action list \<Rightarrow> (unit etcd_client, (script \<times> unit ssh_remote list) \<times> rng) sys option" where
  "idle_execs as =
     (case runCases_init shipped_nemesis shipped_nodes 5 0 (setGenerator idle_gen) (idle_shells, []) of
        Inl e \<Rightarrow> None
      | Inr s \<Rightarrow> sys_execs (gen_op 16) gen_update (ETCDClient array_access half_etcd) shipped_nemesis as s)"

definition idle_actions :: "action list" where
  "idle_actions = [Ask 5 [], Ask 6 [0, 0, 1, 0], Work 0]"

lemma idle_clock:
  "clocked 0 idle_actions" "int (length idle_actions) < 2 ^ 31"
  "fold (\<lambda>a t. action_time t a) idle_actions 0 + 9000000000 < 2 ^ 63"
  by (simp_all add: idle_actions_def)

lemma idle_execs_run:
  "(case idle_execs idle_actions of
      None \<Rightarrow> False
    | Some s \<Rightarrow> map op_func (r_history (s_run s)) = [''partition'', ''read''] \<and> length (s_completions s) = 1)"
  by code_simp

theorem shipped_test_finishes_witness:
  "\<exists>s s'. idle_execs idle_actions = Some s \<and>
     map op_func (r_history (s_run s)) = [''partition'', ''read''] \<and>
     sys_steps (gen_op 16) gen_update (ETCDClient array_access half_etcd) shipped_nemesis s s' \<and>
     r_phase (s_run s') = Done \<and>
     list_all (\<lambda>o1. op_time o1 < op_time (hd (invocations (r_history (s_run s')))) + 5000000000)
       (invocations (r_history (s_run s')))"
proof -
  have env: "sh_json idle_env = array_json" "sh_junk idle_env = 0" "sh_depth idle_env = 16"
    "sh_access idle_env = array_access" "sh_etcd idle_env = half_etcd"
    by (simp_all add: idle_env_def)
  obtain s where s: "idle_execs idle_actions = Some s" "map op_func (r_history (s_run s)) = [''partition'', ''read'']"
    using idle_execs_run by (auto split: option.splits)
  then obtain s0 where s0: "runCases_init shipped_nemesis shipped_nodes 5 0 (setGenerator idle_gen) (idle_shells, []) = Inr s0"
    "sys_execs (gen_op 16) gen_update (ETCDClient array_access half_etcd) shipped_nemesis idle_actions s0 = Some s"
    by (auto simp: idle_execs_def split: sum.splits)
  have "\<exists>s'. sys_steps (gen_op 16) gen_update (ETCDClient array_access half_etcd) shipped_nemesis s s' \<and>
    r_phase (s_run s') = Done \<and>
    (\<forall>o1 \<in> set (invocations (r_history (s_run s'))).
      shipped_routes array_json o1 \<and> op_time o1 < op_time (hd (invocations (r_history (s_run s')))) + 5000000000)"
    by (rule shipped_test_finishes [where V = idle_env and draws = "[]", unfolded env,
          OF idle_etcd.answering_etcd_axioms _ idle_test_generator _ _ _ s0 idle_clock])
      (simp_all add: in_i64_def)
  then show ?thesis using s by (auto simp: list_all_iff)
qed

end
