(* ===== verification/Entry_Point.thy ===== *)
theory Entry_Point
  imports Ssh_Properties
begin

text \<open>
  The program of \<open>src/main.cpp\<close>: two threads run \<open>remoteWorks\<close> side by side, each with a client of its
  own, over one network and one libssh2. They take turns by whole calls of the client.
\<close>

section \<open>The threads\<close>

datatype ssh_call = Construct | Execute string | Destroy

text \<open>The calls of \<open>remoteWorks\<close>, in order.\<close>

definition remote_calls :: "ssh_call list" where
  "remote_calls = [Construct, Execute ''uptime'', Execute ''cat /proc/cpuinfo'', Execute ''ls /tmp/'', Destroy]"

text \<open>A call of a thread, which keeps its client between its calls.\<close>

definition thread_call ::
  "('s, 'k, 'h, 'w) ssh_lib \<Rightarrow> nat \<Rightarrow> nat \<times> ssh_call \<Rightarrow> ('s ssh_client option list \<times> 'w, unit) act" where
  "thread_call L n x s =
     (case (x, s) of ((tid, call), (clients, w)) \<Rightarrow>
        (case (call, clients ! tid) of
           (Construct, _) \<Rightarrow>
             (case SSHClient_ctor L ''47.108.158.63'' ''young'' [] 22 w of
                (Inl e, w') \<Rightarrow> (Inl e, (clients, w'))
              | (Inr c, w') \<Rightarrow> (Inr (), (clients[tid := Some c], w')))
         | (Execute command, Some c) \<Rightarrow>
             (case SSHClient_execute1 L n command c w of
                (Inl e, w') \<Rightarrow> (Inl e, (clients, w'))
              | (Inr (_, c'), w') \<Rightarrow> (Inr (), (clients[tid := Some c'], w')))
         | (Destroy, Some c) \<Rightarrow>
             (case SSHClient_dtor L c w of
                (Inl e, w') \<Rightarrow> (Inl e, (clients, w'))
              | (Inr _, w') \<Rightarrow> (Inr (), (clients[tid := None], w')))
         | (_, None) \<Rightarrow> (Inl NullDeref, (clients, w))))"

text \<open>An exception that leaves the body of a thread ends the program, as it does in a parallel loop.\<close>

definition testMultiThreadSSH ::
  "nat list \<Rightarrow> ('s, 'k, 'h, 'w) ssh_lib \<Rightarrow> nat \<Rightarrow> ('s ssh_client option list \<times> 'w, unit) act" where
  "testMultiThreadSSH sched L n =
     par_for sched (thread_call L n) [map (Pair 0) remote_calls, map (Pair 1) remote_calls]"

definition main_program :: "nat list \<Rightarrow> ('s, 'k, 'h, 'w) ssh_lib \<Rightarrow> nat \<Rightarrow> 'w \<Rightarrow> int res \<times> 'w" where
  "main_program sched L n w =
     (case testMultiThreadSSH sched L n ([None, None], w) of
        (Inl e, (_, w')) \<Rightarrow> (Inl e, w')
      | (Inr _, (_, w')) \<Rightarrow> (Inr 0, w'))"

section \<open>One thread after the other\<close>

text \<open>Alone, a thread is \<open>remoteWorks\<close>.\<close>

lemma thread_is_remoteWorks:
  assumes "tid < length clients"
  shows "(case act_for (thread_call L n) (map (Pair tid) remote_calls) (clients, w) of (x, (_, w')) \<Rightarrow> (x, w')) =
    remoteWorks L n i w"
  using assms
  by (auto simp: remote_calls_def thread_call_def remoteWorks_def act_bind_def act_return_def split: prod.splits sum.splits)

section \<open>A host that cannot be reached\<close>

text \<open>
  Wherever the two threads stand before their first command, the one that comes to it first ends
  the program: \<open>m k\<close> is how many calls thread \<open>k\<close> has made.
\<close>

lemma threads_unreachable:
  assumes down: "\<And>w. \<exists>w'. sys_socket L w = (Inr fd, w')"
      "\<And>a p w. \<exists>rc w'. sys_connect L fd a p w = (Inr rc, w') \<and> rc \<noteq> 0"
    and null: "\<And>w. \<exists>w'. channel_open_session L None w = (Inr None, w')"
      "\<And>w. \<exists>r w'. session_last_error L None w = (r, w') \<and> (r = Inl NullDeref \<or> (\<exists>x. r = Inr x \<and> x \<noteq> EAGAIN L))"
    and init: "\<And>w. \<exists>w'. ssh_init L w = (Inr 0, w')" and n: "0 < n"
    and order: "\<And>k. k < 2 \<Longrightarrow> filter (\<lambda>x. fst x = k) xs = map (Pair k) (drop (m k) remote_calls)"
    and stand: "\<And>k. k < 2 \<Longrightarrow> m k = 0 \<or> m k = 1 \<and> (\<exists>c. clients ! k = Some c \<and> sc_session c = None)"
    and two: "length clients = 2" "fst ` set xs \<subseteq> {0, 1}"
  shows "\<exists>e s'. act_for (thread_call L n) xs (clients, w) = (Inl e, s') \<and> e \<in> {NullDeref, ProcessExit}"
  using order stand two
proof (induction xs arbitrary: clients w m)
  case Nil
  then show ?case by (force simp: remote_calls_def)
next
  case (Cons x xs)
  obtain k call where x: "x = (k, call)" by force
  have k: "k < 2" using Cons.prems(4) x by auto
  have rest: "map (Pair k) (drop (m k) remote_calls) = x # filter (\<lambda>x. fst x = k) xs"
    using Cons.prems(1) [OF k] x by simp
  consider (construct) "m k = 0" | (run) c where "m k = 1" "clients ! k = Some c" "sc_session c = None"
    using Cons.prems(2) [OF k] by (elim disjE conjE exE) auto
  then show ?case
  proof cases
    case construct
    then have call: "call = Construct" "filter (\<lambda>x. fst x = k) xs = map (Pair k) (drop 1 remote_calls)"
      using rest x by (simp_all add: remote_calls_def)
    obtain w1 where w1: "ssh_init L w = (Inr 0, w1)" using init by blast
    let ?c = "\<lparr>sc_ip_addr = ''47.108.158.63'', sc_host_addr = inet_addr L ''47.108.158.63'', sc_port = 22,
      sc_username = ''young'', sc_password = [], sc_sock = kSocketInit, sc_session = None\<rparr>"
    have step: "thread_call L n x (clients, w) = (Inr (), (clients[k := Some ?c], w1))"
      using x call(1) w1 by (simp add: thread_call_def SSHClient_ctor_def act_bind_def act_return_def)
    have "\<exists>e s'. act_for (thread_call L n) xs (clients[k := Some ?c], w1) = (Inl e, s') \<and> e \<in> {NullDeref, ProcessExit}"
    proof (rule Cons.IH [of "m(k := 1)"])
      show "filter (\<lambda>x. fst x = j) xs = map (Pair j) (drop ((m(k := 1)) j) remote_calls)" if "j < 2" for j
        using Cons.prems(1) [OF that] call(2) x by auto
      show "(m(k := 1)) j = 0 \<or> (m(k := 1)) j = 1 \<and>
          (\<exists>c. clients[k := Some ?c] ! j = Some c \<and> sc_session c = None)" if "j < 2" for j
        using Cons.prems(2) [OF that] Cons.prems(3) k by (auto simp: nth_list_update)
    qed (use Cons.prems(3,4) in auto)
    then show ?thesis using step by (simp add: act_bind_def)
  next
    case run
    then have "call = Execute ''uptime''" using rest x by (simp add: remote_calls_def)
    moreover obtain e w1 where "SSHClient_execute L n ''uptime'' [] [] c w = (Inl e, w1)" "e \<in> {NullDeref, ProcessExit}"
      using unreachable_execute [OF down null run(3) n, of "''uptime''" "[]" "[]" w] by blast
    ultimately show ?thesis
      using x run(2) by (simp add: thread_call_def SSHClient_execute1_def act_bind_def)
  qed
qed

lemma main_unreachable:
  assumes down: "\<And>w. \<exists>w'. sys_socket L w = (Inr fd, w')"
      "\<And>a p w. \<exists>rc w'. sys_connect L fd a p w = (Inr rc, w') \<and> rc \<noteq> 0"
    and null: "\<And>w. \<exists>w'. channel_open_session L None w = (Inr None, w')"
      "\<And>w. \<exists>r w'. session_last_error L None w = (r, w') \<and> (r = Inl NullDeref \<or> (\<exists>x. r = Inr x \<and> x \<noteq> EAGAIN L))"
    and init: "\<And>w. \<exists>w'. ssh_init L w = (Inr 0, w')" and n: "0 < n"
  shows "\<exists>e w'. main_program sched L n w = (Inl e, w') \<and> e \<in> {NullDeref, ProcessExit}"
proof -
  let ?ts = "[map (Pair (0 :: nat)) remote_calls, map (Pair 1) remote_calls]"
  have "\<exists>e s'. act_for (thread_call L n) (par_order sched ?ts) ([None, None], w) = (Inl e, s') \<and>
    e \<in> {NullDeref, ProcessExit}"
  proof (rule threads_unreachable [OF down null init n, of _ "\<lambda>_. 0"])
    show "filter (\<lambda>x. fst x = k) (par_order sched ?ts) = map (Pair k) (drop 0 remote_calls)" if "k < 2" for k
    proof -
      have "filter (\<lambda>x. fst x = k) (par_order sched ?ts) = filter (\<lambda>x. fst x = k) (?ts ! k)"
        by (rule filter_par_order) (use that in \<open>auto simp: less_Suc_eq filter_empty_conv numeral_2_eq_2\<close>)
      then show ?thesis using that by (auto simp: less_Suc_eq numeral_2_eq_2 o_def)
    qed
  qed (auto simp: set_par_order)
  then obtain e s' where e: "act_for (thread_call L n) (par_order sched ?ts) ([None, None], w) = (Inl e, s')"
    "e \<in> {NullDeref, ProcessExit}" by blast
  then have "testMultiThreadSSH sched L n ([None, None], w) = (Inl e, s')"
    by (auto simp: testMultiThreadSSH_def par_for_def no_exception_def interleaved_def thrown_def)
  then show ?thesis using e(2) by (cases s') (simp add: main_program_def)
qed

end
