(* ===== verification/Spec2Isabelle.thy ===== *)
theory Spec2Isabelle
  imports Combinators Base64 Context_Properties Generator_Wrappers Runner_Lists Etcd_Client
    Etcd_Database Shipped_Progress Entry_Point
begin

text \<open>
  A verification development for Jepsen in C++ (\<open>src/src/jepsen\<close>, with the etcd test of
  \<open>src/test/etcd\<close> and \<open>src/test/runner\<close>).

  The program tests a distributed database: it sets the database up on some nodes over SSH, lets
  client threads run operations that a generator schedules, records their history, and tears
  everything down. All definitions are translations of the source; code of other projects (libssh2
  and the socket calls, jsoncpp, the etcd client library, \<open>boost::format\<close>, \<open>boost::split\<close>,
  \<open>boost::filesystem\<close>) is an argument of the definitions that use it.

  \<^bold>\<open>Conventions\<close> (\<open>Prelude\<close>, \<open>Effects\<close>). A call returns a value or a \<open>fault\<close>: undefined behaviour, an
  exception, the end of the stack, the end of the process, or a loop that has used up its rounds.
  A call with effects is an \<open>act\<close> over a world it shares with other calls; the laws of the calls are
  stated with \<open>act_spec\<close> (pre- and postconditions) and \<open>keeps\<close> (invariants). Random draws are lists,
  the clock is an argument, threads are interleaved by schedules or by a step relation.

  \<^bold>\<open>Parts, theories and sources\<close>

  \<^item> \<open>Operations\<close>: \<open>Operation.h\<close>, \<open>Operation.cpp\<close>, \<open>include/constant.h\<close>. Operations, their factory
    and rendering. \<open>Rendering\<close>: the text of a payload against a reference printer that is injective
    but for the signedness of integers.
  \<^item> \<open>Contexts\<close>, \<open>Context_Properties\<close>: \<open>Context.h\<close>, \<open>Context.cpp\<close>. Free threads and the processes
    they run; new processes are fresh and congruent to their thread.
  \<^item> \<open>Generators\<close>: \<open>generator/Generator.h\<close>, \<open>Generator.cpp\<close>, \<open>GeneratorFactory.h\<close>. \<open>gen\<close> has a
    constructor per class, \<open>gen_op\<close> and \<open>gen_update\<close> are \<open>op\<close> and \<open>update\<close>. \<open>Generator_Laws\<close>,
    \<open>Generator_Depth\<close>, \<open>Generator_Emission\<close> and \<open>Generator_Properties\<close>: no fault but the listed ones, an
    explicit call depth that is enough, what can come out, when and whom it is for. \<open>Generator_Classes\<close>: lists
    refine queues. \<open>Generator_Wrappers\<close>: time limits, \<open>Any\<close>, \<open>OnThreads\<close>, and the operations that the
    wrappers lose. \<open>Combinators\<close>: the functions at the end of \<open>Generator.cpp\<close>, \<open>utils/TimeHelper.cpp\<close>
    and the generator of \<open>test_runner.cpp\<close>.
  \<^item> \<open>Workers\<close>: \<open>Client.h\<close>, \<open>Client.cpp\<close>, \<open>Nemesis.h\<close>, \<open>Nemesis.cpp\<close>, \<open>Worker.h\<close>, \<open>Worker.cpp\<close>. A
    client class is a record of its virtual methods, \<open>registry\<close> holds the registered ones;
    \<open>client_contract\<close> and \<open>completing_client\<close> are what the runner relies on.
  \<^item> \<open>Runner\<close>: \<open>Runner::runCases\<close>. \<open>sys_step\<close> interleaves the loop with the worker threads;
    \<open>Runner_Invariant\<close> and \<open>Runner_Safety\<close> prove the invariant of the reachable states inside the locale
    \<open>runner_system\<close>, \<open>Runner_Liveness\<close> that a run can be finished or hangs, \<open>Runner_Properties\<close> states
    what follows for histories.
  \<^item> Laws of dispatch: \<open>Runner_Dispatch\<close> is about any property of the generator and of the invocations
    so far that every dispatch keeps (locale \<open>dispatch_law\<close>), and carries it through the runs of the
    loop (locale \<open>dispatch_system\<close>). Its instances: \<open>Runner_Lists\<close> (the invocations and what the
    generator still holds make up a list, with the queue of \<open>Generator_Classes\<close>), \<open>Runner_Limits\<close> (the
    cutoff of a time limit), \<open>Runner_Routing\<close> (which generator an operation comes from and who runs
    it). \<open>Runner_Progress\<close> adds that a law with operations left offers one (locale
    \<open>progress_system\<close>), so that a run over a list can be finished from every state it reaches.
    \<open>Runner_Unfailing\<close> adds that it always answers, so that nothing aborts the run; \<open>Runner_Endless\<close>
    builds such laws from the combinators: generators that never run out (locale \<open>endless\<close>), closed
    under \<open>Stagger\<close>, \<open>Mix\<close>, \<open>OnThreads\<close> and \<open>Any\<close>, inside a \<open>TimeLimit\<close>.
  \<^item> \<open>Lifecycle\<close>: the rest of \<open>Runner.h\<close> and \<open>Runner.cpp\<close>, \<open>Database.h\<close>, \<open>Database.cpp\<close>, \<open>OS.h\<close>,
    \<open>OS.cpp\<close>. \<open>Runner_run\<close> composes the phases of \<open>Runner::run\<close> with \<open>runCases\<close>. \<open>Lifecycle_Trace\<close>
    records the calls of arbitrary classes (locales \<open>object_frame\<close>, \<open>system_frame\<close>),
    \<open>Lifecycle_Phases\<close> says what each phase records under every schedule, \<open>Lifecycle_Properties\<close> puts
    them together: the order of a test, the life of the clients, failures, the saved history. An
    exception in a loop under \<open>std::execution::par\<close> ends the program (\<open>no_exception\<close>).
  \<^item> \<open>Ssh\<close>, \<open>Ssh_Properties\<close>: \<open>control/SSHClient.h\<close>, \<open>SSHClient.cpp\<close>, \<open>SSHChannel.h\<close>, \<open>SSHChannel.cpp\<close>,
    \<open>SSHConfig.h\<close>. Connections and channels over non-blocking libssh2, and what is left of them after a
    failure. \<open>Entry_Point\<close>: \<open>src/main.cpp\<close>, two threads with a client each; one after the other they are
    \<open>remoteWorks\<close> twice, and under every interleaving a host that cannot be reached ends the program.
  \<^item> \<open>Remotes\<close>: \<open>control/Remote.h\<close>, \<open>RemoteSpec.h\<close>, \<open>SSHRemote.h\<close>, \<open>SSHRemote.cpp\<close>. The interface is
    the record \<open>remote_class\<close> with the locale \<open>remote_contract\<close>, which SSH remotes fulfil directly and
    behind shared pointers.
  \<^item> \<open>Control\<close>, \<open>Control_Properties\<close>: \<open>Control.h\<close>, \<open>Control.cpp\<close>. Shell commands, as the sequences of
    commands they send with the answers they look at, for every outcome of every command.
  \<^item> \<open>Base64\<close>: \<open>utils/base64.cpp\<close>, against RFC 4648.
  \<^item> \<open>Etcd_Client\<close>, \<open>Etcd_Database\<close>: the client and the database of the etcd test, instances of the
    client and database classes.
  \<^item> \<open>Shipped_Test\<close>: \<open>main\<close> of \<open>test/runner/test_runner.cpp\<close>, the composition of all of the above, with
    the laws of routing and of the time limit for its histories. Its witness is a complete run.
    \<open>Shipped_Progress\<close>: with an etcd that answers (locale \<open>answering_etcd\<close>) it is never aborted and
    can be finished from every state its loop reaches.

  \<^bold>\<open>Bounds\<close>. \<open>op\<close> and \<open>update\<close> recurse over a shared graph of generators; \<open>gen_op\<close> takes a call
    depth, \<open>op_terminates\<close> gives a depth that suffices from the size of the generator, and
    \<open>nil_function_diverges\<close> shows that some generators exhaust any. Loops that wait for the other
    side (SSH, temporary directories) take a number of rounds; \<open>retry_mono\<close> says that more rounds do
    not change a result, and \<open>retry_total\<close> and the theorems on SSH give a number that is enough for a
    peer that answers. A schedule of \<open>runCases\<close> that is not a complete run is a fault, so theorems about
    runs that return are about complete runs.

  \<^bold>\<open>Not modelled\<close>. Log output, thread names and diagnostics on \<open>stderr\<close>; memory management other than
  the null pointers, the aliasing of generators and remotes, and the destructors of SSH clients; data
  races inside a method of a database that several nodes call at once (the interleaving is by whole
  calls); \<open>Checker.h\<close>, which is an empty class; the Windows branches; the list of operations that \<open>test_runner.cpp\<close> fills and does not use;
  the other trial programs under \<open>src/test\<close>.

  \<^bold>\<open>Left for later\<close>. The rendering of payloads with objects.
\<close>

end
